(* ===== verification/Prelude.thy ===== *)
theory Prelude
  imports Main "HOL-Library.Word"
begin

text \<open>
  Shared vocabulary of the development: the types every component uses (bytes,
  exceptions, results), the parts of the C++ standard library the sources call
  (\<open>std::string::find\<close>, \<open>std::to_string\<close>, \<open>std::stoul\<close>, \<open>std::stoi\<close>,
  \<open>std::unordered_map\<close>), and generic lemmas on lists, strings and association lists.
\<close>

unbundle bit_operations_syntax

text \<open>What searching a string and updating a hash map compute.\<close>

named_theorems cpp_simps

section \<open>Types\<close>

type_synonym byte = "8 word"
type_synonym bytes = "byte list"

text \<open>
  Exceptions. The first four carry the message of the \<open>throw\<close>; \<open>LibError\<close> is any
  exception raised inside a library; \<open>UndefinedBehaviour\<close> marks an access the C++ standard
  gives no meaning to (an index past the end of a vector).
\<close>

datatype exn =
    InvalidArgument string
  | RuntimeError string
  | OverflowError string
  | OutOfRange string
  | LibError string
  | UndefinedBehaviour

type_synonym 'a res = "exn + 'a"

fun exn_what :: "exn \<Rightarrow> string" where
  "exn_what (InvalidArgument s) = s"
| "exn_what (RuntimeError s) = s"
| "exn_what (OverflowError s) = s"
| "exn_what (OutOfRange s) = s"
| "exn_what (LibError s) = s"
| "exn_what UndefinedBehaviour = ''''"

fun bind_res :: "'a res \<Rightarrow> ('a \<Rightarrow> 'b res) \<Rightarrow> 'b res" where
  "bind_res (Inl e) f = Inl e"
| "bind_res (Inr x) f = f x"

lemma bind_res_eq_Inr [simp]:
  "bind_res r f = Inr y \<longleftrightarrow> (\<exists>x. r = Inr x \<and> f x = Inr y)"
  by (cases r) auto

lemma isl_bind_res [simp]: "isl (bind_res r f) \<longleftrightarrow> isl r \<or> (\<exists>x. r = Inr x \<and> isl (f x))"
  by (cases r) auto

definition is_ok :: "'a res \<Rightarrow> bool" where
  "is_ok r = (\<not> isl r)"

lemma is_ok_simps [simp]: "is_ok (Inr x)" "\<not> is_ok (Inl e)"
  by (simp_all add: is_ok_def)

section \<open>Lists cut into blocks\<close>

lemma length_concat_blocks:
  "(\<And>x. x \<in> set xs \<Longrightarrow> length x = k) \<Longrightarrow> length (concat xs) = length xs * k"
  by (induction xs) auto

lemma nth_concat_blocks:
  assumes "\<And>x. x \<in> set xs \<Longrightarrow> length x = k" and "t < length xs" and "j < k"
  shows "concat xs ! (t * k + j) = xs ! t ! j"
  using assms
proof (induction xs arbitrary: t)
  case Nil
  then show ?case by simp
next
  case (Cons x xs)
  show ?case
  proof (cases t)
    case 0
    with Cons.prems show ?thesis by (simp add: nth_append)
  next
    case (Suc t')
    have len: "length x = k" using Cons.prems(1) by simp
    have "concat xs ! (t' * k + j) = xs ! t' ! j"
      by (rule Cons.IH) (use Cons.prems Suc in auto)
    with Suc len show ?thesis by (simp add: nth_append add.assoc)
  qed
qed

lemma block_index_bound: "t < n \<Longrightarrow> j < k \<Longrightarrow> t * k + j < n * (k::nat)"
proof -
  assume "t < n" "j < k"
  then have "t * k + j < t * k + k" by simp
  also have "\<dots> = Suc t * k" by simp
  also have "\<dots> \<le> n * k" using \<open>t < n\<close> by (intro mult_le_mono1) simp
  finally show ?thesis .
qed

lemma nth_take_drop_block:
  "(Suc i) * k \<le> length M \<Longrightarrow> j < k \<Longrightarrow> take k (drop (i * k) M) ! j = M ! (i * k + j)"
  by (simp add: nth_take)

lemma list_eq_by_blocks:
  assumes "length xs = n * k" and "length ys = n * k"
    and "\<And>t j. t < n \<Longrightarrow> j < k \<Longrightarrow> xs ! (t * k + j) = ys ! (t * k + j)"
  shows "xs = ys"
proof (rule nth_equalityI)
  show "length xs = length ys" using assms by simp
  fix p assume "p < length xs"
  then have p: "p < n * k" using assms by simp
  then have k: "0 < k" by (cases k) auto
  have "p div k < n" using p k by (simp add: less_mult_imp_div_less)
  moreover have "p mod k < k" using k by simp
  ultimately have "xs ! (p div k * k + p mod k) = ys ! (p div k * k + p mod k)"
    by (rule assms(3))
  then show "xs ! p = ys ! p" by simp
qed

section \<open>Strings\<close>

text \<open>\<open>s.find(c)\<close>, \<open>s.find(c, p)\<close> and \<open>s.rfind(c)\<close>; \<open>None\<close> is \<open>npos\<close>.\<close>

definition find_char :: "char \<Rightarrow> string \<Rightarrow> nat option" where
  "find_char c s = (let n = length (takeWhile (\<lambda>x. x \<noteq> c) s) in
     if n < length s then Some n else None)"

definition find_char_from :: "char \<Rightarrow> string \<Rightarrow> nat \<Rightarrow> nat option" where
  "find_char_from c s p = map_option (\<lambda>i. p + i) (find_char c (drop p s))"

definition rfind_char :: "char \<Rightarrow> string \<Rightarrow> nat option" where
  "rfind_char c s = map_option (\<lambda>i. length s - 1 - i) (find_char c (rev s))"

definition substr :: "string \<Rightarrow> nat \<Rightarrow> nat \<Rightarrow> string" where
  "substr s p n = take n (drop p s)"

lemma find_char_None [simp]: "find_char c s = None \<longleftrightarrow> c \<notin> set s"
proof -
  have "length (takeWhile (\<lambda>x. x \<noteq> c) s) < length s \<longleftrightarrow> c \<in> set s"
    by (induction s) auto
  then show ?thesis by (simp add: find_char_def Let_def)
qed

lemma find_char_append: "c \<notin> set a \<Longrightarrow> find_char c (a @ c # b) = Some (length a)"
proof -
  assume "c \<notin> set a"
  then have "takeWhile (\<lambda>x. x \<noteq> c) (a @ c # b) = a"
    by (induction a) auto
  then show ?thesis by (simp add: find_char_def)
qed

lemma find_char_SomeD:
  assumes "find_char c s = Some n"
  shows "n < length s" and "s ! n = c" and "c \<notin> set (take n s)"
    and "s = take n s @ c # drop (Suc n) s"
proof -
  from assms have n: "n = length (takeWhile (\<lambda>x. x \<noteq> c) s)" and "n < length s"
    by (auto simp: find_char_def Let_def split: if_splits)
  then show "n < length s" by simp
  show *: "s ! n = c" using n \<open>n < length s\<close> nth_length_takeWhile by force
  have "take n s = takeWhile (\<lambda>x. x \<noteq> c) s"
    using n by (metis takeWhile_eq_take)
  then show "c \<notin> set (take n s)" by (auto dest: set_takeWhileD)
  show "s = take n s @ c # drop (Suc n) s"
    using * \<open>n < length s\<close> id_take_nth_drop by blast
qed

section \<open>Decimal numerals\<close>

fun dec_digits :: "nat \<Rightarrow> nat list" where
  "dec_digits n = (if n < 10 then [n] else dec_digits (n div 10) @ [n mod 10])"

declare dec_digits.simps [simp del]

definition digit_char :: "nat \<Rightarrow> char" where
  "digit_char d = char_of (48 + d)"

definition char_code :: "char \<Rightarrow> nat" where
  "char_code c = of_char c"

text \<open>\<open>std::to_string\<close> on an unsigned value.\<close>

definition to_string :: "nat \<Rightarrow> string" where
  "to_string n = map digit_char (dec_digits n)"

definition is_digit :: "char \<Rightarrow> bool" where
  "is_digit c = (48 \<le> char_code c \<and> char_code c \<le> 57)"

definition is_space :: "char \<Rightarrow> bool" where
  "is_space c = (char_code c = 32 \<or> (9 \<le> char_code c \<and> char_code c \<le> 13))"

definition digits_value :: "string \<Rightarrow> nat" where
  "digits_value s = foldl (\<lambda>a c. 10 * a + (char_code c - 48)) 0 s"

lemma dec_digits_lt: "d \<in> set (dec_digits n) \<Longrightarrow> d < 10"
proof (induction n arbitrary: d rule: dec_digits.induct)
  case (1 n)
  then show ?case
    by (subst (asm) dec_digits.simps) (auto split: if_splits)
qed

lemma dec_digits_nonempty [simp]: "dec_digits n \<noteq> []"
  by (subst dec_digits.simps) simp

lemma char_code_digit [simp]: "d < 10 \<Longrightarrow> char_code (digit_char d) = 48 + d"
  by (simp add: char_code_def digit_char_def)

lemma to_string_nonempty [simp]: "to_string n \<noteq> []"
  by (simp add: to_string_def)

lemma to_string_digits: "c \<in> set (to_string n) \<Longrightarrow> is_digit c"
  by (auto simp: to_string_def is_digit_def dest: dec_digits_lt)

lemma digits_value_snoc: "digits_value (s @ [c]) = 10 * digits_value s + (char_code c - 48)"
  by (simp add: digits_value_def)

lemma digits_value_to_string [simp]: "digits_value (to_string n) = n"
proof (induction n rule: dec_digits.induct)
  case (1 n)
  show ?case
  proof (cases "n < 10")
    case True
    then show ?thesis
      by (simp add: to_string_def dec_digits.simps [of n] digits_value_def)
  next
    case False
    have "digits_value (to_string n)
        = 10 * digits_value (to_string (n div 10)) + (char_code (digit_char (n mod 10)) - 48)"
      using False by (simp add: to_string_def dec_digits.simps [of n] digits_value_snoc)
    also have "\<dots> = n" using 1 False by simp
    finally show ?thesis .
  qed
qed

lemma to_string_inj: "to_string a = to_string b \<Longrightarrow> a = b"
  by (metis digits_value_to_string)

lemma slash_not_digit: "\<not> is_digit (CHR ''/'')" "\<not> is_digit (CHR ''|'')" "\<not> is_digit (CHR '':'')"
  by (simp_all add: is_digit_def char_code_def)

lemma to_string_no_slash [simp]:
  "CHR ''/'' \<notin> set (to_string n)" "CHR ''|'' \<notin> set (to_string n)" "CHR '':'' \<notin> set (to_string n)"
  using slash_not_digit to_string_digits by blast+

text \<open>
  \<open>std::stoul\<close> (\<open>strtoul\<close> in base 10): leading white space, an optional sign, the longest run
  of digits; what follows is ignored. A negative numeral is negated modulo \<open>2 ^ 64\<close>.
\<close>

definition split_sign :: "string \<Rightarrow> bool \<times> string" where
  "split_sign s = (case s of
     [] \<Rightarrow> (False, [])
   | c # r \<Rightarrow> if c = CHR ''-'' then (True, r) else if c = CHR ''+'' then (False, r) else (False, s))"

definition stoul :: "string \<Rightarrow> nat res" where
  "stoul s = (let (neg, u) = split_sign (dropWhile is_space s);
                  ds = takeWhile is_digit u;
                  v = digits_value ds
              in if ds = [] then Inl (InvalidArgument ''stoul'')
                 else if 2 ^ 64 \<le> int v then Inl (OutOfRange ''stoul'')
                 else Inr (if neg then (2 ^ 64 - v) mod 2 ^ 64 else v))"

definition stoi :: "string \<Rightarrow> int res" where
  "stoi s = (let (neg, u) = split_sign (dropWhile is_space s);
                 ds = takeWhile is_digit u;
                 v = (if neg then - int (digits_value ds) else int (digits_value ds))
             in if ds = [] then Inl (InvalidArgument ''stoi'')
                else if v < - 2147483648 \<or> 2147483647 < v then Inl (OutOfRange ''stoi'')
                else Inr v)"

lemma digit_not_space: "is_digit c \<Longrightarrow> \<not> is_space c"
  by (auto simp: is_digit_def is_space_def)

lemma split_sign_to_string: "split_sign (dropWhile is_space (to_string n)) = (False, to_string n)"
proof -
  obtain c r where cr: "to_string n = c # r" by (cases "to_string n") auto
  then have d: "is_digit c" using to_string_digits [of c n] by simp
  then have "c \<noteq> CHR ''-''" "c \<noteq> CHR ''+''"
    by (auto simp: is_digit_def char_code_def)
  with cr d show ?thesis by (simp add: digit_not_space split_sign_def)
qed

lemma takeWhile_to_string [simp]: "takeWhile is_digit (to_string n) = to_string n"
  using to_string_digits by (simp add: takeWhile_eq_all_conv)

lemma stoul_to_string: "n < 2 ^ 64 \<Longrightarrow> stoul (to_string n) = Inr n"
  by (simp add: stoul_def split_sign_to_string)

section \<open>Bytes and hexadecimal digits\<close>

definition byte_of_char :: "char \<Rightarrow> byte" where
  "byte_of_char c = word_of_nat (char_code c)"

definition char_of_byte :: "byte \<Rightarrow> char" where
  "char_of_byte b = char_of (unat b)"

definition bytes_of_string :: "string \<Rightarrow> bytes" where
  "bytes_of_string s = map byte_of_char s"

definition string_of_bytes :: "bytes \<Rightarrow> string" where
  "string_of_bytes b = map char_of_byte b"

lemma byte_of_char_of_byte [simp]: "byte_of_char (char_of_byte b) = b"
proof -
  have "unat b < 256" using unsigned_less [of b] by simp
  then show ?thesis by (simp add: byte_of_char_def char_of_byte_def char_code_def)
qed

lemma bytes_of_string_of_bytes [simp]: "bytes_of_string (string_of_bytes b) = b"
  by (simp add: bytes_of_string_def string_of_bytes_def comp_def)

definition hex_digit :: "byte \<Rightarrow> char" where
  "hex_digit d = ''0123456789abcdef'' ! unat d"

definition hex_byte :: "byte \<Rightarrow> string" where
  "hex_byte b = [hex_digit (drop_bit 4 b AND 15), hex_digit (b AND 15)]"

section \<open>Association lists as unordered maps\<close>

text \<open>
  A \<open>std::unordered_map\<close> is an association list with distinct keys. \<open>um_push\<close> is
  \<open>m[k].push_back(v)\<close>, \<open>um_emplace\<close> is \<open>m.emplace(k, v)\<close> (an existing key keeps its value),
  \<open>um_assign\<close> is \<open>m[k] = v\<close>. The C++ iteration order is unspecified: every loop over a map
  takes it from a parameter \<open>ord\<close>, an arbitrary rearrangement of the keys (\<open>order_ok\<close>).
\<close>

fun um_push :: "('k \<times> 'v list) list \<Rightarrow> 'k \<Rightarrow> 'v \<Rightarrow> ('k \<times> 'v list) list" where
  "um_push [] k v = [(k, [v])]"
| "um_push ((k', vs) # m) k v =
     (if k' = k then (k', vs @ [v]) # m else (k', vs) # um_push m k v)"

fun um_assign :: "('k \<times> 'v) list \<Rightarrow> 'k \<Rightarrow> 'v \<Rightarrow> ('k \<times> 'v) list" where
  "um_assign [] k v = [(k, v)]"
| "um_assign ((k', v') # m) k v =
     (if k' = k then (k', v) # m else (k', v') # um_assign m k v)"

definition um_emplace :: "('k \<times> 'v) list \<Rightarrow> 'k \<Rightarrow> 'v \<Rightarrow> ('k \<times> 'v) list" where
  "um_emplace m k v = (if map_of m k = None then m @ [(k, v)] else m)"

definition um_iter :: "('k list \<Rightarrow> 'k list) \<Rightarrow> ('k \<times> 'v) list \<Rightarrow> ('k \<times> 'v) list" where
  "um_iter ord m = map (\<lambda>k. (k, the (map_of m k))) (ord (map fst m))"

definition order_ok :: "('k list \<Rightarrow> 'k list) \<Rightarrow> bool" where
  "order_ok ord \<longleftrightarrow> (\<forall>ks. distinct ks \<longrightarrow> distinct (ord ks) \<and> set (ord ks) = set ks)"

definition pushed :: "('k \<times> 'v list) list \<Rightarrow> 'k \<Rightarrow> 'v list" where
  "pushed m k = (case map_of m k of None \<Rightarrow> [] | Some vs \<Rightarrow> vs)"

lemma pushed_Nil [simp]: "pushed [] k = []"
  by (simp add: pushed_def)

lemma map_of_um_push:
  "map_of (um_push m k v) = (map_of m)(k \<mapsto> pushed m k @ [v])"
  by (induction m k v rule: um_push.induct) (auto simp: pushed_def fun_eq_iff)

lemma pushed_um_push [simp]:
  "pushed (um_push m k v) k' = (if k' = k then pushed m k @ [v] else pushed m k')"
  by (simp add: pushed_def map_of_um_push)

lemma set_keys_um_push [simp]: "fst ` set (um_push m k v) = insert k (fst ` set m)"
  by (induction m k v rule: um_push.induct) auto

lemma distinct_um_push [simp]: "distinct (map fst m) \<Longrightarrow> distinct (map fst (um_push m k v))"
proof (induction m k v rule: um_push.induct)
  case (2 k' vs m k v)
  then show ?case
    using set_keys_um_push [of m k v] by (auto simp flip: set_map)
qed simp

lemma map_of_um_assign [simp]: "map_of (um_assign m k v) = (map_of m)(k \<mapsto> v)"
  by (induction m k v rule: um_assign.induct) (auto simp: fun_eq_iff)

lemma map_of_um_emplace:
  "map_of (um_emplace m k v) = (if map_of m k = None then (map_of m)(k \<mapsto> v) else map_of m)"
  by (auto simp: um_emplace_def map_add_def fun_eq_iff split: option.splits)

lemma order_ok_id [simp]: "order_ok (\<lambda>ks. ks)"
  by (simp add: order_ok_def)

lemma order_ok_rev [simp]: "order_ok rev"
  by (simp add: order_ok_def)

lemma um_iter_set:
  assumes "order_ok ord" and "distinct (map fst m)"
  shows "set (um_iter ord m) = set m" and "distinct (map fst (um_iter ord m))"
proof -
  have s: "set (ord (map fst m)) = fst ` set m" and d: "distinct (ord (map fst m))"
    using assms by (auto simp: order_ok_def)
  have "(k, v) \<in> set m \<longleftrightarrow> k \<in> fst ` set m \<and> map_of m k = Some v" for k v
    using assms(2) by (auto intro: map_of_SomeD rev_image_eqI)
  then show "set (um_iter ord m) = set m"
    unfolding um_iter_def using s assms(2) by (fastforce simp: image_iff)
  show "distinct (map fst (um_iter ord m))"
    using d by (simp add: um_iter_def comp_def)
qed

lemma um_iter_id [simp]: "distinct (map fst m) \<Longrightarrow> um_iter (\<lambda>ks. ks) m = m"
  by (auto simp: um_iter_def intro!: map_idI nth_equalityI)

lemma map_fst_um_assign [cpp_simps]: "map fst (um_assign m k v) = (if k \<in> fst ` set m then map fst m else map fst m @ [k])"
  by (induction m k v rule: um_assign.induct) auto

lemma distinct_um_assign [simp]: "distinct (map fst m) \<Longrightarrow> distinct (map fst (um_assign m k v))"
  by (auto simp: map_fst_um_assign)

lemma takeWhile_until [cpp_simps]: "c \<notin> set xs \<Longrightarrow> takeWhile (\<lambda>d. d \<noteq> c) (xs @ c # ys) = xs"
  by (subst takeWhile_append2) auto

lemma dropWhile_until [cpp_simps]: "c \<notin> set xs \<Longrightarrow> dropWhile (\<lambda>d. d \<noteq> c) (xs @ c # ys) = c # ys"
  by (subst dropWhile_append2) auto

end
