(* ===== verification/Models.thy ===== *)
theory Models
  imports Prelude
begin

text \<open>
  The data model of \<^verbatim>\<open>include/Models.hpp\<close>: one record per struct, fields in the source's
  order (prefixed, since HOL record fields are global names), and the \<open>serialize\<close>,
  \<open>deserialize\<close> and \<open>decode_shard\<close> members. The byte format is MessagePack, written and read by
  the msgpack-c library; it is the parameter \<open>msgpack\<close>, and what the code relies on is
  \<open>msgpack_ok\<close>.
\<close>

section \<open>Structs\<close>

record erasure_spec =
  data_shards :: "32 word"
  parity_shards :: "32 word"
  shard_size :: "64 word"

record object_metadata =
  md_id :: string
  md_size :: "64 word"
  md_checksum :: string
  md_erasure :: erasure_spec
  md_shard_locations :: "string list"
  md_encrypted_dek :: bytes
  md_kek_id :: string
  md_version :: int

record plain_shard =
  ps_index :: "32 word"
  ps_bytes :: bytes

record encrypted_shard =
  es_index :: "32 word"
  es_nonce :: bytes
  es_ciphertext :: bytes

record shard_manifest =
  sm_object_id :: string
  sm_version :: string
  sm_size :: "64 word"
  sm_checksum :: string
  sm_erasure :: erasure_spec
  sm_encrypted_dek :: bytes
  sm_kek_id :: string
  sm_written_at :: "64 word"

record stored_shard =
  ss_manifest :: shard_manifest
  ss_shard :: encrypted_shard

record object_health =
  oh_object_id :: string
  oh_total_shards :: "32 word"
  oh_available_shards :: "32 word"
  oh_required_shards :: "32 word"
  oh_missing_indices :: "32 word list"
  oh_healthy :: bool
  oh_fully_replicated :: bool

definition total_shards :: "erasure_spec \<Rightarrow> nat" where
  "total_shards e = unat (data_shards e) + unat (parity_shards e)"

section \<open>Serialization\<close>

text \<open>
  \<open>pack_x\<close> is \<open>msgpack::pack\<close> on the struct, \<open>unpack_x\<close> is \<open>msgpack::unpack\<close> followed by
  \<open>convert\<close>, \<open>None\<close> when either of them throws.
\<close>

record msgpack =
  pack_spec :: "erasure_spec \<Rightarrow> bytes"
  unpack_spec :: "bytes \<Rightarrow> erasure_spec option"
  pack_enc :: "encrypted_shard \<Rightarrow> bytes"
  unpack_enc :: "bytes \<Rightarrow> encrypted_shard option"
  pack_stored :: "stored_shard \<Rightarrow> bytes"
  unpack_stored :: "bytes \<Rightarrow> stored_shard option"

text \<open>
  What the code relies on: unpacking inverts packing, no packed value is empty, and the array
  \<open>[index, nonce, ciphertext]\<close> of a bare shard does not convert to a \<open>StoredShard\<close>, whose first
  element must itself be an array (a type error of msgpack-c).
\<close>

definition msgpack_ok :: "msgpack \<Rightarrow> bool" where
  "msgpack_ok M \<longleftrightarrow>
     (\<forall>e. pack_spec M e \<noteq> [] \<and> unpack_spec M (pack_spec M e) = Some e) \<and>
     (\<forall>e. pack_enc M e \<noteq> [] \<and> unpack_enc M (pack_enc M e) = Some e) \<and>
     (\<forall>s. pack_stored M s \<noteq> [] \<and> unpack_stored M (pack_stored M s) = Some s) \<and>
     (\<forall>e. unpack_stored M (pack_enc M e) = None)"

definition ErasureSpec_serialize :: "msgpack \<Rightarrow> erasure_spec \<Rightarrow> bytes" where
  "ErasureSpec_serialize M e = pack_spec M e"

definition ErasureSpec_deserialize :: "msgpack \<Rightarrow> bytes \<Rightarrow> erasure_spec res" where
  "ErasureSpec_deserialize M data =
     (if data = [] then Inl (InvalidArgument ''ErasureSpec::deserialize: empty buffer'')
      else case unpack_spec M data of
             None \<Rightarrow> Inl (LibError ''msgpack'')
           | Some e \<Rightarrow> Inr e)"

definition EncryptedShard_serialize :: "msgpack \<Rightarrow> encrypted_shard \<Rightarrow> bytes" where
  "EncryptedShard_serialize M e = pack_enc M e"

definition EncryptedShard_deserialize :: "msgpack \<Rightarrow> bytes \<Rightarrow> encrypted_shard res" where
  "EncryptedShard_deserialize M data =
     (if data = [] then Inl (InvalidArgument ''deserialize: empty buffer'')
      else case unpack_enc M data of
             None \<Rightarrow> Inl (LibError ''msgpack'')
           | Some e \<Rightarrow> Inr e)"

definition StoredShard_serialize :: "msgpack \<Rightarrow> stored_shard \<Rightarrow> bytes" where
  "StoredShard_serialize M s = pack_stored M s"

definition StoredShard_deserialize :: "msgpack \<Rightarrow> bytes \<Rightarrow> stored_shard res" where
  "StoredShard_deserialize M data =
     (if data = [] then Inl (InvalidArgument ''StoredShard::deserialize: empty buffer'')
      else case unpack_stored M data of
             None \<Rightarrow> Inl (LibError ''msgpack'')
           | Some s \<Rightarrow> Inr s)"

text \<open>
  The tolerant decoder: any failure of the envelope falls back to the bare shard written before
  shards carried a manifest.
\<close>

definition decode_shard :: "msgpack \<Rightarrow> bytes \<Rightarrow> (encrypted_shard \<times> shard_manifest option) res" where
  "decode_shard M data =
     (case StoredShard_deserialize M data of
        Inr stored \<Rightarrow> Inr (ss_shard stored, Some (ss_manifest stored))
      | Inl _ \<Rightarrow> (case EncryptedShard_deserialize M data of
                    Inl e \<Rightarrow> Inl e
                  | Inr s \<Rightarrow> Inr (s, None)))"

lemma ErasureSpec_roundtrip [simp]:
  "msgpack_ok M \<Longrightarrow> ErasureSpec_deserialize M (ErasureSpec_serialize M e) = Inr e"
  by (simp add: msgpack_ok_def ErasureSpec_deserialize_def ErasureSpec_serialize_def)

lemma decode_shard_stored [simp]:
  "msgpack_ok M \<Longrightarrow>
   decode_shard M (StoredShard_serialize M s) = Inr (ss_shard s, Some (ss_manifest s))"
  by (simp add: msgpack_ok_def decode_shard_def StoredShard_deserialize_def StoredShard_serialize_def)

lemma decode_shard_legacy [simp]:
  "msgpack_ok M \<Longrightarrow> decode_shard M (EncryptedShard_serialize M e) = Inr (e, None)"
  by (simp add: msgpack_ok_def decode_shard_def StoredShard_deserialize_def
      EncryptedShard_deserialize_def EncryptedShard_serialize_def)

lemma decode_shard_empty [simp]: "decode_shard M [] = Inl (InvalidArgument ''deserialize: empty buffer'')"
  by (simp add: decode_shard_def StoredShard_deserialize_def EncryptedShard_deserialize_def)

end
