(* ===== verification/Erasure_Codec.thy ===== *)
theory Erasure_Codec
  imports Models
begin

text \<open>
  \<^verbatim>\<open>core/ErasureCodec.cpp\<close>: systematic Reed-Solomon coding over GF(2^8). The matrix
  routines are ISA-L's (\<open>gf_gen_rs_matrix\<close>, \<open>gf_invert_matrix\<close>, \<open>ec_init_tables\<close>,
  \<open>ec_encode_data\<close>): the parameter \<open>isal\<close>, with their documented behaviour in \<open>isal_ok\<close>.
  The 32-bit sum \<open>k + m\<close> wraps, as the source's does.
\<close>

section \<open>The ISA-L interface\<close>

record isal =
  gf_mul :: "byte \<Rightarrow> byte \<Rightarrow> byte"
  gf_gen_rs_matrix :: "nat \<Rightarrow> nat \<Rightarrow> bytes"
  gf_invert_matrix :: "bytes \<Rightarrow> nat \<Rightarrow> bytes option"
  ec_init_tables :: "nat \<Rightarrow> nat \<Rightarrow> bytes \<Rightarrow> bytes"
  ec_encode_data :: "nat \<Rightarrow> nat \<Rightarrow> nat \<Rightarrow> bytes \<Rightarrow> bytes list \<Rightarrow> bytes list"

text \<open>Sums in GF(2^8) are exclusive or.\<close>

primrec xsum :: "(nat \<Rightarrow> byte) \<Rightarrow> nat \<Rightarrow> byte" where
  "xsum f 0 = 0"
| "xsum f (Suc n) = xsum f n XOR f n"

definition gf_field_laws :: "isal \<Rightarrow> bool" where
  "gf_field_laws I \<longleftrightarrow>
     (\<forall>a b c. gf_mul I a (b XOR c) = gf_mul I a b XOR gf_mul I a c) \<and>
     (\<forall>a b c. gf_mul I (a XOR b) c = gf_mul I a c XOR gf_mul I b c) \<and>
     (\<forall>a b c. gf_mul I (gf_mul I a b) c = gf_mul I a (gf_mul I b c)) \<and>
     (\<forall>a. gf_mul I 1 a = a)"

text \<open>
  \<open>gf_gen_rs_matrix\<close> has \<open>n\<close> rows of \<open>k\<close> coefficients, the first \<open>k\<close> of them the identity;
  \<open>gf_invert_matrix\<close> returns an inverse or fails; \<open>ec_encode_data\<close> with the tables of \<open>r\<close> rows
  computes, byte by byte, those rows times the source buffers.
\<close>

definition isal_gen_ok :: "isal \<Rightarrow> bool" where
  "isal_gen_ok I \<longleftrightarrow>
     (\<forall>n k. 0 < k \<and> k \<le> n \<and> n \<le> 255 \<longrightarrow>
        length (gf_gen_rs_matrix I n k) = n * k \<and>
        (\<forall>i<k. \<forall>j<k. gf_gen_rs_matrix I n k ! (i * k + j) = (if i = j then 1 else 0)))"

definition isal_invert_ok :: "isal \<Rightarrow> bool" where
  "isal_invert_ok I \<longleftrightarrow>
     (\<forall>A k B. length A = k * k \<and> gf_invert_matrix I A k = Some B \<longrightarrow>
        length B = k * k \<and>
        (\<forall>i<k. \<forall>j<k. xsum (\<lambda>t. gf_mul I (B ! (i * k + t)) (A ! (t * k + j))) k
                      = (if i = j then 1 else 0)))"

definition isal_encode_ok :: "isal \<Rightarrow> bool" where
  "isal_encode_ok I \<longleftrightarrow>
     (\<forall>len k r rows bufs. length rows = r * k \<and> length bufs = k \<and> (\<forall>b\<in>set bufs. length b = len) \<longrightarrow>
        ec_encode_data I len k r (ec_init_tables I k r rows) bufs =
          map (\<lambda>i. map (\<lambda>p. xsum (\<lambda>t. gf_mul I (rows ! (i * k + t)) (bufs ! t ! p)) k) [0..<len]) [0..<r])"

definition isal_ok :: "isal \<Rightarrow> bool" where
  "isal_ok I \<longleftrightarrow> gf_field_laws I \<and> isal_gen_ok I \<and> isal_invert_ok I \<and> isal_encode_ok I"

section \<open>Encoding\<close>

text \<open>Rows \<open>idx\<close> of a matrix with \<open>k\<close> columns (the \<open>memcpy\<close> of \<open>k\<close> bytes per row).\<close>

definition mat_rows :: "bytes \<Rightarrow> nat \<Rightarrow> nat list \<Rightarrow> bytes" where
  "mat_rows M k idx = concat (map (\<lambda>i. take k (drop (i * k) M)) idx)"

text \<open>The loop body that fills data shard \<open>i\<close>, zero-padded to \<open>ss\<close> bytes.\<close>

definition data_shard :: "bytes \<Rightarrow> nat \<Rightarrow> nat \<Rightarrow> bytes" where
  "data_shard data ss i =
     (let offset = i * ss;
          remaining = (if offset < length data then length data - offset else 0);
          copy_len = min ss remaining
      in take copy_len (drop offset data) @ replicate (ss - copy_len) 0)"

definition encode_shards :: "isal \<Rightarrow> bytes \<Rightarrow> nat \<Rightarrow> nat \<Rightarrow> nat \<Rightarrow> plain_shard list" where
  "encode_shards I data k m ss =
     (let n = k + m;
          data_ptrs = map (data_shard data ss) [0..<k];
          encode_matrix = gf_gen_rs_matrix I n k;
          g_tbls = ec_init_tables I k m (drop (k * k) encode_matrix);
          parity = ec_encode_data I ss k m g_tbls data_ptrs
      in map (\<lambda>i. \<lparr>ps_index = word_of_nat i, ps_bytes = (data_ptrs @ parity) ! i\<rparr>) [0..<n])"

definition encode :: "isal \<Rightarrow> bytes \<Rightarrow> erasure_spec \<Rightarrow> plain_shard list res" where
  "encode I data spec =
     (let k = data_shards spec; m = parity_shards spec; n = k + m; ss = shard_size spec in
      if k = 0 then Inl (InvalidArgument ''encode: data_shards must be greater than 0'')
      else if m = 0 then Inl (InvalidArgument ''encode: parity_shards must be greater than 0'')
      else if 255 < n then
        Inl (InvalidArgument ''encode: total shards must be <= 255 for ISA-L GF(2^8)'')
      else if ss = 0 then Inl (InvalidArgument ''encode: shard_size must be greater than 0'')
      else if 2147483647 < ss then
        Inl (InvalidArgument ''encode: shard_size exceeds ISA-L int limit'')
      else if (- 1) div ucast k < ss then
        Inl (InvalidArgument ''encode: total data size overflow'')
      else if unat (ucast k * ss) < length data then
        Inl (InvalidArgument ''encode: data size exceeds data_shards * shard_size'')
      else if n < k then Inl UndefinedBehaviour \<comment> \<open>\<open>shards[i]\<close> with \<open>i\<close> up to \<open>k\<close>, but only \<open>n\<close> shards\<close>
      else Inr (encode_shards I data (unat k) (unat m) (unat ss)))"

section \<open>Decoding\<close>

text \<open>The loop over the given shards: checks, then the first copy of each index wins.\<close>

fun collect_shards :: "32 word \<Rightarrow> 64 word \<Rightarrow> bytes option list \<Rightarrow> plain_shard list \<Rightarrow>
    bytes option list res" where
  "collect_shards n ss shard_ptrs [] = Inr shard_ptrs"
| "collect_shards n ss shard_ptrs (s # rest) =
     (if n \<le> ps_index s then Inl (InvalidArgument ''decode: shard index out of range'')
      else if length (ps_bytes s) \<noteq> unat ss then
        Inl (InvalidArgument ''decode: shard has invalid size'')
      else collect_shards n ss
             (if shard_ptrs ! unat (ps_index s) = None
              then shard_ptrs[unat (ps_index s) := Some (ps_bytes s)] else shard_ptrs) rest)"

text \<open>Any \<open>k\<close> available shards: data shards first, then parity shards.\<close>

definition select_shards :: "bytes option list \<Rightarrow> nat \<Rightarrow> nat \<Rightarrow> nat list" where
  "select_shards ptrs k n =
     take k (filter (\<lambda>i. ptrs ! i \<noteq> None) [0..<k] @ filter (\<lambda>i. ptrs ! i \<noteq> None) [k..<n])"

text \<open>
  The reconstruction: invert the rows of the selected shards, apply the inverse's rows of the
  missing data shards to the selected shards, and put each result in its place.
\<close>

definition recover_data :: "isal \<Rightarrow> bytes option list \<Rightarrow> nat \<Rightarrow> nat \<Rightarrow> nat \<Rightarrow> bytes list res" where
  "recover_data I ptrs k n ss =
     (let decode_index = select_shards ptrs k n in
      if length decode_index < k then
        Inl (RuntimeError ''decode: not enough unique shards available'')
      else
        let encode_matrix = gf_gen_rs_matrix I n k;
            decode_matrix = mat_rows encode_matrix k decode_index
        in case gf_invert_matrix I decode_matrix k of
             None \<Rightarrow> Inl (RuntimeError ''decode: failed to invert decode matrix'')
           | Some invert_matrix \<Rightarrow>
               let available = map (\<lambda>i. the (ptrs ! i)) decode_index;
                   missing = filter (\<lambda>i. ptrs ! i = None) [0..<k];
                   g_tbls = ec_init_tables I k (length missing) (mat_rows invert_matrix k missing);
                   output = (if missing = [] then []
                             else ec_encode_data I ss k (length missing) g_tbls available)
               in Inr (map (\<lambda>i. case ptrs ! i of
                                  Some b \<Rightarrow> b
                                | None \<Rightarrow> the (map_of (zip missing output) i)) [0..<k]))"

definition decode :: "isal \<Rightarrow> plain_shard list \<Rightarrow> erasure_spec \<Rightarrow> nat \<Rightarrow> bytes res" where
  "decode I shards spec original_size =
     (let k = data_shards spec; m = parity_shards spec; n = k + m; ss = shard_size spec in
      if k = 0 then Inl (InvalidArgument ''decode: data_shards must be greater than 0'')
      else if m = 0 then Inl (InvalidArgument ''decode: parity_shards must be greater than 0'')
      else if 255 < n then
        Inl (InvalidArgument ''decode: total shards must be <= 255 for ISA-L GF(2^8)'')
      else if ss = 0 then Inl (InvalidArgument ''decode: shard_size must be greater than 0'')
      else if 9223372036854775807 < ss then
        Inl (InvalidArgument ''decode: shard_size exceeds maximum vector size'')
      else if 2147483647 < ss then
        Inl (InvalidArgument ''decode: shard_size exceeds ISA-L int limit'')
      else if length shards < unat k then
        Inl (RuntimeError ''decode: at least data_shards shards are required'')
      else if (- 1) div ucast k < ss then
        Inl (InvalidArgument ''decode: total decoded size overflow'')
      else if unat (ucast k * ss) < original_size then
        Inl (InvalidArgument ''decode: original_size exceeds decoded data capacity'')
      else case collect_shards n ss (replicate (unat n) None) shards of
             Inl e \<Rightarrow> Inl e
           | Inr ptrs \<Rightarrow>
               if n < k then Inl UndefinedBehaviour \<comment> \<open>\<open>present[i]\<close> past the end\<close>
               else if \<forall>i \<in> set [0..<unat k]. ptrs ! i \<noteq> None then
                 Inr (take original_size (concat (map (\<lambda>i. the (ptrs ! i)) [0..<unat k])))
               else case recover_data I ptrs (unat k) (unat n) (unat ss) of
                      Inl e \<Rightarrow> Inl e
                    | Inr recovered \<Rightarrow> Inr (take original_size (concat recovered)))"

section \<open>Arithmetic of the guards\<close>

definition spec_ok :: "erasure_spec \<Rightarrow> bool" where
  "spec_ok e = (0 < unat (data_shards e) \<and> 0 < unat (parity_shards e) \<and>
     total_shards e \<le> 255 \<and> 0 < unat (shard_size e) \<and> unat (shard_size e) \<le> 2147483647)"

lemma unat_ucast_32_64 [simp]: "unat (ucast (k :: 32 word) :: 64 word) = unat k"
proof -
  have "unat k < 2 ^ LENGTH(32)" by (rule unsigned_less)
  then have "unat k < 2 ^ 64" by simp
  then show ?thesis by (simp add: unsigned_ucast_eq take_bit_nat_eq_self)
qed

lemma no_wrap_iff:
  fixes k m :: "32 word"
  shows "(0 < k \<and> 0 < m \<and> k + m \<le> 255 \<and> k \<le> k + m) \<longleftrightarrow>
    (0 < unat k \<and> 0 < unat m \<and> unat k + unat m \<le> 255)"
  by unat_arith (auto simp: )

lemma unat_sum_small:
  fixes k m :: "32 word"
  shows "unat k + unat m \<le> 255 \<Longrightarrow> unat (k + m) = unat k + unat m"
  by (simp add: unat_word_ariths)

lemma ucast_mult_small:
  fixes k :: "32 word" and ss :: "64 word"
  assumes "unat k \<le> 255" "unat ss \<le> 2147483647"
  shows "unat (ucast k * ss) = unat k * unat ss"
proof -
  have "unat k * unat ss \<le> 255 * 2147483647" using assms by (rule mult_le_mono)
  then have "unat k * unat ss < 2 ^ 64" by simp
  moreover have "unat (ucast k :: 64 word) = unat k"
    by simp
  ultimately show ?thesis by (simp add: unat_word_ariths)
qed

lemma div_guard_small:
  fixes k :: "32 word" and ss :: "64 word"
  assumes "0 < unat k" "unat k \<le> 255" "unat ss \<le> 2147483647"
  shows "\<not> (- 1) div ucast k < ss"
proof -
  have u: "unat (ucast k :: 64 word) = unat k"
    by simp
  have "2147483647 \<le> (18446744073709551615::nat) div 255" by simp
  also have "\<dots> \<le> 18446744073709551615 div unat k" using assms by (intro div_le_mono2) auto
  finally have "unat ss \<le> 18446744073709551615 div unat k" using assms by simp
  then show ?thesis by (simp add: word_less_nat_alt unat_div_distrib u unsigned_minus_1_eq_mask mask_eq_exp_minus_1 not_less)
qed

lemma encode_Inr_iff:
  "encode I data spec = Inr shards \<longleftrightarrow>
     spec_ok spec \<and> length data \<le> unat (data_shards spec) * unat (shard_size spec) \<and>
     shards = encode_shards I data (unat (data_shards spec)) (unat (parity_shards spec))
                (unat (shard_size spec))"
proof -
  let ?k = "data_shards spec" and ?m = "parity_shards spec" and ?s = "shard_size spec"
  have pos: "?k = 0 \<longleftrightarrow> \<not> 0 < unat ?k" "?m = 0 \<longleftrightarrow> \<not> 0 < unat ?m" "?s = 0 \<longleftrightarrow> \<not> 0 < unat ?s"
    by (simp_all add: unat_eq_zero)
  have sz: "2147483647 < ?s \<longleftrightarrow> \<not> unat ?s \<le> 2147483647"
    by (simp add: word_less_nat_alt not_le)
  have sum: "?k \<noteq> 0 \<and> ?m \<noteq> 0 \<and> \<not> 255 < ?k + ?m \<and> \<not> ?k + ?m < ?k \<longleftrightarrow>
      0 < unat ?k \<and> 0 < unat ?m \<and> total_shards spec \<le> 255"
    using no_wrap_iff [of ?k ?m] by (auto simp: total_shards_def not_less word_gt_0 unat_gt_0)
  show ?thesis
  proof (cases "spec_ok spec")
    case True
    then have small: "unat ?k \<le> 255" "unat ?s \<le> 2147483647" "0 < unat ?k"
      by (auto simp: spec_ok_def total_shards_def)
    have "encode I data spec =
       (if unat ?k * unat ?s < length data then
          Inl (InvalidArgument ''encode: data size exceeds data_shards * shard_size'')
        else Inr (encode_shards I data (unat ?k) (unat ?m) (unat ?s)))"
      using True sum pos sz div_guard_small [OF small(3,1,2)] ucast_mult_small [OF small(1,2)]
      unfolding encode_def Let_def spec_ok_def by auto
    with True show ?thesis by auto
  next
    case False
    then have "\<not> (0 < unat ?k \<and> 0 < unat ?m \<and> total_shards spec \<le> 255) \<or> ?s = 0 \<or> 2147483647 < ?s"
      using sz pos by (auto simp: spec_ok_def)
    then have "isl (encode I data spec)"
      unfolding encode_def Let_def using sum by auto
    with False show ?thesis by auto
  qed
qed

lemma encode_spec_ok:
  "spec_ok spec \<Longrightarrow> length data \<le> unat (data_shards spec) * unat (shard_size spec) \<Longrightarrow>
   encode I data spec = Inr (encode_shards I data (unat (data_shards spec))
     (unat (parity_shards spec)) (unat (shard_size spec)))"
  by (simp add: encode_Inr_iff)

lemma decode_spec_ok:
  assumes "spec_ok spec"
  shows "decode I shards spec osz =
    (if length shards < unat (data_shards spec) then
       Inl (RuntimeError ''decode: at least data_shards shards are required'')
     else if unat (data_shards spec) * unat (shard_size spec) < osz then
       Inl (InvalidArgument ''decode: original_size exceeds decoded data capacity'')
     else case collect_shards (data_shards spec + parity_shards spec) (shard_size spec)
                 (replicate (total_shards spec) None) shards of
        Inl e \<Rightarrow> Inl e
      | Inr ptrs \<Rightarrow>
          if \<forall>i \<in> set [0..<unat (data_shards spec)]. ptrs ! i \<noteq> None then
            Inr (take osz (concat (map (\<lambda>i. the (ptrs ! i)) [0..<unat (data_shards spec)])))
          else case recover_data I ptrs (unat (data_shards spec)) (total_shards spec)
                      (unat (shard_size spec)) of
                 Inl e \<Rightarrow> Inl e
               | Inr recovered \<Rightarrow> Inr (take osz (concat recovered)))"
proof -
  let ?k = "data_shards spec" and ?m = "parity_shards spec" and ?s = "shard_size spec"
  have small: "0 < unat ?k" "0 < unat ?m" "unat ?k \<le> 255" "unat ?s \<le> 2147483647" "0 < unat ?s"
    "unat ?k + unat ?m \<le> 255"
    using assms by (auto simp: spec_ok_def total_shards_def)
  have sum: "unat (?k + ?m) = total_shards spec"
    using small(6) by (simp add: unat_sum_small total_shards_def)
  have g: "\<not> 255 < ?k + ?m" "\<not> ?k + ?m < ?k"
    using small sum by (auto simp: word_less_nat_alt total_shards_def)
  have z: "?k \<noteq> 0" "?m \<noteq> 0" "?s \<noteq> 0" using small by (auto simp: unat_eq_zero)
  have sz: "\<not> 9223372036854775807 < ?s" "\<not> 2147483647 < ?s"
    using small by (auto simp: word_less_nat_alt)
  show ?thesis
    unfolding decode_def Let_def
    using g z sz sum div_guard_small [OF small(1,3,4)] ucast_mult_small [OF small(3,4)]
    by (simp cong: sum.case_cong if_cong)
qed

section \<open>Sums in GF(2^8)\<close>

lemma xsum_cong: "(\<And>t. t < n \<Longrightarrow> f t = g t) \<Longrightarrow> xsum f n = xsum g n"
  by (induction n) auto

lemma xsum_zero: "(\<And>t. t < n \<Longrightarrow> f t = 0) \<Longrightarrow> xsum f n = 0"
  by (induction n) auto

lemma xsum_xor: "xsum (\<lambda>t. f t XOR g t) n = xsum f n XOR xsum g n"
  by (induction n) (auto simp: ac_simps xor.left_commute)

lemma xsum_swap: "xsum (\<lambda>i. xsum (\<lambda>j. f i j) m) n = xsum (\<lambda>j. xsum (\<lambda>i. f i j) n) m"
  by (induction n) (auto simp: xsum_zero xsum_xor)

lemma xsum_delta: "r < n \<Longrightarrow> xsum (\<lambda>t. if r = t then f t else 0) n = f r"
proof (induction n)
  case (Suc n)
  show ?case
  proof (cases "r = n")
    case True
    then have "xsum (\<lambda>t. if r = t then f t else 0) n = 0" by (intro xsum_zero) auto
    with True show ?thesis by simp
  next
    case False
    with Suc show ?thesis by simp
  qed
qed simp

lemma gf_mul_zero:
  assumes "gf_field_laws I"
  shows "gf_mul I 0 a = 0" and "gf_mul I a 0 = 0"
proof -
  have "gf_mul I (0 XOR 0) a = gf_mul I 0 a XOR gf_mul I 0 a"
    and "gf_mul I a (0 XOR 0) = gf_mul I a 0 XOR gf_mul I a 0"
    using assms unfolding gf_field_laws_def by blast+
  then show "gf_mul I 0 a = 0" and "gf_mul I a 0 = 0" by simp_all
qed

lemma gf_mul_xsum:
  assumes "gf_field_laws I"
  shows "gf_mul I a (xsum f n) = xsum (\<lambda>t. gf_mul I a (f t)) n"
    and "gf_mul I (xsum f n) a = xsum (\<lambda>t. gf_mul I (f t) a) n"
  using assms by (induction n) (auto simp: gf_mul_zero gf_field_laws_def)

section \<open>Code words\<close>

text \<open>
  Row \<open>i\<close> of the generator matrix applied to the data buffers \<open>D\<close>: what shard \<open>i\<close> holds.
\<close>

definition codeword :: "isal \<Rightarrow> nat \<Rightarrow> nat \<Rightarrow> bytes list \<Rightarrow> nat \<Rightarrow> nat \<Rightarrow> bytes" where
  "codeword I n k D ss i =
     map (\<lambda>p. xsum (\<lambda>t. gf_mul I (gf_gen_rs_matrix I n k ! (i * k + t)) (D ! t ! p)) k) [0..<ss]"

lemma length_codeword [simp]: "length (codeword I n k D ss i) = ss"
  by (simp add: codeword_def)

lemma isal_ok_field: "isal_ok I \<Longrightarrow> gf_field_laws I"
  by (simp add: isal_ok_def)

lemma isal_ok_gen:
  assumes "isal_ok I" "0 < k" "k \<le> n" "n \<le> 255"
  shows "length (gf_gen_rs_matrix I n k) = n * k"
    and "i < k \<Longrightarrow> j < k \<Longrightarrow> gf_gen_rs_matrix I n k ! (i * k + j) = (if i = j then 1 else 0)"
  using assms by (simp_all add: isal_ok_def isal_gen_ok_def)

lemma isal_ok_invert:
  assumes "isal_ok I" and "length A = k * k" and "gf_invert_matrix I A k = Some B"
  shows "length B = k * k"
    and "i < k \<Longrightarrow> j < k \<Longrightarrow>
           xsum (\<lambda>t. gf_mul I (B ! (i * k + t)) (A ! (t * k + j))) k = (if i = j then 1 else 0)"
  using assms unfolding isal_ok_def isal_invert_ok_def by blast+

lemma isal_ok_encode:
  assumes "isal_ok I" and "length rows = r * k" and "length bufs = k"
    and "\<And>b. b \<in> set bufs \<Longrightarrow> length b = len"
  shows "ec_encode_data I len k r (ec_init_tables I k r rows) bufs =
     map (\<lambda>i. map (\<lambda>p. xsum (\<lambda>t. gf_mul I (rows ! (i * k + t)) (bufs ! t ! p)) k) [0..<len]) [0..<r]"
  using assms unfolding isal_ok_def isal_encode_ok_def by blast

lemma codeword_data:
  assumes I: "isal_ok I" and nk: "0 < k" "k \<le> n" "n \<le> 255"
    and D: "\<And>b. b \<in> set D \<Longrightarrow> length b = ss" "length D = k" and i: "i < k"
  shows "codeword I n k D ss i = D ! i"
proof (rule nth_equalityI)
  have F: "gf_field_laws I" using I by (rule isal_ok_field)
  show "length (codeword I n k D ss i) = length (D ! i)" using D i by simp
  fix p assume "p < length (codeword I n k D ss i)"
  then have p: "p < ss" by simp
  have "xsum (\<lambda>t. gf_mul I (gf_gen_rs_matrix I n k ! (i * k + t)) (D ! t ! p)) k
      = xsum (\<lambda>t. if i = t then D ! t ! p else 0) k"
    using F i by (intro xsum_cong) (simp add: isal_ok_gen(2) [OF I nk] gf_mul_zero gf_field_laws_def)
  then show "codeword I n k D ss i ! p = D ! i ! p"
    using p i by (simp add: codeword_def xsum_delta)
qed

lemma length_data_shard [simp]: "length (data_shard data ss i) = ss"
  by (auto simp: data_shard_def Let_def)

lemma concat_data_shards:
  assumes "length data \<le> k * ss"
  shows "concat (map (data_shard data ss) [0..<k]) = data @ replicate (k * ss - length data) 0"
proof (rule list_eq_by_blocks)
  let ?xs = "map (data_shard data ss) [0..<k]"
  have len: "length x = ss" if "x \<in> set ?xs" for x using that by auto
  show "length (concat ?xs) = k * ss" using length_concat_blocks [of ?xs ss, OF len] by simp
  show "length (data @ replicate (k * ss - length data) 0) = k * ss" using assms by simp
  fix t j assume tj: "t < k" "j < ss"
  then have "t * ss + j < k * ss" by (rule block_index_bound)
  moreover have "concat ?xs ! (t * ss + j) = data_shard data ss t ! j"
    using nth_concat_blocks [of ?xs ss t j, OF len] tj by simp
  ultimately show "concat ?xs ! (t * ss + j) = (data @ replicate (k * ss - length data) 0) ! (t * ss + j)"
    using tj by (auto simp: data_shard_def Let_def nth_append min_def)
qed

lemma encode_shards_codewords:
  assumes I: "isal_ok I" and km: "0 < k" "k + m \<le> 255"
  shows "encode_shards I data k m ss =
    map (\<lambda>i. \<lparr>ps_index = word_of_nat i,
              ps_bytes = codeword I (k + m) k (map (data_shard data ss) [0..<k]) ss i\<rparr>) [0..<k + m]"
proof -
  let ?D = "map (data_shard data ss) [0..<k]" and ?G = "gf_gen_rs_matrix I (k + m) k"
  let ?par = "ec_encode_data I ss k m (ec_init_tables I k m (drop (k * k) ?G)) ?D"
  have D: "\<And>b. b \<in> set ?D \<Longrightarrow> length b = ss" "length ?D = k" by auto
  have G: "length ?G = (k + m) * k" using km by (simp add: isal_ok_gen(1) [OF I])
  have "length (drop (k * k) ?G) = m * k" using G by (simp add: algebra_simps)
  then have par: "?par = map (\<lambda>i. map (\<lambda>p. xsum (\<lambda>t. gf_mul I (drop (k * k) ?G ! (i * k + t))
      (?D ! t ! p)) k) [0..<ss]) [0..<m]"
    using D by (intro isal_ok_encode [OF I]) auto
  have "(?D @ ?par) ! i = codeword I (k + m) k ?D ss i" if i: "i < k + m" for i
  proof (cases "i < k")
    case True
    then have "(?D @ ?par) ! i = ?D ! i" by (simp add: nth_append)
    also have "\<dots> = codeword I (k + m) k ?D ss i"
      using codeword_data [OF I _ _ _ D True] km by simp
    finally show ?thesis .
  next
    case False
    then have im: "i - k < m" and "k * k + (i - k) * k = i * k"
      using i by (auto simp: algebra_simps diff_mult_distrib)
    then have "drop (k * k) ?G ! ((i - k) * k + t) = ?G ! (i * k + t)" for t
      using G by (subst nth_drop) (auto simp: add.assoc [symmetric] algebra_simps)
    then show ?thesis using False im unfolding par codeword_def
      by (simp add: nth_append)
  qed
  then show ?thesis by (simp add: encode_shards_def Let_def)
qed

section \<open>Reconstruction\<close>

lemma length_row_block: "Suc i * k \<le> length M \<Longrightarrow> length (take k (drop (i * k) M)) = k"
  by (auto simp: min_def)

lemma row_blocks:
  assumes "\<And>i. i \<in> set idx \<Longrightarrow> Suc i * k \<le> length M"
    and "x \<in> set (map (\<lambda>i. take k (drop (i * k) M)) idx)"
  shows "length x = k"
proof -
  from assms(2) obtain i where "i \<in> set idx" and x: "x = take k (drop (i * k) M)" by auto
  with assms(1) show ?thesis unfolding x by (intro length_row_block)
qed

lemma length_mat_rows:
  "(\<And>i. i \<in> set idx \<Longrightarrow> Suc i * k \<le> length M) \<Longrightarrow> length (mat_rows M k idx) = length idx * k"
  unfolding mat_rows_def by (subst length_concat_blocks [OF row_blocks [of idx k M]]) auto

lemma nth_mat_rows:
  assumes "\<And>i. i \<in> set idx \<Longrightarrow> Suc i * k \<le> length M" and "t < length idx" "j < k"
  shows "mat_rows M k idx ! (t * k + j) = M ! (idx ! t * k + j)"
proof -
  have "mat_rows M k idx ! (t * k + j) = map (\<lambda>i. take k (drop (i * k) M)) idx ! t ! j"
    unfolding mat_rows_def
    by (rule nth_concat_blocks [OF row_blocks]) (use assms in auto)
  then show ?thesis using assms nth_take_drop_block [of "idx ! t" k M j] by simp
qed

lemma gf_recover_row:
  assumes I: "isal_ok I" and nk: "0 < k" "k \<le> n" "n \<le> 255"
    and idx: "length idx = k" "set idx \<subseteq> {..<n}"
    and inv: "gf_invert_matrix I (mat_rows (gf_gen_rs_matrix I n k) k idx) k = Some B"
    and r: "r < k" and p: "p < ss"
  shows "xsum (\<lambda>t. gf_mul I (B ! (r * k + t)) (codeword I n k D ss (idx ! t) ! p)) k = D ! r ! p"
proof -
  let ?G = "gf_gen_rs_matrix I n k" let ?A = "mat_rows ?G k idx"
  have F: "gf_field_laws I" using I by (rule isal_ok_field)
  have rows: "Suc i * k \<le> length ?G" if "i \<in> set idx" for i
  proof -
    have "Suc i \<le> n" using that idx by auto
    then have "Suc i * k \<le> n * k" by (rule mult_le_mono1)
    then show ?thesis using isal_ok_gen(1) [OF I nk] by simp
  qed
  then have A: "length ?A = k * k" using idx by (simp add: length_mat_rows)
  have At: "?A ! (t * k + j) = ?G ! (idx ! t * k + j)" if "t < k" "j < k" for t j
    using nth_mat_rows rows idx that by simp
  have "xsum (\<lambda>t. gf_mul I (B ! (r * k + t)) (codeword I n k D ss (idx ! t) ! p)) k
      = xsum (\<lambda>t. xsum (\<lambda>j. gf_mul I (gf_mul I (B ! (r * k + t)) (?A ! (t * k + j))) (D ! j ! p)) k) k"
    using F p by (intro xsum_cong)
      (simp add: codeword_def gf_mul_xsum At gf_field_laws_def cong: xsum_cong)
  also have "\<dots> = xsum (\<lambda>j. gf_mul I (xsum (\<lambda>t. gf_mul I (B ! (r * k + t)) (?A ! (t * k + j))) k) (D ! j ! p)) k"
    by (subst xsum_swap) (simp add: gf_mul_xsum [OF F])
  also have "\<dots> = xsum (\<lambda>j. if r = j then D ! j ! p else 0) k"
    using F r by (intro xsum_cong) (simp add: isal_ok_invert(2) [OF I A inv] gf_mul_zero gf_field_laws_def)
  also have "\<dots> = D ! r ! p" using r by (simp add: xsum_delta)
  finally show ?thesis .
qed

section \<open>Decoding genuine shards\<close>

text \<open>
  Shards that carry a code word each: what \<open>collect_shards\<close> makes of them, whatever their order
  and however often one is repeated.
\<close>

lemma collect_genuine:
  assumes "\<forall>s\<in>set surv. unat (ps_index s) < unat n \<and> ps_bytes s = cw (unat (ps_index s))"
    and "\<And>i. length (cw i) = unat ss" and "length ptrs = unat n"
  shows "collect_shards n ss ptrs surv =
    Inr (map (\<lambda>i. if ptrs ! i \<noteq> None then ptrs ! i
                  else if i \<in> (\<lambda>s. unat (ps_index s)) ` set surv then Some (cw i) else None) [0..<unat n])"
  using assms(1,3)
proof (induction surv arbitrary: ptrs)
  case Nil
  then show ?case by (auto intro: nth_equalityI)
next
  case (Cons s surv)
  let ?j = "unat (ps_index s)"
  have j: "?j < unat n" "ps_bytes s = cw ?j" using Cons.prems(1) by auto
  then have guards: "\<not> n \<le> ps_index s" "length (ps_bytes s) = unat ss"
    using assms(2) by (auto simp: word_le_nat_alt)
  define ptrs' where "ptrs' = (if ptrs ! ?j = None then ptrs[?j := Some (ps_bytes s)] else ptrs)"
  have len: "length ptrs' = unat n" using Cons.prems(2) by (simp add: ptrs'_def)
  have nth: "ptrs' ! i = (if i = ?j \<and> ptrs ! ?j = None then Some (cw i) else ptrs ! i)"
    if "i < unat n" for i
    using that j Cons.prems(2) by (auto simp: ptrs'_def nth_list_update)
  have "collect_shards n ss ptrs (s # surv) = collect_shards n ss ptrs' surv"
    using guards by (simp add: ptrs'_def)
  also have "\<dots> = Inr (map (\<lambda>i. if ptrs' ! i \<noteq> None then ptrs' ! i
      else if i \<in> (\<lambda>s. unat (ps_index s)) ` set surv then Some (cw i) else None) [0..<unat n])"
    using Cons.IH [OF _ len] Cons.prems(1) by simp
  also have "\<dots> = Inr (map (\<lambda>i. if ptrs ! i \<noteq> None then ptrs ! i
      else if i \<in> (\<lambda>s. unat (ps_index s)) ` set (s # surv) then Some (cw i) else None) [0..<unat n])"
    by (auto simp: nth)
  finally show ?case .
qed

definition present_at :: "nat \<Rightarrow> nat set \<Rightarrow> (nat \<Rightarrow> bytes) \<Rightarrow> bytes option list" where
  "present_at n S cw = map (\<lambda>i. if i \<in> S then Some (cw i) else None) [0..<n]"

lemma nth_present_at [simp]:
  "i < n \<Longrightarrow> present_at n S cw ! i = (if i \<in> S then Some (cw i) else None)"
  by (simp add: present_at_def)

lemma select_shards_present:
  assumes "k \<le> n"
  shows "select_shards (present_at n S cw) k n = take k (filter (\<lambda>i. i \<in> S) [0..<n])"
proof -
  have "filter (\<lambda>i. present_at n S cw ! i \<noteq> None) xs = filter (\<lambda>i. i \<in> S) xs"
    if "set xs \<subseteq> {..<n}" for xs
  proof (intro filter_cong refl)
    fix x assume "x \<in> set xs"
    then have "x < n" using that by auto
    then show "(present_at n S cw ! x \<noteq> None) = (x \<in> S)" by simp
  qed
  moreover have "[0..<n] = [0..<k] @ [k..<n]"
    using assms upt_add_eq_append [of 0 k "n - k"] by simp
  moreover have "set [0..<k] \<subseteq> {..<n}" "set [k..<n] \<subseteq> {..<n}" using assms by auto
  ultimately show ?thesis by (simp add: select_shards_def)
qed

lemma length_filter_upt: "S \<subseteq> {..<n} \<Longrightarrow> length (filter (\<lambda>i. i \<in> S) [0..<n]) = card S"
proof -
  assume S: "S \<subseteq> {..<n}"
  have "length (filter (\<lambda>i. i \<in> S) [0..<n]) = card (set (filter (\<lambda>i. i \<in> S) [0..<n]))"
    by (rule distinct_card [symmetric]) simp
  also have "set (filter (\<lambda>i. i \<in> S) [0..<n]) = S" using S by auto
  finally show ?thesis .
qed

text \<open>
  The square submatrices the decoder may have to invert are invertible. ISA-L guarantees this
  for the parameter pairs its documentation lists, not for every \<open>n \<le> 255\<close>.
\<close>

definition isal_invertible :: "isal \<Rightarrow> nat \<Rightarrow> nat \<Rightarrow> bool" where
  "isal_invertible I n k \<longleftrightarrow>
     (\<forall>idx. sorted idx \<and> distinct idx \<and> length idx = k \<and> set idx \<subseteq> {..<n} \<longrightarrow>
        gf_invert_matrix I (mat_rows (gf_gen_rs_matrix I n k) k idx) k \<noteq> None)"

lemma gen_rows_fit:
  assumes "isal_ok I" "0 < k" "k \<le> n" "n \<le> 255" "i < n"
  shows "Suc i * k \<le> length (gf_gen_rs_matrix I n k)"
proof -
  have "Suc i * k \<le> n * k" using assms(5) by (intro mult_le_mono1) simp
  then show ?thesis using isal_ok_gen(1) [OF assms(1-4)] by simp
qed

lemma square_rows_fit: "length B = k * k \<Longrightarrow> r < k \<Longrightarrow> Suc r * k \<le> length B"
proof -
  assume "length B = k * k" "r < k"
  then have "Suc r * k \<le> k * k" by (intro mult_le_mono1) simp
  then show ?thesis using \<open>length B = k * k\<close> by simp
qed

text \<open>
  The one ISA-L call of the slow path rebuilds exactly the missing data shards.\<close>

lemma rebuild_missing:
  assumes I: "isal_ok I" and nk: "0 < k" "k \<le> n" "n \<le> 255"
    and D: "\<And>b. b \<in> set D \<Longrightarrow> length b = ss" "length D = k"
    and idx: "length idx = k" "set idx \<subseteq> {..<n}"
    and B: "gf_invert_matrix I (mat_rows (gf_gen_rs_matrix I n k) k idx) k = Some B"
    and missing: "set missing \<subseteq> {..<k}"
  shows "ec_encode_data I ss k (length missing)
      (ec_init_tables I k (length missing) (mat_rows B k missing)) (map (codeword I n k D ss) idx)
    = map (\<lambda>r. D ! r) missing" (is "?out = _")
proof -
  have "length (mat_rows (gf_gen_rs_matrix I n k) k idx) = k * k"
    using gen_rows_fit [OF I nk] idx by (subst length_mat_rows) auto
  then have Blen: "length B = k * k" using B by (rule isal_ok_invert(1) [OF I])
  have mrow: "Suc r * k \<le> length B" if "r \<in> set missing" for r
    using that missing square_rows_fit [OF Blen] by auto
  have "length (mat_rows B k missing) = length missing * k" using mrow by (rule length_mat_rows)
  then have out: "?out = map (\<lambda>i. map (\<lambda>p. xsum (\<lambda>t. gf_mul I (mat_rows B k missing ! (i * k + t))
      (map (codeword I n k D ss) idx ! t ! p)) k) [0..<ss]) [0..<length missing]"
    using idx by (intro isal_ok_encode [OF I]) auto
  show ?thesis
  proof (rule nth_equalityI)
    show "length ?out = length (map (\<lambda>r. D ! r) missing)" by (simp add: out)
    fix i assume "i < length ?out"
    then have i: "i < length missing" by (simp add: out)
    then have r: "missing ! i < k" using subsetD [OF missing nth_mem] by simp
    have len: "length (D ! (missing ! i)) = ss" using r D by simp
    have "?out ! i = map (\<lambda>p. xsum (\<lambda>t. gf_mul I (mat_rows B k missing ! (i * k + t))
        (map (codeword I n k D ss) idx ! t ! p)) k) [0..<ss]"
      using i by (simp only: out) simp
    also have "\<dots> = map (\<lambda>p. D ! (missing ! i) ! p) [0..<ss]"
    proof (rule map_cong [OF refl])
      fix p assume "p \<in> set [0..<ss]"
      then have p: "p < ss" by simp
      have "xsum (\<lambda>t. gf_mul I (mat_rows B k missing ! (i * k + t))
          (map (codeword I n k D ss) idx ! t ! p)) k
        = xsum (\<lambda>t. gf_mul I (B ! (missing ! i * k + t)) (codeword I n k D ss (idx ! t) ! p)) k"
        using i idx by (intro xsum_cong) (simp add: nth_mat_rows [OF mrow])
      then show "xsum (\<lambda>t. gf_mul I (mat_rows B k missing ! (i * k + t))
          (map (codeword I n k D ss) idx ! t ! p)) k = D ! (missing ! i) ! p"
        using gf_recover_row [OF I nk idx B r p, of D] by simp
    qed
    also have "\<dots> = D ! (missing ! i)" using len map_nth [of "D ! (missing ! i)"] by simp
    finally show "?out ! i = map (\<lambda>r. D ! r) missing ! i" using i by simp
  qed
qed

lemma recover_data_inverse:
  assumes I: "isal_ok I" and nk: "0 < k" "k \<le> n" "n \<le> 255"
    and D: "\<And>b. b \<in> set D \<Longrightarrow> length b = ss" "length D = k"
    and S: "S \<subseteq> {..<n}" "k \<le> card S"
    and inv: "gf_invert_matrix I (mat_rows (gf_gen_rs_matrix I n k) k (take k (filter (\<lambda>i. i \<in> S) [0..<n]))) k = Some B"
  shows "recover_data I (present_at n S (codeword I n k D ss)) k n ss = Inr D"
proof -
  let ?ptrs = "present_at n S (codeword I n k D ss)"
  define idx where "idx = take k (filter (\<lambda>i. i \<in> S) [0..<n])"
  have sel: "select_shards ?ptrs k n = idx"
    using nk by (simp add: select_shards_present idx_def)
  have len: "length idx = k" using S by (simp add: idx_def length_filter_upt)
  have sub: "set idx \<subseteq> S" "set idx \<subseteq> {..<n}"
    unfolding idx_def using set_take_subset [of k "filter (\<lambda>i. i \<in> S) [0..<n]"] by auto
  have B: "gf_invert_matrix I (mat_rows (gf_gen_rs_matrix I n k) k idx) k = Some B"
    using inv by (simp add: idx_def)
  have avail: "map (\<lambda>i. the (?ptrs ! i)) idx = map (codeword I n k D ss) idx"
  proof (intro map_cong refl)
    fix i assume "i \<in> set idx"
    then have "i < n" "i \<in> S" using sub by auto
    then show "the (?ptrs ! i) = codeword I n k D ss i" by simp
  qed
  define missing where "missing = filter (\<lambda>i. ?ptrs ! i = None) [0..<k]"
  have missing: "set missing \<subseteq> {..<k}" by (auto simp: missing_def)
  have data: "(case ?ptrs ! i of Some b \<Rightarrow> b
      | None \<Rightarrow> the (map_of (zip missing (map (\<lambda>r. D ! r) missing)) i)) = D ! i" if i: "i < k" for i
    using i nk codeword_data [OF I nk D i] by (simp add: missing_def map_of_zip_map)
  have "map (\<lambda>i. case ?ptrs ! i of Some b \<Rightarrow> b
      | None \<Rightarrow> the (map_of (zip missing (map (\<lambda>r. D ! r) missing)) i)) [0..<k] = map ((!) D) [0..<k]"
    by (rule map_cong [OF refl]) (rule data, simp)
  also have "\<dots> = D" using D(2) map_nth [of D] by simp
  finally have result: "map (\<lambda>i. case ?ptrs ! i of Some b \<Rightarrow> b
      | None \<Rightarrow> the (map_of (zip missing (map (\<lambda>r. D ! r) missing)) i)) [0..<k] = D" .
  have out: "(if missing = [] then [] else ec_encode_data I ss k (length missing)
      (ec_init_tables I k (length missing) (mat_rows B k missing)) (map (codeword I n k D ss) idx))
    = map (\<lambda>r. D ! r) missing"
    using rebuild_missing [OF I nk D len sub(2) B missing] by simp
  have "recover_data I ?ptrs k n ss = (if length idx < k then
      Inl (RuntimeError ''decode: not enough unique shards available'') else Inr D)"
    unfolding recover_data_def Let_def sel B option.case missing_def [symmetric] avail out result ..
  then show ?thesis using len by simp
qed

text \<open>
  So reconstruction gives back the data, or an error; never other data.\<close>

lemma recover_data_genuine:
  assumes I: "isal_ok I" and nk: "0 < k" "k \<le> n" "n \<le> 255"
    and D: "\<And>b. b \<in> set D \<Longrightarrow> length b = ss" "length D = k"
    and S: "S \<subseteq> {..<n}" "k \<le> card S" and inv: "isal_invertible I n k"
  shows "recover_data I (present_at n S (codeword I n k D ss)) k n ss = Inr D"
proof -
  define idx where "idx = take k (filter (\<lambda>i. i \<in> S) [0..<n])"
  have len: "length idx = k" using S by (simp add: idx_def length_filter_upt)
  have sub: "set idx \<subseteq> {..<n}"
    unfolding idx_def using set_take_subset [of k "filter (\<lambda>i. i \<in> S) [0..<n]"] by auto
  have "sorted idx" "distinct idx" unfolding idx_def
    by (simp_all add: sorted_wrt_take sorted_wrt_filter)
  then obtain B where B: "gf_invert_matrix I (mat_rows (gf_gen_rs_matrix I n k) k idx) k = Some B"
    using inv len sub unfolding isal_invertible_def by blast
  show ?thesis by (rule recover_data_inverse [OF I nk D S B [unfolded idx_def]])
qed

lemma recover_data_sound:
  assumes I: "isal_ok I" and nk: "0 < k" "k \<le> n" "n \<le> 255"
    and D: "\<And>b. b \<in> set D \<Longrightarrow> length b = ss" "length D = k" and S: "S \<subseteq> {..<n}"
    and r: "recover_data I (present_at n S (codeword I n k D ss)) k n ss = Inr d"
  shows "d = D"
proof -
  let ?ptrs = "present_at n S (codeword I n k D ss)"
  have sel: "select_shards ?ptrs k n = take k (filter (\<lambda>i. i \<in> S) [0..<n])"
    using nk by (simp add: select_shards_present)
  have l: "k \<le> card S"
  proof (rule ccontr)
    assume "\<not> k \<le> card S"
    then have "length (select_shards ?ptrs k n) < k" using S by (simp add: sel length_filter_upt)
    then show False using r by (simp add: recover_data_def)
  qed
  show ?thesis
  proof (cases "gf_invert_matrix I (mat_rows (gf_gen_rs_matrix I n k) k (take k (filter (\<lambda>i. i \<in> S) [0..<n]))) k")
    case None
    then show ?thesis using r by (simp add: recover_data_def sel Let_def split: if_splits)
  next
    case (Some B)
    from recover_data_inverse [OF I nk D S l Some] r show ?thesis by simp
  qed
qed

section \<open>Properties\<close>

lemma encode_shape_shards:
  assumes "isal_ok I" and "encode I data spec = Inr shards"
  shows "spec_ok spec"
    and "length data \<le> unat (data_shards spec) * unat (shard_size spec)"
    and "shards = map (\<lambda>i. \<lparr>ps_index = word_of_nat i,
      ps_bytes = codeword I (total_shards spec) (unat (data_shards spec))
        (map (data_shard data (unat (shard_size spec))) [0..<unat (data_shards spec)])
        (unat (shard_size spec)) i\<rparr>) [0..<total_shards spec]"
  using assms by (auto simp: encode_Inr_iff spec_ok_def total_shards_def
      encode_shards_codewords [OF assms(1)])

lemma unat_of_small: "i < 256 \<Longrightarrow> unat (word_of_nat i :: 32 word) = i"
  by (simp add: unsigned_of_nat take_bit_nat_eq_self)

lemma survivors_present:
  assumes I: "isal_ok I" and enc: "encode I data spec = Inr shards" and sub: "set surv \<subseteq> set shards"
  defines "cw \<equiv> codeword I (total_shards spec) (unat (data_shards spec))
        (map (data_shard data (unat (shard_size spec))) [0..<unat (data_shards spec)])
        (unat (shard_size spec))"
    and "S \<equiv> (\<lambda>s. unat (ps_index s)) ` set surv"
  shows "collect_shards (data_shards spec + parity_shards spec) (shard_size spec)
      (replicate (total_shards spec) None) surv = Inr (present_at (total_shards spec) S cw)"
    and "S \<subseteq> {..<total_shards spec}" and "card S = card (ps_index ` set surv)"
    and "card S \<le> length surv"
proof -
  note sh = encode_shape_shards [OF I enc]
  have n: "unat (data_shards spec + parity_shards spec) = total_shards spec" "total_shards spec \<le> 255"
    using sh(1) by (auto simp: spec_ok_def total_shards_def unat_sum_small)
  have gen: "\<forall>s\<in>set surv. unat (ps_index s) < total_shards spec \<and> ps_bytes s = cw (unat (ps_index s))"
    using sub n(2) unfolding sh(3) cw_def by (auto simp: unat_of_small)
  show "collect_shards (data_shards spec + parity_shards spec) (shard_size spec)
      (replicate (total_shards spec) None) surv = Inr (present_at (total_shards spec) S cw)"
    using collect_genuine [of surv "data_shards spec + parity_shards spec" cw "shard_size spec"
        "replicate (total_shards spec) None"] gen n
    by (simp add: cw_def present_at_def S_def cong: map_cong)
  show "S \<subseteq> {..<total_shards spec}" using gen by (auto simp: S_def)
  have "S = unat ` ps_index ` set surv" by (auto simp: S_def)
  moreover have "inj_on unat (ps_index ` set surv)" by (rule inj_onI) (rule word_unat_eq_iff [THEN iffD2])
  ultimately show "card S = card (ps_index ` set surv)" by (simp add: card_image)
  show "card S \<le> length surv" unfolding S_def
    by (rule order_trans [OF card_image_le card_length]) simp
qed

lemma present_data:
  assumes I: "isal_ok I" and nk: "0 < k" "k \<le> n" "n \<le> 255"
    and D: "\<And>b. b \<in> set D \<Longrightarrow> length b = ss" "length D = k"
    and all: "\<forall>i\<in>set [0..<k]. present_at n S (codeword I n k D ss) ! i \<noteq> None"
  shows "map (\<lambda>i. the (present_at n S (codeword I n k D ss) ! i)) [0..<k] = D"
proof -
  have "map (\<lambda>i. the (present_at n S (codeword I n k D ss) ! i)) [0..<k] = map ((!) D) [0..<k]"
  proof (rule map_cong [OF refl])
    fix i assume "i \<in> set [0..<k]"
    then have i: "i < k" "present_at n S (codeword I n k D ss) ! i \<noteq> None" using all by auto
    then have "i \<in> S" using nk by (metis nth_present_at order_less_le_trans)
    then show "the (present_at n S (codeword I n k D ss) ! i) = D ! i"
      using i nk codeword_data [OF I nk D i(1)] by simp
  qed
  then show ?thesis using D(2) map_nth [of D] by metis
qed

lemma data_shards_present:
  assumes I: "isal_ok I" and enc: "encode I data spec = Inr shards"
    and surv: "{s \<in> set shards. ps_index s < data_shards spec} \<subseteq> set surv"
    and i: "i < unat (data_shards spec)"
  shows "i \<in> (\<lambda>s. unat (ps_index s)) ` set surv"
proof -
  note sh = encode_shape_shards [OF I enc]
  have n: "i < total_shards spec" "i < 256" using sh(1) i by (auto simp: spec_ok_def total_shards_def)
  then have idx: "unat (ps_index (shards ! i)) = i" using sh(3) by (simp add: unat_of_small)
  moreover have "shards ! i \<in> set shards" using n sh(3) by (intro nth_mem) simp
  ultimately have "shards ! i \<in> set surv" using surv i by (auto simp: word_less_nat_alt)
  with idx show ?thesis by (metis (no_types, lifting) image_eqI)
qed

lemma decode_survivors:
  assumes "isal_ok I" and "encode I data spec = Inr shards" and "set surv \<subseteq> set shards"
    and "unat (data_shards spec) \<le> card (ps_index ` set surv)"
    and "isal_invertible I (total_shards spec) (unat (data_shards spec)) \<or>
         {s \<in> set shards. ps_index s < data_shards spec} \<subseteq> set surv"
  shows "decode I surv spec (length data) = Inr data"
proof -
  let ?k = "unat (data_shards spec)" and ?n = "total_shards spec" and ?ss = "unat (shard_size spec)"
  let ?D = "map (data_shard data ?ss) [0..<?k]" and ?S = "(\<lambda>s. unat (ps_index s)) ` set surv"
  define ptrs where "ptrs = present_at ?n ?S (codeword I ?n ?k ?D ?ss)"
  note sh = encode_shape_shards [OF assms(1,2)]
  note pres = survivors_present [OF assms(1-3), folded ptrs_def]
  have nk: "0 < ?k" "?k \<le> ?n" "?n \<le> 255" using sh(1) by (auto simp: spec_ok_def total_shards_def)
  have D: "\<And>b. b \<in> set ?D \<Longrightarrow> length b = ?ss" "length ?D = ?k" by auto
  have data: "take (length data) (concat ?D) = data" using sh(2) by (simp add: concat_data_shards)
  have guards: "\<not> length surv < ?k" "\<not> ?k * ?ss < length data" "?k \<le> card ?S"
    using assms(4) pres(3,4) sh(2) by linarith+
  show ?thesis
  proof (cases "\<forall>i\<in>set [0..<?k]. ptrs ! i \<noteq> None")
    case True
    then have "map (\<lambda>i. the (ptrs ! i)) [0..<?k] = ?D"
      unfolding ptrs_def by (intro present_data [OF assms(1) nk]) auto
    then show ?thesis
      unfolding decode_spec_ok [OF sh(1)] pres(1) sum.case if_P [OF True]
      using guards data by (simp only: if_False)
  next
    case False
    then have "isal_invertible I ?n ?k"
      using assms(5) data_shards_present [OF assms(1,2)] nk unfolding ptrs_def by fastforce
    then have "recover_data I ptrs ?k ?n ?ss = Inr ?D"
      using recover_data_genuine [OF assms(1) nk D pres(2) guards(3)] by (simp only: ptrs_def)
    then show ?thesis
      unfolding decode_spec_ok [OF sh(1)] pres(1) sum.case if_not_P [OF False]
      using guards data by (simp only: if_False sum.case)
  qed
qed

lemma decode_sound:
  assumes "isal_ok I" and "encode I data spec = Inr shards" and "set surv \<subseteq> set shards"
    and d: "decode I surv spec (length data) = Inr d"
  shows "d = data"
proof -
  let ?k = "unat (data_shards spec)" and ?n = "total_shards spec" and ?ss = "unat (shard_size spec)"
  let ?D = "map (data_shard data ?ss) [0..<?k]" and ?S = "(\<lambda>s. unat (ps_index s)) ` set surv"
  define ptrs where "ptrs = present_at ?n ?S (codeword I ?n ?k ?D ?ss)"
  note sh = encode_shape_shards [OF assms(1,2)]
  note pres = survivors_present [OF assms(1-3), folded ptrs_def]
  have nk: "0 < ?k" "?k \<le> ?n" "?n \<le> 255" using sh(1) by (auto simp: spec_ok_def total_shards_def)
  have D: "\<And>b. b \<in> set ?D \<Longrightarrow> length b = ?ss" "length ?D = ?k" by auto
  have data: "take (length data) (concat ?D) = data" using sh(2) by (simp add: concat_data_shards)
  show ?thesis
  proof (cases "\<forall>i\<in>set [0..<?k]. ptrs ! i \<noteq> None")
    case True
    then have m: "map (\<lambda>i. the (ptrs ! i)) [0..<?k] = ?D"
      unfolding ptrs_def by (intro present_data [OF assms(1) nk]) auto
    show ?thesis
      using d unfolding decode_spec_ok [OF sh(1)] pres(1) sum.case if_P [OF True] m data
      by (simp split: if_splits)
  next
    case False
    obtain r where r: "recover_data I ptrs ?k ?n ?ss = Inr r" "d = take (length data) (concat r)"
      using d unfolding decode_spec_ok [OF sh(1)] pres(1) sum.case if_not_P [OF False]
      by (auto split: if_splits sum.splits)
    have "r = ?D" by (rule recover_data_sound [OF assms(1) nk D pres(2) r(1) [unfolded ptrs_def]])
    then show ?thesis using r(2) data by simp
  qed
qed

text \<open>
  C2: Reed-Solomon round trip. Decoding any selection of the shards of an object that holds at
  least \<open>k\<close> different indices, in any order and with any repetitions, returns exactly the object's
  bytes (padding removed), provided either all data shards are among them or the square
  submatrices of the generator matrix are invertible. Without either the selection may be
  undecodable: \<open>encode\<close> accepts parameters (\<open>k = 5\<close>, \<open>m = 6\<close>) for which the library's matrix has
  singular submatrices, see \<open>k_shards_may_not_suffice\<close> in \<open>Erasure_Witnesses\<close>.
\<close>

theorem decode_encode:
  assumes "isal_ok I" and "encode I data spec = Inr shards" and "set surv \<subseteq> set shards"
    and "unat (data_shards spec) \<le> card (ps_index ` set surv)"
    and "isal_invertible I (total_shards spec) (unat (data_shards spec)) \<or>
         {s \<in> set shards. ps_index s < data_shards spec} \<subseteq> set surv"
  shows "decode I surv spec (length data) = Inr data"
  using assms by (rule decode_survivors)

text \<open>
  C5: From genuine shards decoding returns the object's bytes or throws, whatever shards are
  missing or repeated and whatever the library's matrices are: it never returns other bytes.
\<close>

theorem decode_never_wrong:
  assumes "isal_ok I" and "encode I data spec = Inr shards" and "set surv \<subseteq> set shards"
    and "decode I surv spec (length data) = Inr d"
  shows "d = data"
  using assms by (rule decode_sound)

text \<open>
  With fewer than \<open>k\<close> different shards decoding never returns bytes: it throws, whatever size is asked for.
\<close>

theorem decode_too_few:
  assumes "isal_ok I" and "encode I data spec = Inr shards" and "set surv \<subseteq> set shards"
    and "card (ps_index ` set surv) < unat (data_shards spec)"
  shows "\<exists>e. decode I surv spec original_size = Inl e"
proof -
  let ?k = "unat (data_shards spec)" and ?n = "total_shards spec" and ?ss = "unat (shard_size spec)"
  let ?S = "(\<lambda>s. unat (ps_index s)) ` set surv"
  let ?cw = "codeword I ?n ?k (map (data_shard data ?ss) [0..<?k]) ?ss"
  note sh = encode_shape_shards [OF assms(1,2)]
  note pres = survivors_present [OF assms(1-3)]
  have nk: "?k \<le> ?n" by (simp add: total_shards_def)
  have "\<not> {..<?k} \<subseteq> ?S"
  proof
    assume "{..<?k} \<subseteq> ?S"
    then have "card {..<?k} \<le> card ?S" by (intro card_mono) simp_all
    with assms(4) pres(3) show False by simp
  qed
  then obtain i where "i < ?k" "i \<notin> ?S" by auto
  then have "\<exists>i\<in>set [0..<?k]. present_at ?n ?S ?cw ! i = None" using nk by (intro bexI [of _ i]) auto
  moreover have "length (select_shards (present_at ?n ?S ?cw) ?k ?n) < ?k"
    using nk assms(4) pres(2,3) by (simp add: select_shards_present length_filter_upt)
  ultimately show ?thesis
    using sh(1) pres(1) by (auto simp: decode_spec_ok recover_data_def Let_def)
qed

text \<open>
  Encoding succeeds exactly on the specifications within the coder's limits and data that fits;
  otherwise it throws (or, when the 32-bit sum wraps, is undefined).
\<close>

theorem encode_succeeds_iff:
  "(\<exists>shards. encode I data spec = Inr shards) \<longleftrightarrow>
     0 < unat (data_shards spec) \<and> 0 < unat (parity_shards spec) \<and> total_shards spec \<le> 255 \<and>
     0 < unat (shard_size spec) \<and> unat (shard_size spec) \<le> 2147483647 \<and>
     length data \<le> unat (data_shards spec) * unat (shard_size spec)"
  by (simp add: encode_Inr_iff spec_ok_def)

text \<open>
  The shards of an object are numbered \<open>0, ..., k + m - 1\<close> in order, each is exactly one shard
  size long, and the first \<open>k\<close> of them concatenated are the object followed by zero padding.
\<close>

theorem encode_systematic:
  assumes "isal_ok I" and "encode I data spec = Inr shards"
  shows "map (\<lambda>s. unat (ps_index s)) shards = [0..<total_shards spec] \<and>
    map (\<lambda>s. length (ps_bytes s)) shards = replicate (total_shards spec) (unat (shard_size spec)) \<and>
    concat (map ps_bytes (take (unat (data_shards spec)) shards)) =
      data @ replicate (unat (data_shards spec) * unat (shard_size spec) - length data) 0"
proof -
  let ?k = "unat (data_shards spec)" and ?n = "total_shards spec" and ?ss = "unat (shard_size spec)"
  let ?D = "map (data_shard data ?ss) [0..<?k]"
  note sh = encode_shape_shards [OF assms]
  have nk: "0 < ?k" "?k \<le> ?n" "?n \<le> 255" using sh(1) by (auto simp: spec_ok_def total_shards_def)
  have D: "\<And>b. b \<in> set ?D \<Longrightarrow> length b = ?ss" "length ?D = ?k" by auto
  have "map ps_bytes (take ?k shards) = ?D"
    unfolding sh(3) using nk codeword_data [OF assms(1) nk D]
    by (simp add: take_map min_def comp_def)
  then have "concat (map ps_bytes (take ?k shards)) = data @ replicate (?k * ?ss - length data) 0"
    using sh(2) by (simp add: concat_data_shards)
  moreover have "map (\<lambda>s. unat (ps_index s)) shards = [0..<?n]"
    unfolding sh(3) using nk by (auto simp: unat_of_small intro: map_idI)
  moreover have "map (\<lambda>s. length (ps_bytes s)) shards = replicate ?n ?ss"
    unfolding sh(3) by (simp add: comp_def map_replicate_const)
  ultimately show ?thesis by blast
qed

end
