(* ===== verification/Reference_Isal.thy ===== *)
theory Reference_Isal
  imports Erasure_Codec
begin

text \<open>
  A concrete instance of the ISA-L parameter, used by the witnesses: the field GF(2^8) with
  reduction polynomial 0x11d, the matrix ISA-L documents for \<open>gf_gen_rs_matrix\<close> (identity on
  top, row \<open>k + i\<close> the powers of \<open>2 ^ i\<close>), Gauss-Jordan elimination, and the plain row products.
  \<open>isal_ok_ref\<close> shows that it satisfies what the code relies on.
\<close>

section \<open>The field\<close>

definition xtime :: "byte \<Rightarrow> byte" where
  "xtime a = push_bit 1 a XOR (if bit a 7 then 29 else 0)"

definition ref_mul :: "byte \<Rightarrow> byte \<Rightarrow> byte" where
  "ref_mul a b = xsum (\<lambda>i. if bit b i then (xtime ^^ i) a else 0) 8"

primrec ref_pow :: "byte \<Rightarrow> nat \<Rightarrow> byte" where
  "ref_pow a 0 = 1"
| "ref_pow a (Suc n) = ref_mul (ref_pow a n) a"

text \<open>\<open>a ^ 254\<close>, the inverse of a non-zero element, as a product of repeated squares.\<close>

fun ref_inv_steps :: "nat \<Rightarrow> byte \<Rightarrow> byte \<Rightarrow> byte" where
  "ref_inv_steps 0 sq acc = acc"
| "ref_inv_steps (Suc n) sq acc =
     (let sq' = ref_mul sq sq in ref_inv_steps n sq' (ref_mul acc sq'))"

definition ref_inv :: "byte \<Rightarrow> byte" where
  "ref_inv a = ref_inv_steps 7 a 1"

section \<open>The matrices\<close>

definition ref_gen :: "nat \<Rightarrow> nat \<Rightarrow> bytes" where
  "ref_gen n k = concat (map (\<lambda>i. map (\<lambda>j.
     if i < k then (if i = j then 1 else 0) else ref_pow (ref_pow 2 (i - k)) j) [0..<k]) [0..<n])"

fun gauss_jordan :: "nat \<Rightarrow> nat \<Rightarrow> bytes list \<Rightarrow> bytes list option" where
  "gauss_jordan 0 c M = Some M"
| "gauss_jordan (Suc f) c M =
     (case find (\<lambda>r. M ! r ! c \<noteq> 0) [c..<length M] of
        None \<Rightarrow> None
      | Some r \<Rightarrow>
          let M1 = M[c := M ! r, r := M ! c];
              iv = ref_inv (M1 ! c ! c);
              row = map (ref_mul iv) (M1 ! c);
              M2 = map (\<lambda>i. if i = c then row
                     else let f = M1 ! i ! c in
                       if f = 0 then M1 ! i else map2 (\<lambda>x y. x XOR ref_mul f y) (M1 ! i) row)
                     [0..<length M]
          in gauss_jordan f (Suc c) M2)"

definition left_inverse :: "bytes \<Rightarrow> bytes \<Rightarrow> nat \<Rightarrow> bool" where
  "left_inverse B A k \<longleftrightarrow> length B = k * k \<and>
     (\<forall>i\<in>set [0..<k]. \<forall>j\<in>set [0..<k].
        xsum (\<lambda>t. ref_mul (B ! (i * k + t)) (A ! (t * k + j))) k = (if i = j then 1 else 0))"

definition ref_invert :: "bytes \<Rightarrow> nat \<Rightarrow> bytes option" where
  "ref_invert A k =
     (case gauss_jordan k 0 (map (\<lambda>i. take k (drop (i * k) A) @
              map (\<lambda>j. if i = j then 1 else 0) [0..<k]) [0..<k]) of
        None \<Rightarrow> None
      | Some M \<Rightarrow> let B = concat (map (drop k) M) in if left_inverse B A k then Some B else None)"

definition ref_encode_data :: "nat \<Rightarrow> nat \<Rightarrow> nat \<Rightarrow> bytes \<Rightarrow> bytes list \<Rightarrow> bytes list" where
  "ref_encode_data len k r rows bufs =
     map (\<lambda>i. map (\<lambda>p. xsum (\<lambda>t. ref_mul (rows ! (i * k + t)) (bufs ! t ! p)) k) [0..<len]) [0..<r]"

definition ref_isal :: isal where
  "ref_isal = \<lparr>gf_mul = ref_mul, gf_gen_rs_matrix = ref_gen, gf_invert_matrix = ref_invert,
     ec_init_tables = (\<lambda>k r rows. rows), ec_encode_data = ref_encode_data\<rparr>"

lemma ref_isal_simps [simp]:
  "gf_mul ref_isal = ref_mul" "gf_gen_rs_matrix ref_isal = ref_gen"
  "gf_invert_matrix ref_isal = ref_invert" "ec_init_tables ref_isal k r rows = rows"
  "ec_encode_data ref_isal = ref_encode_data"
  by (simp_all add: ref_isal_def)

section \<open>The field laws\<close>

lemma xtime_xor: "xtime (a XOR b) = xtime a XOR xtime b"
  by (simp add: xtime_def bit_xor_iff push_bit_xor ac_simps xor.left_commute)

lemma xtime_pow_xor: "(xtime ^^ n) (a XOR b) = (xtime ^^ n) a XOR (xtime ^^ n) b"
  by (induction n) (simp_all add: xtime_xor)

lemma xtime_pow_zero: "(xtime ^^ n) 0 = 0"
  by (induction n) (simp_all add: xtime_def)

lemma ref_mul_xor_right: "ref_mul a (b XOR c) = ref_mul a b XOR ref_mul a c"
  unfolding ref_mul_def xsum_xor [symmetric]
  by (rule xsum_cong) (simp add: bit_xor_iff)

lemma ref_mul_xor_left: "ref_mul (a XOR b) c = ref_mul a c XOR ref_mul b c"
  unfolding ref_mul_def xsum_xor [symmetric]
  by (rule xsum_cong) (simp add: xtime_pow_xor)

lemma bit_byte_bits:
  "n < 8 \<Longrightarrow> bit (xsum (\<lambda>i. if bit a i then push_bit i 1 else 0) m) n \<longleftrightarrow> n < m \<and> bit (a :: byte) n"
  by (induction m) (auto simp: bit_simps less_Suc_eq)

lemma byte_bits: "xsum (\<lambda>i. if bit a i then push_bit i 1 else 0) 8 = (a :: byte)"
  by (rule bit_word_eqI) (simp add: bit_byte_bits)

lemma xtime_pow_one: "i < 8 \<Longrightarrow> (xtime ^^ i) 1 = push_bit i 1"
proof -
  assume "i < 8"
  then have "i \<in> {0, 1, 2, 3, 4, 5, 6, 7}" by auto
  then show ?thesis by (auto simp: eval_nat_numeral xtime_def)
qed

lemma ref_mul_one: "ref_mul 1 a = a"
proof -
  have "ref_mul 1 a = xsum (\<lambda>i. if bit a i then push_bit i 1 else 0) 8"
    unfolding ref_mul_def by (rule xsum_cong) (simp add: xtime_pow_one)
  then show ?thesis by (simp add: byte_bits)
qed

text \<open>Two additive functions that agree on the powers of two agree everywhere.\<close>

definition additive :: "(byte \<Rightarrow> byte) \<Rightarrow> bool" where
  "additive f \<longleftrightarrow> (\<forall>a b. f (a XOR b) = f a XOR f b)"

lemma additive_zero: "additive f \<Longrightarrow> f 0 = 0"
  unfolding additive_def by (metis xor_self_eq)

lemma additive_xsum: "additive f \<Longrightarrow> f (xsum g n) = xsum (\<lambda>t. f (g t)) n"
  by (induction n) (simp_all add: additive_zero, simp add: additive_def)

lemma additive_ext:
  assumes f: "additive f" and g: "additive g" and eq: "\<And>i. i < 8 \<Longrightarrow> f (push_bit i 1) = g (push_bit i 1)"
  shows "f a = g a"
proof -
  let ?b = "\<lambda>i. if bit a i then push_bit i 1 else 0"
  have "f (xsum ?b 8) = xsum (\<lambda>i. f (?b i)) 8" using f by (rule additive_xsum)
  also have "\<dots> = xsum (\<lambda>i. g (?b i)) 8"
    by (rule xsum_cong) (simp add: eq additive_zero [OF f] additive_zero [OF g] del: push_bit_of_1)
  also have "\<dots> = g (xsum ?b 8)" using g by (rule additive_xsum [symmetric])
  finally show ?thesis by (simp add: byte_bits)
qed

lemma additive_xtime_pow: "additive (xtime ^^ n)"
  by (simp add: additive_def xtime_pow_xor)

lemma additive_mul: "additive (ref_mul a)"
  by (simp add: additive_def ref_mul_xor_right)

lemma xor_four:
  "(a XOR b) XOR (c XOR d) XOR (e XOR f) XOR (g XOR h) =
   (a XOR c XOR e XOR g) XOR (b XOR d XOR f XOR (h :: byte))"
  by (rule bit_word_eqI) (simp add: bit_simps, blast)

lemma xtime_pow_8: "(xtime ^^ 8) a = a XOR (xtime ^^ 2) a XOR (xtime ^^ 3) a XOR (xtime ^^ 4) a"
proof (rule additive_ext [OF additive_xtime_pow])
  show "additive (\<lambda>a. a XOR (xtime ^^ 2) a XOR (xtime ^^ 3) a XOR (xtime ^^ 4) a)"
    unfolding additive_def xtime_pow_xor by (intro allI xor_four)
  fix i :: nat assume "i < 8"
  moreover have "\<forall>i \<in> set [0..<8]. (xtime ^^ 8) (push_bit i 1) = push_bit i 1
      XOR (xtime ^^ 2) (push_bit i 1) XOR (xtime ^^ 3) (push_bit i 1) XOR (xtime ^^ 4) (push_bit i 1)"
    by code_simp
  ultimately show "(xtime ^^ 8) (push_bit i 1) = push_bit i 1 XOR (xtime ^^ 2) (push_bit i 1)
      XOR (xtime ^^ 3) (push_bit i 1) XOR (xtime ^^ 4) (push_bit i 1)"
    by (simp del: push_bit_of_1)
qed

lemma ref_mul_power: "i < 8 \<Longrightarrow> ref_mul a (push_bit i 1) = (xtime ^^ i) a"
proof -
  assume i: "i < 8"
  have "ref_mul a (push_bit i 1) = xsum (\<lambda>j. if i = j then (xtime ^^ j) a else 0) 8"
    unfolding ref_mul_def by (rule xsum_cong) (use i in \<open>auto simp: bit_simps\<close>)
  then show ?thesis using i by (simp add: xsum_delta)
qed

lemma ref_mul_zero: "ref_mul a 0 = 0"
  by (rule additive_zero [OF additive_mul])

text \<open>
  Associativity: multiplication commutes with \<open>xtime\<close> in its second argument, because the two
  sides agree on the powers of two; at \<open>2 ^ 7\<close> this is the reduction polynomial.
\<close>

lemma ref_mul_xtime: "ref_mul a (xtime b) = xtime (ref_mul a b)"
proof (rule additive_ext [of "\<lambda>b. ref_mul a (xtime b)" "\<lambda>b. xtime (ref_mul a b)"])
  show "additive (\<lambda>b. ref_mul a (xtime b))" "additive (\<lambda>b. xtime (ref_mul a b))"
    by (simp_all add: additive_def ref_mul_xor_right xtime_xor)
  fix i :: nat assume i: "i < 8"
  have pow: "xtime (ref_mul a (push_bit i 1)) = (xtime ^^ Suc i) a"
    using i by (simp add: ref_mul_power del: push_bit_of_1)
  show "ref_mul a (xtime (push_bit i 1)) = xtime (ref_mul a (push_bit i 1))"
  proof (cases "i = 7")
    case True
    have x: "xtime (push_bit 7 1) = push_bit 0 1 XOR push_bit 2 1 XOR push_bit 3 1 XOR push_bit 4 1"
      by (simp add: xtime_def)
    have one: "ref_mul a 1 = a" using ref_mul_power [of 0 a] by simp
    have s: "Suc 7 = (8 :: nat)" by simp
    have "ref_mul a (xtime (push_bit 7 1)) = (xtime ^^ 8) a"
      unfolding x ref_mul_xor_right xtime_pow_8
      by (simp add: one ref_mul_power del: push_bit_of_1 push_bit_numeral_minus_1)
    then show ?thesis unfolding True pow [unfolded True s] by simp
  next
    case False
    then have "Suc i < 8" using i by simp
    moreover have "xtime (push_bit i 1) = push_bit (Suc i) 1"
      using i False by (simp add: xtime_def bit_simps push_bit_push_bit)
    ultimately show ?thesis unfolding pow by (simp only: ref_mul_power)
  qed
qed

lemma ref_mul_xtime_pow: "ref_mul a ((xtime ^^ n) b) = (xtime ^^ n) (ref_mul a b)"
  by (induction n) (simp_all add: ref_mul_xtime)

lemma ref_mul_assoc: "ref_mul (ref_mul a b) c = ref_mul a (ref_mul b c)"
proof -
  have "ref_mul a (ref_mul b c) = xsum (\<lambda>i. ref_mul a (if bit c i then (xtime ^^ i) b else 0)) 8"
    unfolding ref_mul_def [of b c] by (rule additive_xsum [OF additive_mul])
  also have "\<dots> = ref_mul (ref_mul a b) c"
    unfolding ref_mul_def [of "ref_mul a b" c]
    by (rule xsum_cong) (simp add: ref_mul_zero ref_mul_xtime_pow)
  finally show ?thesis by simp
qed

section \<open>The instance satisfies the laws\<close>

lemma ref_field: "gf_field_laws ref_isal"
  by (simp add: gf_field_laws_def ref_mul_xor_right ref_mul_xor_left ref_mul_assoc ref_mul_one)

lemma ref_gen_ok: "isal_gen_ok ref_isal"
  unfolding isal_gen_ok_def
proof (intro allI impI)
  fix n k :: nat assume nk: "0 < k \<and> k \<le> n \<and> n \<le> 255"
  let ?row = "\<lambda>i. map (\<lambda>j. if i < k then (if i = j then 1 else 0)
    else ref_pow (ref_pow 2 (i - k)) j) [0..<k]"
  have len: "length x = k" if "x \<in> set (map ?row [0..<n])" for x using that by auto
  have "length (ref_gen n k) = n * k"
    unfolding ref_gen_def by (subst length_concat_blocks [OF len]) auto
  moreover have "ref_gen n k ! (i * k + j) = (if i = j then 1 else 0)" if "i < k" "j < k" for i j
    unfolding ref_gen_def by (subst nth_concat_blocks [OF len]) (use that nk in auto)
  ultimately show "length (gf_gen_rs_matrix ref_isal n k) = n * k \<and>
      (\<forall>i<k. \<forall>j<k. gf_gen_rs_matrix ref_isal n k ! (i * k + j) = (if i = j then 1 else 0))"
    by simp
qed

lemma ref_invert_ok: "isal_invert_ok ref_isal"
  by (auto simp: isal_invert_ok_def ref_invert_def left_inverse_def Let_def
      split: option.splits if_splits)

lemma ref_encode_ok: "isal_encode_ok ref_isal"
  by (simp add: isal_encode_ok_def ref_encode_data_def)

theorem isal_ok_ref: "isal_ok ref_isal"
  by (simp add: isal_ok_def ref_field ref_gen_ok ref_invert_ok ref_encode_ok)

end
