(* ===== verification/Erasure_Witnesses.thy ===== *)
theory Erasure_Witnesses
  imports Reference_Isal
begin

text \<open>
  Concrete runs of the erasure codec over the reference GF(2^8) instance: the witnesses of its
  properties, and two behaviours at the edge of its parameters (a wrapping shard count, and
  parameters for which ISA-L's generator matrix has singular square submatrices).
\<close>

section \<open>Witnesses for the erasure codec\<close>

definition spec21 :: erasure_spec where
  "spec21 = \<lparr>data_shards = 2, parity_shards = 1, shard_size = 2\<rparr>"

definition shards21 :: "plain_shard list" where
  "shards21 = [\<lparr>ps_index = 0, ps_bytes = [7, 9]\<rparr>, \<lparr>ps_index = 1, ps_bytes = [200, 0]\<rparr>,
     \<lparr>ps_index = 2, ps_bytes = [207, 9]\<rparr>]"

lemma encode_shards21: "encode ref_isal [7, 9, 200] spec21 = Inr shards21"
  by code_simp

lemma sorted_pairs_below_3:
  assumes "sorted idx" "distinct idx" "length idx = 2" "set idx \<subseteq> {..<3::nat}"
  shows "idx = [0, 1] \<or> idx = [0, 2] \<or> idx = [1, 2]"
proof -
  from assms(3) obtain a b where idx: "idx = [a, b]"
    by (auto simp: numeral_2_eq_2 length_Suc_conv)
  then have "a < b" "b < 3" using assms by auto
  then show ?thesis using idx by auto
qed

lemma invertible_3_2: "isal_invertible ref_isal 3 2"
proof -
  have "\<forall>idx\<in>set [[0, 1], [0, 2], [1, 2]]. ref_invert (mat_rows (ref_gen 3 2) 2 idx) 2 \<noteq> None"
    by code_simp
  then show ?thesis
    unfolding isal_invertible_def using sorted_pairs_below_3 by fastforce
qed

text \<open>
  A data shard is lost and the survivors arrive out of order, one of them twice.\<close>

theorem decode_encode_witness:
  "decode ref_isal [shards21 ! 2, shards21 ! 0, shards21 ! 2] spec21 3 = Inr [7, 9, 200]"
proof -
  have "decode ref_isal [shards21 ! 2, shards21 ! 0, shards21 ! 2] spec21 (length [7, 9, 200 :: byte])
      = Inr [7, 9, 200]"
  proof (rule decode_encode [OF isal_ok_ref encode_shards21])
    show "set [shards21 ! 2, shards21 ! 0, shards21 ! 2] \<subseteq> set shards21" by (simp add: shards21_def)
    show "unat (data_shards spec21) \<le> card (ps_index ` set [shards21 ! 2, shards21 ! 0, shards21 ! 2])"
      by (simp add: shards21_def spec21_def card_insert_if)
    show "isal_invertible ref_isal (total_shards spec21) (unat (data_shards spec21)) \<or>
        {s \<in> set shards21. ps_index s < data_shards spec21}
          \<subseteq> set [shards21 ! 2, shards21 ! 0, shards21 ! 2]"
      using invertible_3_2 by (simp add: spec21_def total_shards_def)
  qed
  then show ?thesis by (simp add: numeral_3_eq_3)
qed

theorem decode_never_wrong_witness:
  "decode ref_isal [shards21 ! 2, shards21 ! 1] spec21 3 = Inr [7, 9, 200]"
proof -
  have "is_ok (decode ref_isal [shards21 ! 2, shards21 ! 1] spec21 3)" by code_simp
  then obtain d where d: "decode ref_isal [shards21 ! 2, shards21 ! 1] spec21 (length [7, 9, 200 :: byte]) = Inr d"
    by (cases "decode ref_isal [shards21 ! 2, shards21 ! 1] spec21 3") (auto simp: is_ok_def numeral_3_eq_3)
  have "d = [7, 9, 200]"
    by (rule decode_never_wrong [OF isal_ok_ref encode_shards21 _ d]) (simp add: shards21_def)
  then show ?thesis using d by (simp add: numeral_3_eq_3)
qed

theorem decode_too_few_witness:
  "\<exists>e. decode ref_isal [shards21 ! 2, shards21 ! 2] spec21 3 = Inl e"
  by (rule decode_too_few [OF isal_ok_ref encode_shards21]) (simp_all add: shards21_def spec21_def)

theorem encode_systematic_witness:
  "map (\<lambda>s. unat (ps_index s)) shards21 = [0..<total_shards spec21] \<and>
   map (\<lambda>s. length (ps_bytes s)) shards21 = replicate (total_shards spec21) (unat (shard_size spec21)) \<and>
   concat (map ps_bytes (take (unat (data_shards spec21)) shards21)) =
     [7, 9, 200] @ replicate (unat (data_shards spec21) * unat (shard_size spec21)
       - length [7, 9, 200 :: byte]) 0"
  by (rule encode_systematic [OF isal_ok_ref encode_shards21])

section \<open>Two boundary behaviours\<close>

text \<open>
  The \<open>k + m\<close> guard of \<open>encode\<close> is computed in 32 bits: a specification whose sum wraps
  passes every guard and the routine then indexes past its shard vector.
\<close>

theorem encode_sum_wraps:
  "encode I [0] \<lparr>data_shards = 4294967295, parity_shards = 2, shard_size = 1\<rparr> = Inl UndefinedBehaviour"
  by (simp add: encode_def Let_def)

lemma no_left_inverse:
  assumes I: "isal_ok I" and A: "length A = k * k"
    and null: "\<And>t. t < k \<Longrightarrow> xsum (\<lambda>j. gf_mul I (A ! (t * k + j)) (v j)) k = 0"
    and r: "r < k" "v r \<noteq> 0"
  shows "gf_invert_matrix I A k = None"
proof (rule ccontr)
  assume "gf_invert_matrix I A k \<noteq> None"
  then obtain B where B: "gf_invert_matrix I A k = Some B" by blast
  have F: "gf_field_laws I" using I by (rule isal_ok_field)
  have "0 = xsum (\<lambda>t. gf_mul I (B ! (r * k + t)) (xsum (\<lambda>j. gf_mul I (A ! (t * k + j)) (v j)) k)) k"
    by (rule xsum_zero [symmetric]) (simp add: null gf_mul_zero [OF F])
  also have "\<dots> = xsum (\<lambda>t. xsum (\<lambda>j. gf_mul I (gf_mul I (B ! (r * k + t)) (A ! (t * k + j))) (v j)) k) k"
    using F by (intro xsum_cong) (simp add: gf_mul_xsum gf_field_laws_def)
  also have "\<dots> = xsum (\<lambda>j. gf_mul I (xsum (\<lambda>t. gf_mul I (B ! (r * k + t)) (A ! (t * k + j))) k) (v j)) k"
    by (subst xsum_swap) (simp add: gf_mul_xsum [OF F])
  also have "\<dots> = xsum (\<lambda>j. if r = j then v j else 0) k"
    using F r by (intro xsum_cong) (simp add: isal_ok_invert(2) [OF I A B] gf_mul_zero gf_field_laws_def)
  also have "\<dots> = v r" using r by (simp add: xsum_delta)
  finally show False using r by simp
qed

definition spec56 :: erasure_spec where
  "spec56 = \<lparr>data_shards = 5, parity_shards = 6, shard_size = 1\<rparr>"

definition idx56 :: "nat list" where
  "idx56 = [1, 2, 5, 7, 10]"

definition matrix56 :: bytes where
  "matrix56 = [0, 1, 0, 0, 0,  0, 0, 1, 0, 0,  1, 1, 1, 1, 1,  1, 4, 16, 64, 29,  1, 32, 116, 38, 180]"

definition surv56 :: "plain_shard list" where
  "surv56 = map (\<lambda>i. \<lparr>ps_index = i, ps_bytes = [0]\<rparr>) [1, 2, 5, 7, 10]"

lemma ref_gen_11_5_rows: "mat_rows (ref_gen 11 5) 5 idx56 = matrix56"
  by code_simp

lemma singular_11_5: "ref_invert (mat_rows (ref_gen 11 5) 5 idx56) 5 = None"
proof -
  let ?v = "[1, 0, 0, 168, 169] :: byte list"
  have null: "\<forall>t\<in>set [0..<5]. xsum (\<lambda>j. ref_mul (matrix56 ! (t * 5 + j)) (?v ! j)) 5 = 0"
    by code_simp
  have "gf_invert_matrix ref_isal matrix56 5 = None"
  proof (rule no_left_inverse [OF isal_ok_ref, where v = "\<lambda>j. ?v ! j" and r = 0])
    show "length matrix56 = 5 * 5" by (simp add: matrix56_def)
    show "xsum (\<lambda>j. gf_mul ref_isal (matrix56 ! (t * 5 + j)) (?v ! j)) 5 = 0" if "t < 5" for t
      using null that by simp
  qed simp_all
  then show ?thesis by (simp add: ref_gen_11_5_rows)
qed

text \<open>
  Five intact shards of an object with \<open>k = 5\<close>, \<open>m = 6\<close> can be insufficient: with ISA-L's
  documented generator matrix the rows of shards 1, 2, 5, 7 and 10 are singular, two different
  objects share these five shards, and \<open>decode\<close> throws.
\<close>

theorem k_shards_may_not_suffice:
  "(\<exists>xs ys. encode ref_isal [1, 0, 0, 168, 169] spec56 = Inr xs \<and>
      encode ref_isal [0, 0, 0, 0, 0] spec56 = Inr ys \<and> xs \<noteq> ys \<and>
      map ((!) xs) idx56 = surv56 \<and> map ((!) ys) idx56 = surv56) \<and>
   decode ref_isal surv56 spec56 5 = Inl (RuntimeError ''decode: failed to invert decode matrix'')"
proof (intro conjI)
  have "case (encode ref_isal [1, 0, 0, 168, 169] spec56, encode ref_isal [0, 0, 0, 0, 0] spec56) of
      (Inr xs, Inr ys) \<Rightarrow> xs ! 0 \<noteq> ys ! 0 \<and>
        map ((!) xs) idx56 = surv56 \<and> map ((!) ys) idx56 = surv56
    | _ \<Rightarrow> False"
    by code_simp
  then show "\<exists>xs ys. encode ref_isal [1, 0, 0, 168, 169] spec56 = Inr xs \<and>
      encode ref_isal [0, 0, 0, 0, 0] spec56 = Inr ys \<and> xs \<noteq> ys \<and>
      map ((!) xs) idx56 = surv56 \<and> map ((!) ys) idx56 = surv56"
    by (auto split: sum.splits)
  let ?ptrs = "[None, Some [0], Some [0], None, None, Some [0], None, Some [0], None, None, Some [0]] :: bytes option list"
  have ptrs: "collect_shards 11 1 (replicate 11 None) surv56 = Inr ?ptrs" by code_simp
  have sel: "select_shards ?ptrs 5 11 = idx56" by code_simp
  have "recover_data ref_isal ?ptrs 5 11 1 = Inl (RuntimeError ''decode: failed to invert decode matrix'')"
    unfolding recover_data_def Let_def sel using singular_11_5 by (simp add: idx56_def)
  moreover have "spec_ok spec56" by (simp add: spec_ok_def spec56_def total_shards_def)
  moreover have "length surv56 = 5" by (simp add: surv56_def)
  moreover have "\<not> (\<forall>i\<in>set [0..<5]. ?ptrs ! i \<noteq> None)" by (auto intro!: bexI [of _ 0])
  ultimately show "decode ref_isal surv56 spec56 5 = Inl (RuntimeError ''decode: failed to invert decode matrix'')"
    using ptrs by (simp add: decode_spec_ok spec56_def total_shards_def)
qed

end
