(* ===== verification/Hrw_Placement.thy ===== *)
theory Hrw_Placement
  imports Prelude "HOL-Library.List_Lexorder" "HOL-Library.Char_ord"
begin

text \<open>
  Rendezvous placement (\<^verbatim>\<open>core/ShardTransport.cpp\<close>, \<open>fnv1a64\<close>, \<open>hrw_weight\<close> and
  \<open>hrw_intended_nodes\<close>): shard after shard, the free node with the highest weight. The greedy
  choice is the interface \<open>ranking\<close>, a strict total order; it is interpreted on the weight order.
\<close>

section \<open>The code\<close>

definition fnv1a64 :: "string \<Rightarrow> 64 word" where
  "fnv1a64 data = foldl (\<lambda>hash c. (hash XOR ucast (byte_of_char c)) * 1099511628211)
     1469598103934665603 data"

definition hrw_weight :: "string \<Rightarrow> nat \<Rightarrow> string \<Rightarrow> 64 word" where
  "hrw_weight object_id shard_index node_address =
     fnv1a64 (object_id @ ''|'' @ to_string shard_index @ ''|'' @ node_address)"

text \<open>
  One turn of the inner loop: \<open>best\<close> is \<open>best_node\<close> (None for the null pointer) with \<open>best_weight\<close>.
\<close>

definition hrw_consider ::
    "string \<Rightarrow> nat \<Rightarrow> string list \<Rightarrow> (string \<times> 64 word) option \<Rightarrow> string \<Rightarrow> (string \<times> 64 word) option" where
  "hrw_consider object_id shard_index assigned best node =
     (if node \<in> set assigned then best
      else let weight = hrw_weight object_id shard_index node
        in case best of
             None \<Rightarrow> Some (node, weight)
           | Some (best_node, best_weight) \<Rightarrow>
               if best_weight < weight \<or> weight = best_weight \<and> node < best_node
               then Some (node, weight) else best)"

definition hrw_select :: "string \<Rightarrow> nat \<Rightarrow> string list \<Rightarrow> string list \<Rightarrow> (string \<times> 64 word) option" where
  "hrw_select object_id shard_index eligible_nodes assigned =
     foldl (hrw_consider object_id shard_index assigned) None eligible_nodes"

text \<open>
  The outer loop, \<open>remaining\<close> shards from \<open>shard_index\<close> on. The unordered set \<open>assigned\<close> holds
  exactly the nodes of \<open>intended\<close>, so the one list is both. Dereferencing a null \<open>best_node\<close> is
  undefined behaviour.
\<close>

fun hrw_assign :: "string \<Rightarrow> string list \<Rightarrow> nat \<Rightarrow> nat \<Rightarrow> string list \<Rightarrow> string list res" where
  "hrw_assign object_id eligible_nodes shard_index 0 intended = Inr intended"
| "hrw_assign object_id eligible_nodes shard_index (Suc remaining) intended =
     (case hrw_select object_id shard_index eligible_nodes intended of
        None \<Rightarrow> Inl (UndefinedBehaviour)
      | Some (best_node, best_weight) \<Rightarrow>
          hrw_assign object_id eligible_nodes (Suc shard_index) remaining (intended @ [best_node]))"

definition hrw_intended_nodes :: "string \<Rightarrow> string list \<Rightarrow> nat \<Rightarrow> string list res" where
  "hrw_intended_nodes object_id eligible_nodes total_shards =
     (if length eligible_nodes < total_shards then
        Inl (RuntimeError ''hrw_intended_nodes: not enough eligible nodes for number of shards'')
      else hrw_assign object_id eligible_nodes 0 total_shards [])"

section \<open>The interface: choosing the best by a strict total order\<close>

definition argbest :: "('a \<Rightarrow> 'a \<Rightarrow> bool) \<Rightarrow> 'a list \<Rightarrow> 'a option" where
  "argbest better xs = foldl (\<lambda>b x. case b of None \<Rightarrow> Some x
     | Some y \<Rightarrow> if better x y then Some x else b) None xs"

lemma argbest_Nil [simp]: "argbest better [] = None"
  by (simp add: argbest_def)

lemma argbest_single [simp]: "argbest better [x] = Some x"
  by (simp add: argbest_def)

lemma argbest_snoc [simp]:
  "argbest better (xs @ [x]) = (case argbest better xs of None \<Rightarrow> Some x
     | Some y \<Rightarrow> Some (if better x y then x else y))"
  by (simp add: argbest_def split: option.splits)

locale ranking =
  fixes better :: "'a \<Rightarrow> 'a \<Rightarrow> bool"
  assumes irrefl: "\<not> better a a"
    and trans: "better a b \<Longrightarrow> better b c \<Longrightarrow> better a c"
    and total: "a \<noteq> b \<Longrightarrow> better a b \<or> better b a"
begin

lemma asym: "better a b \<Longrightarrow> \<not> better b a"
  using irrefl trans by blast

lemma argbest_None [simp]: "argbest better xs = None \<longleftrightarrow> xs = []"
  by (cases xs rule: rev_cases) (simp_all split: option.splits)

lemma argbest_max: "argbest better xs = Some b \<Longrightarrow> b \<in> set xs \<and> (\<forall>x\<in>set xs. x \<noteq> b \<longrightarrow> better b x)"
proof (induction xs arbitrary: b rule: rev_induct)
  case (snoc x xs)
  show ?case
  proof (cases "argbest better xs")
    case None
    then show ?thesis using snoc.prems by simp
  next
    case (Some y)
    then have y: "y \<in> set xs" "\<forall>z\<in>set xs. z \<noteq> y \<longrightarrow> better y z" using snoc.IH by auto
    have b: "b = (if better x y then x else y)" using snoc.prems Some by simp
    show ?thesis
    proof (cases "better x y")
      case True
      then show ?thesis using y b trans by (auto dest: asym)
    next
      case False
      then show ?thesis using y b total [of x y] by auto
    qed
  qed
qed simp

lemma argbest_eq: "argbest better xs = Some b \<longleftrightarrow> b \<in> set xs \<and> (\<forall>x\<in>set xs. x \<noteq> b \<longrightarrow> better b x)"
proof
  assume b: "b \<in> set xs \<and> (\<forall>x\<in>set xs. x \<noteq> b \<longrightarrow> better b x)"
  then obtain c where c: "argbest better xs = Some c" by (cases "argbest better xs") auto
  then have c': "c \<in> set xs" "\<forall>x\<in>set xs. x \<noteq> c \<longrightarrow> better c x" using argbest_max [OF c] by auto
  have "c = b"
  proof (rule ccontr)
    assume "c \<noteq> b"
    then have "better c b" "better b c" using c' b by auto
    then show False using asym by blast
  qed
  with c show "argbest better xs = Some b" by simp
qed (rule argbest_max)

lemma argbest_set: "set xs = set ys \<Longrightarrow> argbest better xs = argbest better ys"
proof (cases "argbest better ys")
  case (Some b)
  moreover assume "set xs = set ys"
  ultimately have "argbest better xs = Some b" by (simp add: argbest_eq)
  with Some show ?thesis by simp
qed simp

text \<open>
  One more candidate either wins or leaves the winner alone.\<close>

lemma argbest_insert:
  assumes "set ys = insert x (set xs)" and "argbest better xs = Some b"
  shows "argbest better ys = Some (if better x b then x else b)"
proof -
  have b: "b \<in> set xs" "\<forall>z\<in>set xs. z \<noteq> b \<longrightarrow> better b z" using assms(2) by (auto simp: argbest_eq)
  show ?thesis
  proof (cases "better x b")
    case True
    then have "\<forall>z\<in>set ys. z \<noteq> x \<longrightarrow> better x z" using b assms(1) trans by auto
    then show ?thesis using True assms(1) by (simp add: argbest_eq)
  next
    case False
    then have "\<forall>z\<in>set ys. z \<noteq> b \<longrightarrow> better b z" using b assms(1) total [of x b] by auto
    then show ?thesis using False assms(1) b(1) by (simp add: argbest_eq)
  qed
qed

end

section \<open>The weight order\<close>

definition hrw_better :: "string \<Rightarrow> nat \<Rightarrow> string \<Rightarrow> string \<Rightarrow> bool" where
  "hrw_better object_id shard_index a b \<longleftrightarrow>
     hrw_weight object_id shard_index b < hrw_weight object_id shard_index a \<or>
     hrw_weight object_id shard_index a = hrw_weight object_id shard_index b \<and> a < b"

interpretation hrw: ranking "hrw_better object_id shard_index" for object_id shard_index
  by unfold_locales (auto simp: hrw_better_def)

abbreviation free_nodes :: "string list \<Rightarrow> string list \<Rightarrow> string list" where
  "free_nodes eligible_nodes assigned \<equiv> filter (\<lambda>n. n \<notin> set assigned) eligible_nodes"

lemma hrw_select_argbest:
  "hrw_select oid i el as =
     map_option (\<lambda>n. (n, hrw_weight oid i n)) (argbest (hrw_better oid i) (free_nodes el as))"
  unfolding hrw_select_def
proof (induction el rule: rev_induct)
  case (snoc x el)
  then show ?case
    by (cases "argbest (hrw_better oid i) (free_nodes el as)"; cases "x \<in> set as")
      (simp_all add: hrw_consider_def Let_def, auto simp: hrw_better_def)
qed simp

lemma hrw_assign_Suc:
  "hrw_assign oid el i (Suc r) as = (case argbest (hrw_better oid i) (free_nodes el as) of
     None \<Rightarrow> Inl (UndefinedBehaviour)
   | Some n \<Rightarrow> hrw_assign oid el (Suc i) r (as @ [n]))"
  by (simp add: hrw_select_argbest split: option.splits)

declare hrw_assign.simps(2) [simp del]

lemmas hrw_assign_simps = hrw_assign.simps(1) hrw_assign_Suc

section \<open>Lemmas\<close>

lemma hrw_assign_total:
  assumes "distinct as" and "set as \<subseteq> set el" and "length as + r \<le> card (set el)"
  shows "\<exists>ns. hrw_assign oid el i r as = Inr (as @ ns) \<and> length ns = r \<and>
    distinct (as @ ns) \<and> set ns \<subseteq> set el"
  using assms
proof (induction r arbitrary: i as)
  case (Suc r)
  have "card (set as) < card (set el)" using Suc.prems by (simp add: distinct_card)
  then have "\<not> set el \<subseteq> set as" by (metis List.finite_set card_mono not_le)
  then have "free_nodes el as \<noteq> []" by (auto simp: filter_empty_conv)
  then obtain n where n: "argbest (hrw_better oid i) (free_nodes el as) = Some n"
    by (cases "argbest (hrw_better oid i) (free_nodes el as)") auto
  then have "n \<in> set el" "n \<notin> set as" using hrw.argbest_max by fastforce+
  then obtain ns where "hrw_assign oid el (Suc i) r (as @ [n]) = Inr ((as @ [n]) @ ns)" "length ns = r"
    "distinct ((as @ [n]) @ ns)" "set ns \<subseteq> set el"
    using Suc.IH [of "as @ [n]" "Suc i"] Suc.prems by auto
  then show ?case using n \<open>n \<in> set el\<close> by (intro exI [of _ "n # ns"]) (auto simp: hrw_assign_simps)
qed simp

lemma hrw_assign_set:
  "set el = set el' \<Longrightarrow> hrw_assign oid el i r as = hrw_assign oid el' i r as"
proof (induction r arbitrary: i as)
  case (Suc r)
  have "argbest (hrw_better oid i) (free_nodes el as) = argbest (hrw_better oid i) (free_nodes el' as)"
    using Suc.prems by (intro hrw.argbest_set) auto
  then show ?case using Suc by (simp add: hrw_assign_simps split: option.splits)
qed simp

text \<open>
  Adding a node: the nodes free for the new placement are those free for the old one and one
  \<open>spare\<close>, first the new node, later the node the last moved shard left.
\<close>

lemma hrw_assign_add:
  assumes "hrw_assign oid el i r as = Inr (as @ ns)" and "length ns = r"
    and "set (free_nodes el' as') = insert spare (set (free_nodes el as))"
    and "spare \<notin> set (free_nodes el as)"
  shows "\<exists>ns'. hrw_assign oid el' i r as' = Inr (as' @ ns') \<and> length ns' = r \<and>
    set ns' \<subseteq> insert spare (set ns) \<and>
    (\<forall>j<r. ns' ! j = ns ! j \<or> hrw_better oid (i + j) (ns' ! j) (ns ! j)) \<and>
    (spare \<notin> set ns' \<longrightarrow> ns' = ns)"
  using assms
proof (induction r arbitrary: i as as' ns spare)
  case (Suc r)
  obtain n where n: "argbest (hrw_better oid i) (free_nodes el as) = Some n"
    "hrw_assign oid el (Suc i) r (as @ [n]) = Inr (as @ ns)"
    using Suc.prems(1) by (auto simp: hrw_assign_simps split: option.splits)
  have pre: "\<exists>zs. r2 = xs @ zs" if "hrw_assign oid el k q xs = Inr r2" for k q xs r2
    using that
  proof (induction q arbitrary: k xs)
    case (Suc q)
    then obtain m where "hrw_assign oid el (Suc k) q (xs @ [m]) = Inr r2"
      by (auto simp: hrw_assign_simps split: option.splits)
    from Suc.IH [OF this] show ?case by auto
  qed simp
  obtain ms where ms: "ns = n # ms" using pre [OF n(2)] by auto
  have len: "length ms = r" using Suc.prems(2) ms by simp
  have nfree: "n \<in> set (free_nodes el as)" using hrw.argbest_max [OF n(1)] by blast
  define n' where "n' = (if hrw_better oid i spare n then spare else n)"
  have n': "argbest (hrw_better oid i) (free_nodes el' as') = Some n'"
    using hrw.argbest_insert [OF Suc.prems(3) n(1)] by (simp add: n'_def)
  define spare' where "spare' = (if hrw_better oid i spare n then n else spare)"
  have e: "set (free_nodes xs (ys @ [z])) = set (free_nodes xs ys) - {z}" for xs ys z by auto
  have free: "set (free_nodes el' (as' @ [n'])) = insert spare' (set (free_nodes el (as @ [n])))"
    "spare' \<notin> set (free_nodes el (as @ [n]))"
    unfolding e Suc.prems(3) using Suc.prems(4) nfree by (auto simp: n'_def spare'_def)
  obtain ms' where ms': "hrw_assign oid el' (Suc i) r (as' @ [n']) = Inr ((as' @ [n']) @ ms')"
    "length ms' = r" "set ms' \<subseteq> insert spare' (set ms)"
    "\<forall>j<r. ms' ! j = ms ! j \<or> hrw_better oid (Suc i + j) (ms' ! j) (ms ! j)"
    "spare' \<notin> set ms' \<longrightarrow> ms' = ms"
    using Suc.IH [of "Suc i" "as @ [n]" ms "as' @ [n']" spare'] n(2) ms len free by auto
  have "\<forall>j<Suc r. (n' # ms') ! j = ns ! j \<or> hrw_better oid (i + j) ((n' # ms') ! j) (ns ! j)"
    using ms'(4) by (auto simp: ms n'_def nth_Cons split: nat.splits)
  moreover have "set (n' # ms') \<subseteq> insert spare (set ns)"
    using ms'(3) by (auto simp: ms n'_def spare'_def split: if_splits)
  moreover have "spare \<notin> set (n' # ms') \<longrightarrow> n' # ms' = ns"
    using ms'(5) by (auto simp: ms n'_def spare'_def split: if_splits)
  ultimately show ?case using ms' n' by (intro exI [of _ "n' # ms'"]) (auto simp: hrw_assign_simps)
qed auto

lemma hrw_assign_error: "hrw_assign oid el i r as = Inl e \<Longrightarrow> e = UndefinedBehaviour"
  by (induction r arbitrary: i as) (auto simp: hrw_assign_simps split: option.splits)

lemma hrw_assign_distinct:
  "hrw_assign oid el i r as = Inr ns \<Longrightarrow> distinct as \<Longrightarrow> set as \<subseteq> set el \<Longrightarrow>
   distinct ns \<and> set ns \<subseteq> set el \<and> length ns = length as + r"
proof (induction r arbitrary: i as)
  case (Suc r)
  then obtain n where n: "argbest (hrw_better oid i) (free_nodes el as) = Some n"
    "hrw_assign oid el (Suc i) r (as @ [n]) = Inr ns"
    by (auto simp: hrw_assign_simps split: option.splits)
  then have "n \<in> set (free_nodes el as)" using hrw.argbest_max by blast
  then show ?case using Suc.IH [OF n(2)] Suc.prems by auto
qed simp

lemma hrw_intended_ok:
  assumes "t \<le> card (set el)"
  shows "\<exists>ns. hrw_intended_nodes oid el t = Inr ns \<and> length ns = t \<and> distinct ns \<and> set ns \<subseteq> set el"
proof -
  have "t \<le> length el" using assms card_length le_trans by blast
  then show ?thesis using hrw_assign_total [of "[]" el t oid 0] assms by (simp add: hrw_intended_nodes_def)
qed

lemma hrw_intended_shape:
  "hrw_intended_nodes oid el t = Inr ns \<Longrightarrow> distinct ns \<and> set ns \<subseteq> set el \<and> length ns = t"
  using hrw_assign_distinct [of oid el 0 t "[]" ns] by (simp add: hrw_intended_nodes_def split: if_splits)

lemma hrw_intended_add:
  assumes "distinct el" and "x \<notin> set el" and "distinct el'" and "set el' = insert x (set el)"
    and "hrw_intended_nodes oid el t = Inr ns"
  shows "\<exists>ns'. hrw_intended_nodes oid el' t = Inr ns' \<and> set ns' \<subseteq> insert x (set ns) \<and>
    (\<forall>i<t. ns' ! i = ns ! i \<or> hrw_better oid i (ns' ! i) (ns ! i)) \<and> (x \<notin> set ns' \<longrightarrow> ns' = ns)"
proof -
  have len: "t \<le> length el" "hrw_assign oid el 0 t [] = Inr ns"
    using assms(5) by (auto simp: hrw_intended_nodes_def split: if_splits)
  have "length el' = Suc (length el)"
    using assms(1-4) by (metis card_insert_disjoint distinct_card List.finite_set)
  moreover have "length ns = t" using hrw_intended_shape [OF assms(5)] by simp
  moreover have "\<exists>ns'. hrw_assign oid el' 0 t [] = Inr ([] @ ns') \<and> length ns' = t \<and>
      set ns' \<subseteq> insert x (set ns) \<and> (\<forall>j<t. ns' ! j = ns ! j \<or> hrw_better oid (0 + j) (ns' ! j) (ns ! j)) \<and>
      (x \<notin> set ns' \<longrightarrow> ns' = ns)"
    using assms(2,4) len(2) calculation(2) by (intro hrw_assign_add [of oid el 0 t "[]"]) auto
  ultimately show ?thesis using len(1) by (auto simp: hrw_intended_nodes_def)
qed

section \<open>Properties\<close>

text \<open>
  C36: Placement decides exactly: it returns one node per shard, all distinct and all eligible,
  precisely when there are enough distinct eligible nodes; otherwise it throws, or, when enough
  addresses are listed but some repeat, dereferences a null pointer.
\<close>

theorem hrw_intended_nodes_outcome:
  "case hrw_intended_nodes object_id eligible_nodes total_shards of
     Inl e \<Rightarrow> card (set eligible_nodes) < total_shards \<and>
       e = (if length eligible_nodes < total_shards
            then RuntimeError ''hrw_intended_nodes: not enough eligible nodes for number of shards''
            else UndefinedBehaviour)
   | Inr nodes \<Rightarrow> total_shards \<le> card (set eligible_nodes) \<and> length nodes = total_shards \<and>
       distinct nodes \<and> set nodes \<subseteq> set eligible_nodes"
proof (cases "hrw_intended_nodes object_id eligible_nodes total_shards")
  case (Inl e)
  have "card (set eligible_nodes) < total_shards"
    using Inl hrw_intended_ok [of total_shards eligible_nodes object_id] by (cases "total_shards \<le> card (set eligible_nodes)") auto
  with Inl show ?thesis by (auto simp: hrw_intended_nodes_def split: if_splits dest: hrw_assign_error)
next
  case (Inr nodes)
  then have s: "distinct nodes" "set nodes \<subseteq> set eligible_nodes" "length nodes = total_shards"
    using hrw_intended_shape by blast+
  then have "total_shards \<le> card (set eligible_nodes)" by (metis List.finite_set card_mono distinct_card)
  with Inr s show ?thesis by simp
qed

text \<open>
  C37: Placement depends on the set of registered nodes, not on the order the registry lists them in.
\<close>

theorem hrw_order_independent:
  assumes "distinct nodes" and "distinct nodes'" and "set nodes = set nodes'"
  shows "hrw_intended_nodes object_id nodes total_shards = hrw_intended_nodes object_id nodes' total_shards"
proof -
  have "length nodes = length nodes'" using assms by (metis distinct_card)
  with assms show ?thesis using hrw_assign_set [of nodes nodes'] by (simp add: hrw_intended_nodes_def)
qed

lemma hrw_order_independent_witness:
  "hrw_intended_nodes ''o'' [''a'', ''b'', ''c''] 2 = hrw_intended_nodes ''o'' [''c'', ''a'', ''b''] 2"
  by (rule hrw_order_independent) auto

text \<open>
  Registering one more node: every shard that moves goes to a node of higher rank for it, and
  the new placement uses the new node at most, no other node that was not already in use.
\<close>

theorem hrw_add_node:
  assumes "distinct nodes" and "x \<notin> set nodes" and "distinct nodes'" and "set nodes' = insert x (set nodes)"
    and "hrw_intended_nodes object_id nodes total_shards = Inr placement"
  shows "\<exists>placement'. hrw_intended_nodes object_id nodes' total_shards = Inr placement' \<and>
    set placement' \<subseteq> insert x (set placement) \<and>
    (\<forall>i<total_shards. placement' ! i = placement ! i \<or> hrw_better object_id i (placement' ! i) (placement ! i)) \<and>
    (x \<notin> set placement' \<longrightarrow> placement' = placement)"
  by (rule hrw_intended_add [OF assms])

text \<open>
  Dropping a node that holds none of an object's shards leaves the placement of that object
  as it was.
\<close>

theorem hrw_drop_unused_node:
  assumes "distinct nodes" and "x \<notin> set placement"
    and "hrw_intended_nodes object_id nodes total_shards = Inr placement"
  shows "hrw_intended_nodes object_id (remove1 x nodes) total_shards = Inr placement"
proof (cases "x \<in> set nodes")
  case True
  have s: "distinct placement" "set placement \<subseteq> set nodes - {x}" "length placement = total_shards"
    using hrw_intended_shape [OF assms(3)] assms(2) by auto
  then have "total_shards \<le> card (set (remove1 x nodes))"
    using assms(1) by (metis List.finite_set card_mono distinct_card set_remove1_eq)
  then obtain ns where ns: "hrw_intended_nodes object_id (remove1 x nodes) total_shards = Inr ns"
    using hrw_intended_ok by blast
  have "\<exists>ns'. hrw_intended_nodes object_id nodes total_shards = Inr ns' \<and> set ns' \<subseteq> insert x (set ns) \<and>
    (\<forall>i<total_shards. ns' ! i = ns ! i \<or> hrw_better object_id i (ns' ! i) (ns ! i)) \<and> (x \<notin> set ns' \<longrightarrow> ns' = ns)"
    using assms(1) True by (intro hrw_intended_add [OF _ _ _ _ ns]) auto
  with ns assms(2,3) show ?thesis by auto
qed (use assms in \<open>simp add: remove1_idem\<close>)

text \<open>
  One new node can move several shards of an object: the shard that loses its node to the
  new one leaves that node to a later shard, which prefers it.
\<close>

theorem hrw_add_node_cascades:
  "hrw_intended_nodes ''a'' [''a'', ''b''] 2 = Inr [''a'', ''b''] \<and>
   hrw_intended_nodes ''a'' [''a'', ''b'', ''d''] 2 = Inr [''d'', ''a'']"
  by code_simp

lemma hrw_add_node_witness:
  "\<exists>placement'. hrw_intended_nodes ''a'' [''a'', ''b'', ''d''] 2 = Inr placement' \<and>
    set placement' \<subseteq> insert ''d'' (set [''a'', ''b'']) \<and>
    (\<forall>i<2. placement' ! i = [''a'', ''b''] ! i \<or> hrw_better ''a'' i (placement' ! i) ([''a'', ''b''] ! i)) \<and>
    (''d'' \<notin> set placement' \<longrightarrow> placement' = [''a'', ''b''])"
proof -
  have "hrw_intended_nodes ''a'' [''a'', ''b''] 2 = Inr [''a'', ''b'']" by code_simp
  then show ?thesis by (intro hrw_add_node) auto
qed

lemma hrw_drop_unused_node_witness:
  "hrw_intended_nodes ''a'' [''a'', ''d''] 2 = Inr [''d'', ''a'']"
proof -
  have "hrw_intended_nodes ''a'' [''a'', ''b'', ''d''] 2 = Inr [''d'', ''a'']" by code_simp
  then have "hrw_intended_nodes ''a'' (remove1 ''b'' [''a'', ''b'', ''d'']) 2 = Inr [''d'', ''a'']"
    by (intro hrw_drop_unused_node) auto
  then show ?thesis by simp
qed

text \<open>
  The published FNV-1a value of \<open>a\<close> is not what the code computes: its offset basis lacks the
  last digit of the standard one.
\<close>

lemma fnv1a64_nonstandard: "fnv1a64 ''a'' \<noteq> 0xaf63dc4c8601ec8c"
  by code_simp

end
