(* ===== verification/Shard_Keys.thy ===== *)
theory Shard_Keys
  imports Models
begin

text \<open>
  The pure half of \<^verbatim>\<open>core/ShardTransport.cpp\<close>: node addresses, shard keys
  (\<open>object_id/version/index\<close>), placements (node to list of key and payload) and the shard
  locations (\<open>node/key\<close>) the catalog stores.
\<close>

section \<open>Addresses and keys\<close>

definition parse_address :: "string \<Rightarrow> (string \<times> int) res" where
  "parse_address address =
     (case rfind_char (CHR '':'') address of
        None \<Rightarrow> Inl (RuntimeError (''parse_address: invalid address: '' @ address))
      | Some pos \<Rightarrow> bind_res (stoi (drop (pos + 1) address))
                     (\<lambda>port. Inr (substr address 0 pos, port)))"

definition make_shard_key :: "string \<Rightarrow> string \<Rightarrow> 32 word \<Rightarrow> string res" where
  "make_shard_key object_id version shard_index =
     (if object_id = [] \<or> version = [] then
        Inl (InvalidArgument ''make_shard_key: object_id and version must be non-empty'')
      else if find_char (CHR ''/'') object_id \<noteq> None \<or> find_char (CHR ''/'') version \<noteq> None then
        Inl (InvalidArgument (''make_shard_key: object_id/version must not contain '' @
             [CHR 0x27, CHR ''/'', CHR 0x27]))
      else Inr (object_id @ ''/'' @ version @ ''/'' @ to_string (unat shard_index)))"

record parsed_shard_key =
  pk_object_id :: string
  pk_version :: string
  pk_shard_index :: "32 word"

definition parse_shard_key :: "string \<Rightarrow> parsed_shard_key res" where
  "parse_shard_key location =
     (let bad = Inl (RuntimeError ''parse_shard_key: invalid key format'') in
      case find_char (CHR ''/'') location of
        None \<Rightarrow> bad
      | Some first \<Rightarrow>
          (case find_char_from (CHR ''/'') location (first + 1) of
             None \<Rightarrow> bad
           | Some second \<Rightarrow>
               if find_char_from (CHR ''/'') location (second + 1) \<noteq> None then bad
               else let object_id = substr location 0 first;
                        version = substr location (first + 1) (second - first - 1)
                 in if object_id = [] \<or> version = [] \<or> length location \<le> second + 1 then bad
                    else case stoul (drop (second + 1) location) of
                        Inl _ \<Rightarrow> Inl (RuntimeError ''parse_shard_key: invalid shard index'')
                      | Inr idx \<Rightarrow>
                          if 4294967295 < int idx
                          then Inl (RuntimeError ''parse_shard_key: invalid shard index'')
                          else Inr \<lparr>pk_object_id = object_id, pk_version = version,
                                    pk_shard_index = word_of_nat idx\<rparr>))"

section \<open>Placements and locations\<close>

type_synonym placement_map = "(string \<times> (string \<times> bytes) list) list"
type_synonym shard_location_map = "(string \<times> string list) list"

fun placement_loop ::
    "string \<Rightarrow> string \<Rightarrow> nat \<Rightarrow> (string \<times> bytes) list \<Rightarrow> placement_map \<Rightarrow> placement_map res" where
  "placement_loop object_id version i [] placement = Inr placement"
| "placement_loop object_id version i ((node_address, shard) # rest) placement =
     bind_res (make_shard_key object_id version (word_of_nat i)) (\<lambda>location.
       placement_loop object_id version (Suc i) rest
         (um_push placement node_address (location, shard)))"

definition placement_strategy ::
    "string \<Rightarrow> string \<Rightarrow> bytes list \<Rightarrow> string list \<Rightarrow> placement_map res" where
  "placement_strategy object_id version serialized_shards eligible_nodes =
     (if length eligible_nodes < length serialized_shards then
        Inl (RuntimeError ''placement_strategy: not enough eligible nodes for number of shards'')
      else placement_loop object_id version 0 (zip eligible_nodes serialized_shards) [])"

text \<open>\<open>shard_locations.at(i) = s\<close> throws when \<open>i\<close> is past the end.\<close>

fun store_entries ::
    "string \<Rightarrow> (string \<times> bytes) list \<Rightarrow> string list \<Rightarrow> string list res" where
  "store_entries node_address [] locs = Inr locs"
| "store_entries node_address ((location, payload) # rest) locs =
     bind_res (parse_shard_key location) (\<lambda>parsed.
       if unat (pk_shard_index parsed) < length locs
       then store_entries node_address rest
              (locs[unat (pk_shard_index parsed) := node_address @ ''/'' @ location])
       else Inl (OutOfRange ''vector::at''))"

fun store_placement :: "placement_map \<Rightarrow> string list \<Rightarrow> string list res" where
  "store_placement [] locs = Inr locs"
| "store_placement ((node_address, entries) # rest) locs =
     bind_res (store_entries node_address entries locs) (store_placement rest)"

definition build_shard_locations ::
    "(string list \<Rightarrow> string list) \<Rightarrow> placement_map \<Rightarrow> string list res" where
  "build_shard_locations ord placement =
     store_placement (um_iter ord placement)
       (replicate (sum_list (map (\<lambda>(node_address, entries). length entries) placement)) [])"

text \<open>The split at the first slash: node address, shard key.\<close>

definition split_location :: "string \<Rightarrow> (string \<times> string) option" where
  "split_location shard_location =
     (case find_char (CHR ''/'') shard_location of
        None \<Rightarrow> None
      | Some pos \<Rightarrow> Some (substr shard_location 0 pos, drop (pos + 1) shard_location))"

fun parse_locations_loop :: "string list \<Rightarrow> shard_location_map \<Rightarrow> shard_location_map res" where
  "parse_locations_loop [] m = Inr m"
| "parse_locations_loop (shard_location # rest) m =
     (case split_location shard_location of
        None \<Rightarrow> Inl (RuntimeError ''parse_shard_locations: invalid shard location'')
      | Some (node_address, location) \<Rightarrow>
          parse_locations_loop rest (um_push m node_address location))"

definition parse_shard_locations :: "string list \<Rightarrow> shard_location_map res" where
  "parse_shard_locations shard_locations = parse_locations_loop shard_locations []"

section \<open>Keys: lemmas\<close>

lemma make_shard_key_Inr:
  "make_shard_key oid ver idx = Inr key \<longleftrightarrow>
     oid \<noteq> [] \<and> ver \<noteq> [] \<and> CHR ''/'' \<notin> set oid \<and> CHR ''/'' \<notin> set ver \<and>
     key = oid @ ''/'' @ ver @ ''/'' @ to_string (unat idx)"
  by (auto simp: make_shard_key_def)

lemma find_from_append:
  "c \<notin> set b \<Longrightarrow> find_char_from c (a @ b @ c # r) (length a) = Some (length a + length b)"
  by (simp add: find_char_from_def find_char_append)

lemma find_from_none: "c \<notin> set b \<Longrightarrow> find_char_from c (a @ b) (length a) = None"
  by (simp add: find_char_from_def)

lemma parse_key_parts:
  assumes "CHR ''/'' \<notin> set oid" "CHR ''/'' \<notin> set ver" "CHR ''/'' \<notin> set rest" "oid \<noteq> []" "ver \<noteq> []" "rest \<noteq> []"
  shows "parse_shard_key (oid @ ''/'' @ ver @ ''/'' @ rest) =
    (case stoul rest of
       Inl _ \<Rightarrow> Inl (RuntimeError ''parse_shard_key: invalid shard index'')
     | Inr idx \<Rightarrow> if 4294967295 < int idx
         then Inl (RuntimeError ''parse_shard_key: invalid shard index'')
         else Inr \<lparr>pk_object_id = oid, pk_version = ver, pk_shard_index = word_of_nat idx\<rparr>)"
proof -
  let ?l = "oid @ ''/'' @ ver @ ''/'' @ rest"
  have f1: "find_char (CHR ''/'') ?l = Some (length oid)" using assms(1) by (simp add: find_char_append)
  have f2: "find_char_from (CHR ''/'') ?l (length oid + 1) = Some (length oid + 1 + length ver)"
    using find_from_append [OF assms(2), of "oid @ ''/''" rest] by simp
  have f3: "find_char_from (CHR ''/'') ?l (length oid + 1 + length ver + 1) = None"
    using find_from_none [OF assms(3), of "oid @ ''/'' @ ver @ ''/''"] by simp
  have d: "drop (length oid + 1 + length ver + 1) ?l = rest" by simp
  have s: "substr ?l 0 (length oid) = oid"
    "substr ?l (length oid + 1) (length oid + 1 + length ver - length oid - 1) = ver"
    by (simp_all add: substr_def)
  show ?thesis
    unfolding parse_shard_key_def f1 f2 f3 option.case Let_def d s using assms by simp
qed

lemma parse_make_key:
  "make_shard_key oid ver idx = Inr key \<Longrightarrow>
   parse_shard_key key = Inr \<lparr>pk_object_id = oid, pk_version = ver, pk_shard_index = idx\<rparr>"
proof -
  assume "make_shard_key oid ver idx = Inr key"
  then have k: "oid \<noteq> []" "ver \<noteq> []" "CHR ''/'' \<notin> set oid" "CHR ''/'' \<notin> set ver"
    "key = oid @ ''/'' @ ver @ ''/'' @ to_string (unat idx)" by (auto simp: make_shard_key_Inr)
  have b: "unat idx < 2 ^ LENGTH(32)" by (rule unsigned_less)
  then have "stoul (to_string (unat idx)) = Inr (unat idx)" by (intro stoul_to_string) simp
  then show ?thesis
    unfolding k(5) using b parse_key_parts [OF k(3,4) _ k(1,2), of "to_string (unat idx)"]
      uint_lt2p [of idx] by simp
qed

section \<open>Placements: lemmas\<close>

text \<open>The location string of shard \<open>i\<close> on a node.\<close>

definition shard_key_of :: "string \<Rightarrow> string \<Rightarrow> nat \<Rightarrow> string" where
  "shard_key_of oid ver i = oid @ ''/'' @ ver @ ''/'' @ to_string i"

definition location_of :: "string \<Rightarrow> string \<Rightarrow> string \<Rightarrow> nat \<Rightarrow> string" where
  "location_of node oid ver i = node @ ''/'' @ shard_key_of oid ver i"

definition key_parts_ok :: "string \<Rightarrow> string \<Rightarrow> bool" where
  "key_parts_ok oid ver \<longleftrightarrow> oid \<noteq> [] \<and> ver \<noteq> [] \<and> CHR ''/'' \<notin> set oid \<and> CHR ''/'' \<notin> set ver"

lemma make_key_ok:
  "key_parts_ok oid ver \<Longrightarrow> i < 4294967296 \<Longrightarrow>
   make_shard_key oid ver (word_of_nat i) = Inr (shard_key_of oid ver i)"
  by (simp add: make_shard_key_Inr key_parts_ok_def shard_key_of_def unsigned_of_nat take_bit_nat_eq_self)

lemma parse_key_of:
  "key_parts_ok oid ver \<Longrightarrow> i < 4294967296 \<Longrightarrow>
   parse_shard_key (shard_key_of oid ver i) =
     Inr \<lparr>pk_object_id = oid, pk_version = ver, pk_shard_index = word_of_nat i\<rparr>"
  using parse_make_key make_key_ok by blast

lemma placement_loop_pushed:
  assumes "key_parts_ok oid ver" and "i + length pairs \<le> 4294967296" and "distinct (map fst m)"
  shows "\<exists>p. placement_loop oid ver i pairs m = Inr p \<and> distinct (map fst p) \<and>
    (\<forall>a. pushed p a = pushed m a @ map (\<lambda>(j, n, s). (shard_key_of oid ver j, s))
       (filter (\<lambda>(j, n, s). n = a) (zip [i..<i + length pairs] pairs))) \<and>
    fst ` set p = fst ` set m \<union> fst ` set pairs"
  using assms(2,3)
proof (induction pairs arbitrary: i m)
  case (Cons x pairs)
  obtain n s where x: "x = (n, s)" by (cases x)
  let ?m = "um_push m n (shard_key_of oid ver i, s)"
  have "make_shard_key oid ver (word_of_nat i) = Inr (shard_key_of oid ver i)"
    using assms(1) Cons.prems by (intro make_key_ok) auto
  then have step: "placement_loop oid ver i (x # pairs) m = placement_loop oid ver (Suc i) pairs ?m"
    by (simp add: x)
  have up: "[i..<i + length (x # pairs)] = i # [Suc i..<Suc i + length pairs]"
    using upt_conv_Cons [of i "Suc (i + length pairs)"] by simp
  obtain p where "placement_loop oid ver (Suc i) pairs ?m = Inr p" "distinct (map fst p)"
    "\<forall>a. pushed p a = pushed ?m a @ map (\<lambda>(j, n, s). (shard_key_of oid ver j, s))
       (filter (\<lambda>(j, n, s). n = a) (zip [Suc i..<Suc i + length pairs] pairs))"
    "fst ` set p = fst ` set ?m \<union> fst ` set pairs"
    using Cons.IH [of "Suc i" ?m] Cons.prems by auto
  then show ?case unfolding step up by (intro exI [of _ p]) (auto simp: x)
qed simp

lemma shard_key_of_inj: "shard_key_of oid ver i = shard_key_of oid ver j \<longleftrightarrow> i = j"
  by (auto simp: shard_key_of_def dest: to_string_inj)

abbreviation entry_count :: "placement_map \<Rightarrow> nat" where
  "entry_count p \<equiv> sum_list (map (\<lambda>(node_address, entries). length entries) p)"

lemma entry_count_push: "entry_count (um_push m k v) = Suc (entry_count m)"
  by (induction m k v rule: um_push.induct) auto

lemma placement_loop_count:
  "placement_loop oid ver i pairs m = Inr p \<Longrightarrow> entry_count p = entry_count m + length pairs"
  by (induction oid ver i pairs m rule: placement_loop.induct) (auto simp: entry_count_push)

lemma placement_strategy_ok:
  assumes "key_parts_ok oid ver" "length shards \<le> length nodes" "length shards \<le> 4294967296"
  shows "\<exists>p. placement_strategy oid ver shards nodes = Inr p \<and> distinct (map fst p) \<and>
    entry_count p = length shards \<and> fst ` set p = set (take (length shards) nodes) \<and>
    (\<forall>a. pushed p a = map (\<lambda>j. (shard_key_of oid ver j, shards ! j))
       (filter (\<lambda>j. nodes ! j = a) [0..<length shards]))"
proof -
  let ?n = "length shards"
  let ?pairs = "zip nodes shards"
  have len: "length ?pairs = ?n" using assms(2) by simp
  obtain p where p: "placement_loop oid ver 0 ?pairs [] = Inr p" "distinct (map fst p)"
    "\<forall>a. pushed p a = map (\<lambda>(j, n, s). (shard_key_of oid ver j, s))
       (filter (\<lambda>(j, n, s). n = a) (zip [0..<length ?pairs] ?pairs))"
    "fst ` set p = fst ` set ?pairs"
    using placement_loop_pushed [OF assms(1), of 0 ?pairs "[]"] len assms(3) by auto
  have z: "zip [0..<length ?pairs] ?pairs = map (\<lambda>j. (j, nodes ! j, shards ! j)) [0..<?n]"
    using assms(2) by (auto intro: nth_equalityI)
  have "pushed p a = map (\<lambda>j. (shard_key_of oid ver j, shards ! j))
       (filter (\<lambda>j. nodes ! j = a) [0..<?n])" for a
    unfolding p(3) [rule_format] z filter_map by (simp add: comp_def)
  moreover have "fst ` set ?pairs = set (take ?n nodes)"
  proof -
    have "map fst ?pairs = take ?n nodes" using assms(2) by (simp add: map_fst_zip_take min_def)
    then show ?thesis by (metis list.set_map)
  qed
  moreover have "entry_count p = ?n" using placement_loop_count [OF p(1)] len by simp
  moreover have "placement_strategy oid ver shards nodes = Inr p"
    using assms(2) p(1) by (simp add: placement_strategy_def)
  ultimately show ?thesis using p by auto
qed

lemma store_entries_spec:
  assumes "key_parts_ok oid ver" and "length locs \<le> 4294967296"
    and "\<forall>k\<in>fst ` set es. \<exists>j<length locs. k = shard_key_of oid ver j \<and> nodes ! j = a"
  shows "\<exists>locs'. store_entries a es locs = Inr locs' \<and> length locs' = length locs \<and>
    (\<forall>j<length locs. locs' ! j = (if shard_key_of oid ver j \<in> fst ` set es
                                then location_of (nodes ! j) oid ver j else locs ! j))"
  using assms(2,3)
proof (induction es arbitrary: locs)
  case (Cons e es)
  obtain k s where e: "e = (k, s)" by (cases e)
  obtain j where j: "j < length locs" "k = shard_key_of oid ver j" "nodes ! j = a"
    using Cons.prems(2) e by auto
  then have pk: "parse_shard_key k = Inr \<lparr>pk_object_id = oid, pk_version = ver, pk_shard_index = word_of_nat j\<rparr>"
    and u: "unat (word_of_nat j :: 32 word) = j"
    using assms(1) Cons.prems(1) by (auto intro!: parse_key_of simp: unsigned_of_nat take_bit_nat_eq_self)
  let ?locs = "locs[j := a @ ''/'' @ k]"
  have step: "store_entries a (e # es) locs = store_entries a es ?locs"
    using pk j(1) by (simp add: e u)
  obtain locs' where l: "store_entries a es ?locs = Inr locs'" "length locs' = length locs"
    "\<forall>i<length locs. locs' ! i = (if shard_key_of oid ver i \<in> fst ` set es
        then location_of (nodes ! i) oid ver i else ?locs ! i)"
    using Cons.IH [of ?locs] Cons.prems by auto
  have "locs' ! i = (if shard_key_of oid ver i \<in> fst ` set (e # es)
        then location_of (nodes ! i) oid ver i else locs ! i)" if "i < length locs" for i
    using l(3) that j by (auto simp: e shard_key_of_inj location_of_def nth_list_update)
  then have "\<forall>i<length locs. locs' ! i = (if shard_key_of oid ver i \<in> fst ` set (e # es)
        then location_of (nodes ! i) oid ver i else locs ! i)" by blast
  with step l(1,2) show ?case by (intro exI [of _ locs']) auto
qed simp

lemma store_placement_spec:
  assumes "key_parts_ok oid ver" and "length locs \<le> 4294967296"
    and "\<forall>(a, es)\<in>set p. \<forall>k\<in>fst ` set es. \<exists>j<length locs. k = shard_key_of oid ver j \<and> nodes ! j = a"
  shows "\<exists>locs'. store_placement p locs = Inr locs' \<and> length locs' = length locs \<and>
    (\<forall>j<length locs. locs' ! j = (if \<exists>(a, es)\<in>set p. shard_key_of oid ver j \<in> fst ` set es
                                then location_of (nodes ! j) oid ver j else locs ! j))"
  using assms(2,3)
proof (induction p arbitrary: locs)
  case (Cons x p)
  obtain a es where x: "x = (a, es)" by (cases x)
  obtain l1 where l1: "store_entries a es locs = Inr l1" "length l1 = length locs"
    "\<forall>j<length locs. l1 ! j = (if shard_key_of oid ver j \<in> fst ` set es
        then location_of (nodes ! j) oid ver j else locs ! j)"
    using store_entries_spec [OF assms(1) Cons.prems(1), of es nodes a] Cons.prems(2) x by auto
  obtain l2 where l2: "store_placement p l1 = Inr l2" "length l2 = length l1"
    "\<forall>j<length l1. l2 ! j = (if \<exists>(a, es)\<in>set p. shard_key_of oid ver j \<in> fst ` set es
        then location_of (nodes ! j) oid ver j else l1 ! j)"
    using Cons.IH [of l1] Cons.prems l1(2) by auto
  then have "store_placement (x # p) locs = Inr l2" using l1(1) by (simp add: x)
  moreover have "\<forall>j<length locs. l2 ! j = (if \<exists>(a, es)\<in>set (x # p). shard_key_of oid ver j \<in> fst ` set es
        then location_of (nodes ! j) oid ver j else locs ! j)"
    using l2(3) l1(2,3) by (auto simp: x)
  ultimately show ?case using l1(2) l2(2) by auto
qed simp

lemma build_locations_of_placement:
  assumes ok: "key_parts_ok oid ver" "length shards \<le> length nodes" "length shards \<le> 4294967296"
    and ord: "order_ok ord" and p: "placement_strategy oid ver shards nodes = Inr p"
  shows "build_shard_locations ord p =
    Inr (map (\<lambda>i. location_of (nodes ! i) oid ver i) [0..<length shards])"
proof -
  let ?n = "length shards" and ?q = "um_iter ord p"
  have d: "distinct (map fst p)" and c: "entry_count p = ?n"
    and pu: "\<And>a. pushed p a = map (\<lambda>j. (shard_key_of oid ver j, shards ! j))
       (filter (\<lambda>j. nodes ! j = a) [0..<?n])"
    and ks: "fst ` set p = set (take ?n nodes)"
    using placement_strategy_ok [OF ok] p by auto
  have es: "es = pushed p a" if "(a, es) \<in> set p" for a es
    using that d by (simp add: pushed_def)
  have q: "set ?q = set p" by (rule um_iter_set [OF ord d])
  have "\<exists>locs'. store_placement ?q (replicate ?n []) = Inr locs' \<and> length locs' = ?n \<and>
    (\<forall>j<?n. locs' ! j = (if \<exists>(a, es)\<in>set ?q. shard_key_of oid ver j \<in> fst ` set es
                                then location_of (nodes ! j) oid ver j else replicate ?n [] ! j))"
    using store_placement_spec [OF ok(1), of "replicate ?n []" ?q nodes] ok(3) es
    by (fastforce simp: q pu)
  then obtain locs' where l: "store_placement ?q (replicate ?n []) = Inr locs'" "length locs' = ?n"
    "\<And>j. j < ?n \<Longrightarrow> locs' ! j = (if \<exists>(a, es)\<in>set ?q. shard_key_of oid ver j \<in> fst ` set es
        then location_of (nodes ! j) oid ver j else replicate ?n [] ! j)" by blast
  have "\<exists>(a, es)\<in>set ?q. shard_key_of oid ver j \<in> fst ` set es" if j: "j < ?n" for j
  proof -
    have "nodes ! j \<in> fst ` set p" unfolding ks using j ok(2) by (auto simp: in_set_conv_nth)
    then obtain es' where "(nodes ! j, es') \<in> set p" by auto
    moreover have "shard_key_of oid ver j \<in> fst ` set es'"
      using es [OF calculation] j by (force simp: pu)
    ultimately show ?thesis unfolding q by blast
  qed
  then have "locs' = map (\<lambda>i. location_of (nodes ! i) oid ver i) [0..<?n]"
    using l by (intro nth_equalityI) auto
  then show ?thesis using l(1) c by (simp add: build_shard_locations_def)
qed

section \<open>Locations: lemmas\<close>

lemma split_location_of:
  "CHR ''/'' \<notin> set node \<Longrightarrow> split_location (location_of node oid ver i) = Some (node, shard_key_of oid ver i)"
  by (simp add: split_location_def location_of_def find_char_append substr_def)

lemma parse_locations_loop_pushed:
  assumes "\<forall>l\<in>set locs. split_location l \<noteq> None" and "distinct (map fst m)"
  shows "\<exists>r. parse_locations_loop locs m = Inr r \<and> distinct (map fst r) \<and>
    (\<forall>a. pushed r a = pushed m a @
       map snd (filter (\<lambda>x. fst x = a) (map (\<lambda>l. the (split_location l)) locs))) \<and>
    fst ` set r = fst ` set m \<union> (\<lambda>l. fst (the (split_location l))) ` set locs"
  using assms
proof (induction locs arbitrary: m)
  case (Cons l locs)
  obtain a k where ak: "split_location l = Some (a, k)" using Cons.prems by (cases "split_location l") auto
  obtain r where "parse_locations_loop locs (um_push m a k) = Inr r" "distinct (map fst r)"
    "\<forall>b. pushed r b = pushed (um_push m a k) b @
       map snd (filter (\<lambda>x. fst x = b) (map (\<lambda>l. the (split_location l)) locs))"
    "fst ` set r = fst ` set (um_push m a k) \<union> (\<lambda>l. fst (the (split_location l))) ` set locs"
    using Cons.IH [of "um_push m a k"] Cons.prems by auto
  then show ?case by (intro exI [of _ r]) (auto simp: ak)
qed simp

lemma parse_locations_placed:
  assumes "\<forall>node\<in>set nodes. CHR ''/'' \<notin> set node"
  shows "\<exists>m. parse_shard_locations (map (\<lambda>i. location_of (nodes ! i) object_id version i) [0..<length nodes]) = Inr m \<and>
    distinct (map fst m) \<and> fst ` set m = set nodes \<and>
    (\<forall>node\<in>set nodes. pushed m node = map (shard_key_of object_id version) (filter (\<lambda>i. nodes ! i = node) [0..<length nodes]))"
proof -
  have s: "split_location (location_of (nodes ! i) object_id version i) = Some (nodes ! i, shard_key_of object_id version i)"
    if "i < length nodes" for i using assms that by (simp add: split_location_of)
  let ?locs = "map (\<lambda>i. location_of (nodes ! i) object_id version i) [0..<length nodes]"
  obtain r where r: "parse_locations_loop ?locs [] = Inr r" "distinct (map fst r)"
    "\<forall>a. pushed r a = map snd (filter (\<lambda>x. fst x = a) (map (\<lambda>l. the (split_location l)) ?locs))"
    "fst ` set r = (\<lambda>l. fst (the (split_location l))) ` set ?locs"
    using parse_locations_loop_pushed [of ?locs "[]"] s by auto
  have m: "map (\<lambda>l. the (split_location l)) ?locs = map (\<lambda>i. (nodes ! i, shard_key_of object_id version i)) [0..<length nodes]"
    using s by auto
  have "fst ` set r = set nodes" unfolding r(4) using s by (force simp: in_set_conv_nth image_iff)
  moreover have "pushed r a = map (shard_key_of object_id version) (filter (\<lambda>i. nodes ! i = a) [0..<length nodes])" for a
    unfolding r(3) [rule_format] m by (simp add: filter_map comp_def)
  ultimately show ?thesis using r(1,2) by (auto simp: parse_shard_locations_def)
qed

section \<open>Properties\<close>

text \<open>
  A shard key parses back to exactly the object id, version and index it was made from; in
  particular different triples never share a key.
\<close>

theorem parse_make_shard_key:
  assumes "make_shard_key object_id version shard_index = Inr key"
  shows "parse_shard_key key =
    Inr \<lparr>pk_object_id = object_id, pk_version = version, pk_shard_index = shard_index\<rparr>"
  using assms by (rule parse_make_key)

text \<open>
  The catalog locations built from a placement are, whatever order the placement map is
  iterated in, the full positional vector: entry \<open>i\<close> is the \<open>i\<close>-th node followed by the key of shard \<open>i\<close>.
\<close>

theorem placement_locations_roundtrip:
  assumes "object_id \<noteq> []" and "version \<noteq> []" and "CHR ''/'' \<notin> set object_id" and "CHR ''/'' \<notin> set version"
    and "length shards \<le> length nodes" and "length shards \<le> 4294967296" and "order_ok ord"
  shows "bind_res (placement_strategy object_id version shards nodes) (build_shard_locations ord) =
    Inr (map (\<lambda>i. nodes ! i @ ''/'' @ object_id @ ''/'' @ version @ ''/'' @ to_string i) [0..<length shards])"
proof -
  have ok: "key_parts_ok object_id version" using assms by (simp add: key_parts_ok_def)
  obtain p where p: "placement_strategy object_id version shards nodes = Inr p"
    using placement_strategy_ok [OF ok assms(5,6)] by blast
  show ?thesis
    using build_locations_of_placement [OF ok assms(5-7) p]
    by (simp add: p location_of_def shard_key_of_def)
qed

lemma parse_make_shard_key_witness:
  "parse_shard_key ''a/1/3'' = Inr \<lparr>pk_object_id = ''a'', pk_version = ''1'', pk_shard_index = 3\<rparr>"
proof -
  have "make_shard_key ''a'' ''1'' 3 = Inr ''a/1/3''" by code_simp
  then show ?thesis by (rule parse_make_shard_key)
qed

lemma placement_locations_roundtrip_witness:
  "bind_res (placement_strategy ''o'' ''7'' [[1], [2], [3]] [''n:1'', ''m:2'', ''n:1'']) (build_shard_locations rev) =
     Inr [''n:1/o/7/0'', ''m:2/o/7/1'', ''n:1/o/7/2'']"
proof -
  have "bind_res (placement_strategy ''o'' ''7'' [[1], [2], [3]] [''n:1'', ''m:2'', ''n:1'']) (build_shard_locations rev) =
    Inr (map (\<lambda>i. [''n:1'', ''m:2'', ''n:1''] ! i @ ''/'' @ ''o'' @ ''/'' @ ''7'' @ ''/'' @ to_string i)
      [0..<length [[1], [2], [3 :: byte]]])"
    by (rule placement_locations_roundtrip) (auto simp: order_ok_def)
  also have "map (\<lambda>i. [''n:1'', ''m:2'', ''n:1''] ! i @ ''/'' @ ''o'' @ ''/'' @ ''7'' @ ''/'' @ to_string i)
      [0..<length [[1], [2], [3 :: byte]]] = [''n:1/o/7/0'', ''m:2/o/7/1'', ''n:1/o/7/2'']"
    by code_simp
  finally show ?thesis .
qed

text \<open>
  The shard index of a key is read as \<open>std::stoul\<close> reads it: leading space, a sign and
  trailing characters are accepted, so two different key strings of the store name one shard.
\<close>

theorem parse_shard_key_not_injective:
  "parse_shard_key ''o/v/3'' = parse_shard_key ''o/v/ +3x'' \<and> is_ok (parse_shard_key ''o/v/3'')"
proof -
  have d: "is_digit (CHR ''3'')" "\<not> is_digit (CHR ''x'')" "\<not> is_digit (CHR ''+'')"
    "is_space (CHR '' '')" "\<not> is_space (CHR ''+'')" "\<not> is_space (CHR ''3'')"
    "digits_value ''3'' = 3" by code_simp+
  have "stoul ''3'' = Inr 3" "stoul '' +3x'' = Inr 3"
    by (simp_all add: stoul_def split_sign_def d)
  then show ?thesis
    using parse_key_parts [of "''o''" "''v''" "''3''"] parse_key_parts [of "''o''" "''v''" "'' +3x''"] by simp
qed

text \<open>
  Reading the catalog locations of an object back groups its shard keys by node: every node
  is asked for exactly the keys stored there, in index order, and no shard is lost.
\<close>

theorem parse_locations_of_placement:
  assumes "\<forall>node\<in>set nodes. CHR ''/'' \<notin> set node"
  shows "\<exists>m. parse_shard_locations (map (\<lambda>i. location_of (nodes ! i) object_id version i) [0..<length nodes]) = Inr m \<and>
    distinct (map fst m) \<and> fst ` set m = set nodes \<and>
    (\<forall>node\<in>set nodes. pushed m node = map (shard_key_of object_id version) (filter (\<lambda>i. nodes ! i = node) [0..<length nodes]))"
  using assms by (rule parse_locations_placed)

lemma parse_locations_of_placement_witness:
  "\<exists>m. parse_shard_locations (map (\<lambda>i. location_of ([''n:1'', ''m:2'', ''n:1''] ! i) ''o'' ''7'' i) [0..<length [''n:1'', ''m:2'', ''n:1'']]) = Inr m \<and>
    distinct (map fst m) \<and> fst ` set m = set [''n:1'', ''m:2'', ''n:1''] \<and>
    (\<forall>node\<in>set [''n:1'', ''m:2'', ''n:1'']. pushed m node =
      map (shard_key_of ''o'' ''7'') (filter (\<lambda>i. [''n:1'', ''m:2'', ''n:1''] ! i = node) [0..<length [''n:1'', ''m:2'', ''n:1'']]))"
  by (rule parse_locations_of_placement) auto

end
