(* ===== verification/Http.thy ===== *)
theory Http
  imports Prelude
begin

text \<open>
  What the two servers and the client share of HTTP and JSON: requests, responses, JSON values.
  The JSON text format (nlohmann::json) is the parameter \<open>json_lib\<close>: \<open>json_dump\<close> gives \<open>None\<close>
  when it throws (a string that is not UTF-8), \<open>json_parse\<close> gives \<open>None\<close> on a parse error.
  Object members are an association list; their order carries no meaning.
\<close>

datatype json =
    JNull
  | JBool bool
  | JInt int
  | JFloat string
  | JStr string
  | JArr "json list"
  | JObj "(string \<times> json) list"

record json_lib =
  json_dump :: "json \<Rightarrow> string option"
  json_parse :: "string \<Rightarrow> json option"

text \<open>
  An object is a list of members; they are read by key, or one and all into a map, and every object
  that is dumped here is built with different keys. So the order a library keeps them in (\<^verbatim>\<open>nlohmann::json\<close> sorts them) makes
  no difference, and is taken to be the order they were given in.
\<close>

definition json_ok :: "json_lib \<Rightarrow> bool" where
  "json_ok J \<longleftrightarrow> (\<forall>j s. json_dump J j = Some s \<longrightarrow> json_parse J s = Some j)"

fun json_get :: "json \<Rightarrow> string \<Rightarrow> json option" where
  "json_get (JObj ms) k = map_of ms k"
| "json_get _ k = None"

fun is_unsigned :: "json \<Rightarrow> bool" where
  "is_unsigned (JInt n) = (0 \<le> n)"
| "is_unsigned _ = False"

fun json_string :: "json \<Rightarrow> string option" where
  "json_string (JStr s) = Some s"
| "json_string _ = None"

datatype http_verb = GET | PUT | POST | DELETE

record http_request =
  rq_params :: "(string \<times> string) list"
  rq_path_params :: "(string \<times> string) list"
  rq_body :: string

record http_response =
  rs_status :: nat
  rs_body :: string

text \<open>
  \<open>res.status = s; res.set_content(body.dump(), ...)\<close>. A handler that throws (here from
  \<open>dump\<close>) is answered by httplib with status 500.
\<close>

definition reply :: "json_lib \<Rightarrow> nat \<Rightarrow> json \<Rightarrow> http_response res" where
  "reply J s body = (case json_dump J body of
      None \<Rightarrow> Inl (LibError ''json'')
    | Some t \<Rightarrow> Inr \<lparr>rs_status = s, rs_body = t\<rparr>)"

definition reply_error :: "json_lib \<Rightarrow> nat \<Rightarrow> string \<Rightarrow> http_response res" where
  "reply_error J s msg = reply J s (JObj [(''error'', JStr msg)])"

definition reply_ok :: "json_lib \<Rightarrow> http_response res" where
  "reply_ok J = reply J 200 (JObj [(''status'', JStr ''ok'')])"

definition reply_not_found :: "http_response" where
  "reply_not_found = \<lparr>rs_status = 404, rs_body = []\<rparr>"

text \<open>
  An exception that leaves a handler is answered with 500 by the server. Undefined behaviour has no
  reply; to keep the function total it is given the same one, and what is shown of replies says
  nothing of such a run.
\<close>

fun response_of :: "http_response res \<Rightarrow> http_response" where
  "response_of (Inr r) = r"
| "response_of (Inl e) = \<lparr>rs_status = 500, rs_body = []\<rparr>"

lemma reply_status: "reply J s b = Inr r \<Longrightarrow> rs_status r = s"
  by (auto simp: reply_def split: option.splits)

lemma response_of_reply: "rs_status (response_of (reply J s b)) = s \<or> rs_status (response_of (reply J s b)) = 500"
  by (auto simp: reply_def split: option.splits)

lemma response_of_reply_error_ne_200:
  "s \<noteq> 200 \<Longrightarrow> rs_status (response_of (reply_error J s m)) \<noteq> 200"
  using response_of_reply [of J s "JObj [(''error'', JStr m)]"] by (auto simp: reply_error_def)

end
