(* ===== verification/Shard_Transport.thy ===== *)
theory Shard_Transport
  imports Shard_Keys Http "HOL-Library.Sublist"
begin

text \<open>
  The network half of \<^verbatim>\<open>core/ShardTransport.cpp\<close>. The HTTP client is a parameter \<open>send\<close>: a
  request to an address gives a response, or none when it fails, and moves the state \<open>'c\<close> of the
  nodes and of the network. What the transport relies on is the locale \<open>shard_service\<close>; the
  storage-node server provides it (theory Cluster).
\<close>

type_synonym 'c send =
  "'c \<Rightarrow> string \<Rightarrow> http_verb \<Rightarrow> string \<Rightarrow> bytes \<Rightarrow> http_response option \<times> 'c"

section \<open>The code\<close>

text \<open>
  The per-thread client cache has no effect but to skip parsing an address that parsed before;
  what can fail is \<open>parse_address\<close>.
\<close>

definition get_node_client :: "string \<Rightarrow> unit res" where
  "get_node_client node_address = bind_res (parse_address node_address) (\<lambda>(host, port). Inr ())"

definition shard_target :: "string \<Rightarrow> string" where
  "shard_target location = ''/shards?location='' @ location"

text \<open>\<open>res && res->status == 200\<close>.\<close>

definition got_200 :: "http_response option \<Rightarrow> bool" where
  "got_200 r = (case r of None \<Rightarrow> False | Some r \<Rightarrow> rs_status r = 200)"

text \<open>The task of one node: its entries in order, up to the first that fails.\<close>

fun put_entries ::
    "'c send \<Rightarrow> 'c \<Rightarrow> string \<Rightarrow> (string \<times> bytes) list \<Rightarrow> unit res \<times> 'c" where
  "put_entries send c node_address [] = (Inr (), c)"
| "put_entries send c node_address ((location, payload) # rest) =
     (case send c node_address PUT (shard_target location) payload of
        (r, c') \<Rightarrow>
          if \<not> got_200 r then
            (Inl (RuntimeError (''apply_placement: failed to PUT shard to '' @
               node_address @ ''/shards?location='' @ location)), c')
          else put_entries send c' node_address rest)"

definition put_task ::
    "'c send \<Rightarrow> 'c \<Rightarrow> string \<Rightarrow> (string \<times> bytes) list \<Rightarrow> unit res \<times> 'c" where
  "put_task send c node_address entries =
     (case get_node_client node_address of
        Inl e \<Rightarrow> (Inl e, c)
      | Inr _ \<Rightarrow> put_entries send c node_address entries)"

text \<open>
  The tasks run concurrently, one per node, and touch different nodes; the model runs them one
  after the other, in any order. All of them run, whatever fails: a future of \<open>std::async\<close> waits
  for its task when it is destroyed. The first failed future gives the exception.
\<close>

fun run_put_tasks :: "'c send \<Rightarrow> 'c \<Rightarrow> placement_map \<Rightarrow> unit res \<times> 'c" where
  "run_put_tasks send c [] = (Inr (), c)"
| "run_put_tasks send c ((node_address, entries) # rest) =
     (case put_task send c node_address entries of
        (r, c1) \<Rightarrow> (case run_put_tasks send c1 rest of
          (r', c2) \<Rightarrow> (case r of Inl e \<Rightarrow> (Inl e, c2) | Inr _ \<Rightarrow> (r', c2))))"

definition apply_placement ::
    "'c send \<Rightarrow> (string list \<Rightarrow> string list) \<Rightarrow> 'c \<Rightarrow> placement_map \<Rightarrow> unit res \<times> 'c" where
  "apply_placement send ord c placement = run_put_tasks send c (um_iter ord placement)"

text \<open>The fetch task of one node: a location that cannot be fetched or decoded is skipped.\<close>

fun fetch_locations ::
    "'c send \<Rightarrow> msgpack \<Rightarrow> 'c \<Rightarrow> string \<Rightarrow> string list \<Rightarrow> encrypted_shard list \<times> 'c" where
  "fetch_locations send M c node_address [] = ([], c)"
| "fetch_locations send M c node_address (location # rest) =
     (case send c node_address GET (shard_target location) [] of
        (r, c') \<Rightarrow> (case fetch_locations send M c' node_address rest of
          (shards, c'') \<Rightarrow>
            (if got_200 r then
               (case decode_shard M (bytes_of_string (rs_body (the r))) of
                  Inl _ \<Rightarrow> shards
                | Inr (shard, manifest) \<Rightarrow> shard # shards)
             else shards, c'')))"

definition fetch_task ::
    "'c send \<Rightarrow> msgpack \<Rightarrow> 'c \<Rightarrow> string \<Rightarrow> string list \<Rightarrow> encrypted_shard list \<times> 'c" where
  "fetch_task send M c node_address locations =
     (case get_node_client node_address of
        Inl _ \<Rightarrow> ([], c)
      | Inr _ \<Rightarrow> fetch_locations send M c node_address locations)"

fun run_fetch_tasks ::
    "'c send \<Rightarrow> msgpack \<Rightarrow> 'c \<Rightarrow> shard_location_map \<Rightarrow> encrypted_shard list \<times> 'c" where
  "run_fetch_tasks send M c [] = ([], c)"
| "run_fetch_tasks send M c ((node_address, locations) # rest) =
     (case fetch_task send M c node_address locations of
        (shards, c1) \<Rightarrow> (case run_fetch_tasks send M c1 rest of
          (shards', c2) \<Rightarrow> (shards @ shards', c2)))"

definition fetch_encrypted_shards ::
    "'c send \<Rightarrow> msgpack \<Rightarrow> (string list \<Rightarrow> string list) \<Rightarrow> 'c \<Rightarrow> shard_location_map \<Rightarrow>
     encrypted_shard list \<times> 'c" where
  "fetch_encrypted_shards send M ord c shard_location_map =
     run_fetch_tasks send M c (um_iter ord shard_location_map)"

definition list_node_shards :: "'c send \<Rightarrow> json_lib \<Rightarrow> 'c \<Rightarrow> string \<Rightarrow> string list \<times> 'c" where
  "list_node_shards send J c node_address =
     (case get_node_client node_address of
        Inl _ \<Rightarrow> ([], c)
      | Inr _ \<Rightarrow> (case send c node_address GET ''/shards/list'' [] of
          (r, c') \<Rightarrow>
            (if \<not> got_200 r then []
             else case json_parse J (rs_body (the r)) of
                 Some (JArr entries) \<Rightarrow> List.map_filter json_string entries
               | _ \<Rightarrow> [], c')))"

definition fetch_shard_manifest ::
    "'c send \<Rightarrow> msgpack \<Rightarrow> 'c \<Rightarrow> string \<Rightarrow> string \<Rightarrow> shard_manifest option \<times> 'c" where
  "fetch_shard_manifest send M c node_address location =
     (case get_node_client node_address of
        Inl _ \<Rightarrow> (None, c)
      | Inr _ \<Rightarrow> (case send c node_address GET (shard_target location) [] of
          (r, c') \<Rightarrow>
            (if \<not> got_200 r then None
             else case decode_shard M (bytes_of_string (rs_body (the r))) of
                 Inl _ \<Rightarrow> None
               | Inr (shard, manifest) \<Rightarrow> manifest, c')))"

fun delete_locations :: "'c send \<Rightarrow> 'c \<Rightarrow> string \<Rightarrow> string list \<Rightarrow> 'c" where
  "delete_locations send c node_address [] = c"
| "delete_locations send c node_address (location # rest) =
     delete_locations send (snd (send c node_address DELETE (shard_target location) [])) node_address rest"

definition delete_task :: "'c send \<Rightarrow> 'c \<Rightarrow> string \<Rightarrow> string list \<Rightarrow> 'c" where
  "delete_task send c node_address locations =
     (case get_node_client node_address of
        Inl _ \<Rightarrow> c
      | Inr _ \<Rightarrow> delete_locations send c node_address locations)"

fun run_delete_tasks :: "'c send \<Rightarrow> 'c \<Rightarrow> shard_location_map \<Rightarrow> 'c" where
  "run_delete_tasks send c [] = c"
| "run_delete_tasks send c ((node_address, locations) # rest) =
     run_delete_tasks send (delete_task send c node_address locations) rest"

definition remove_from_nodes ::
    "'c send \<Rightarrow> (string list \<Rightarrow> string list) \<Rightarrow> 'c \<Rightarrow> shard_location_map \<Rightarrow> 'c" where
  "remove_from_nodes send ord c shard_location_map =
     run_delete_tasks send c (um_iter ord shard_location_map)"

definition probe_shard :: "'c send \<Rightarrow> 'c \<Rightarrow> string \<Rightarrow> string \<Rightarrow> bool \<times> 'c" where
  "probe_shard send c node_address location =
     (case get_node_client node_address of
        Inl _ \<Rightarrow> (False, c)
      | Inr _ \<Rightarrow> (case send c node_address GET (shard_target location) [] of
          (r, c') \<Rightarrow> (got_200 r, c')))"

definition fetch_raw_shard :: "'c send \<Rightarrow> 'c \<Rightarrow> string \<Rightarrow> string \<Rightarrow> bytes option \<times> 'c" where
  "fetch_raw_shard send c node_address location =
     (case get_node_client node_address of
        Inl _ \<Rightarrow> (None, c)
      | Inr _ \<Rightarrow> (case send c node_address GET (shard_target location) [] of
          (r, c') \<Rightarrow> (if \<not> got_200 r then None else Some (bytes_of_string (rs_body (the r))), c')))"

section \<open>What the transport relies on\<close>

text \<open>
  Locations made of letters, digits and a few marks, which a URL carries as they are. The code
  does not encode the others.
\<close>

definition plain_char :: "char \<Rightarrow> bool" where
  "plain_char c \<longleftrightarrow> is_digit c \<or> 97 \<le> char_code c \<and> char_code c \<le> 122 \<or>
     65 \<le> char_code c \<and> char_code c \<le> 90 \<or>
     c \<in> set ''-._/:''"

definition plain_location :: "string \<Rightarrow> bool" where
  "plain_location l \<longleftrightarrow> l \<noteq> [] \<and> list_all plain_char l"

text \<open>
  \<open>shards c a l\<close> is what node \<open>a\<close> stores at \<open>l\<close>; \<open>up c a\<close> says the node answers its reads from now
  on; \<open>ok c\<close> collects what the provider itself relies on. A request may fail before or after it
  took effect, so a failed write leaves the old or the new contents.
\<close>

definition decoded :: "msgpack \<Rightarrow> (string \<Rightarrow> bytes option) \<Rightarrow> string \<Rightarrow> encrypted_shard option" where
  "decoded M node l = (case node l of None \<Rightarrow> None
     | Some b \<Rightarrow> (case decode_shard M b of Inl _ \<Rightarrow> None | Inr (s, m) \<Rightarrow> Some s))"

text \<open>The decodable shards of a list of locations, per node and over a map.\<close>

definition decoded_list :: "msgpack \<Rightarrow> (string \<Rightarrow> bytes option) \<Rightarrow> string list \<Rightarrow> encrypted_shard list" where
  "decoded_list M node ls = List.map_filter (decoded M node) ls"

definition decoded_map ::
    "msgpack \<Rightarrow> (string \<Rightarrow> string \<Rightarrow> bytes option) \<Rightarrow> shard_location_map \<Rightarrow> encrypted_shard list" where
  "decoded_map M nodes m = concat (map (\<lambda>(a, ls). decoded_list M (nodes a) ls) m)"

lemma decoded_list_simps [simp]:
  "decoded_list M node [] = []"
  "decoded_list M node (l # ls) =
     (case decoded M node l of None \<Rightarrow> decoded_list M node ls | Some s \<Rightarrow> s # decoded_list M node ls)"
  by (simp_all add: decoded_list_def List.map_filter_simps split: option.splits)

lemma set_decoded_list: "s \<in> set (decoded_list M node ls) \<longleftrightarrow> (\<exists>l\<in>set ls. decoded M node l = Some s)"
  by (induction ls) (auto split: option.splits)

locale shard_service =
  fixes send :: "'c send"
    and shards :: "'c \<Rightarrow> string \<Rightarrow> string \<Rightarrow> bytes option"
    and ok :: "'c \<Rightarrow> bool"
    and up :: "'c \<Rightarrow> string \<Rightarrow> bool"
  assumes send_ok: "ok c \<Longrightarrow> ok (snd (send c a verb t b))"
    and send_up: "up c a \<Longrightarrow> up (snd (send c a' verb t b)) a"
    and get_same: "shards (snd (send c a GET t b)) = shards c"
    and get_value: "ok c \<Longrightarrow> plain_location l \<Longrightarrow> got_200 (fst (send c a GET (shard_target l) [])) \<Longrightarrow>
      shards c a l = Some (bytes_of_string (rs_body (the (fst (send c a GET (shard_target l) [])))))"
    and get_up: "ok c \<Longrightarrow> plain_location l \<Longrightarrow> up c a \<Longrightarrow> shards c a l \<noteq> None \<Longrightarrow>
      got_200 (fst (send c a GET (shard_target l) []))"
    and put_value: "ok c \<Longrightarrow> plain_location l \<Longrightarrow> got_200 (fst (send c a PUT (shard_target l) b)) \<Longrightarrow>
      shards (snd (send c a PUT (shard_target l) b)) = (shards c)(a := (shards c a)(l \<mapsto> b))"
    and put_maybe: "ok c \<Longrightarrow> plain_location l \<Longrightarrow>
      shards (snd (send c a PUT (shard_target l) b)) \<in> {shards c, (shards c)(a := (shards c a)(l \<mapsto> b))}"
    and delete_maybe: "ok c \<Longrightarrow> plain_location l \<Longrightarrow>
      shards (snd (send c a DELETE (shard_target l) b)) \<in> {shards c, (shards c)(a := (shards c a)(l := None))}"
begin

text \<open>
  Writing.\<close>

lemma put_entries_value:
  "ok c \<Longrightarrow> \<forall>l\<in>fst ` set es. plain_location l \<Longrightarrow> put_entries send c a es = (Inr u, c') \<Longrightarrow>
   ok c' \<and> shards c' = (shards c)(a := shards c a ++ map_of (rev es))"
proof (induction es arbitrary: c)
  case (Cons e es)
  obtain l b where e: "e = (l, b)" by (cases e)
  obtain r c1 where s: "send c a PUT (shard_target l) b = (r, c1)" by (cases "send c a PUT (shard_target l) b")
  with Cons.prems e have g: "got_200 r" "put_entries send c1 a es = (Inr u, c')"
    by (auto split: if_splits)
  have "ok c1" using send_ok [OF Cons.prems(1), of a PUT "shard_target l" b] s by simp
  moreover have "shards c1 = (shards c)(a := (shards c a)(l \<mapsto> b))"
    using put_value [OF Cons.prems(1), of l a b] Cons.prems(2) e s g(1) by simp
  moreover have "ok c' \<and> shards c' = (shards c1)(a := shards c1 a ++ map_of (rev es))"
    by (rule Cons.IH [OF calculation(1) _ g(2)]) (use Cons.prems(2) in auto)
  ultimately show ?case by (auto simp: e fun_eq_iff map_add_def split: option.splits)
qed auto

lemma put_entries_frame:
  "ok c \<Longrightarrow> \<forall>l\<in>fst ` set es. plain_location l \<Longrightarrow> put_entries send c a es = (r, c') \<Longrightarrow>
   ok c' \<and> (\<forall>a' l. shards c' a' l = shards c a' l \<or> (\<exists>b. a' = a \<and> (l, b) \<in> set es \<and> shards c' a' l = Some b))"
proof (induction es arbitrary: c)
  case (Cons e es)
  obtain l b where e: "e = (l, b)" by (cases e)
  obtain q c1 where s: "send c a PUT (shard_target l) b = (q, c1)" by (cases "send c a PUT (shard_target l) b")
  have ok1: "ok c1" using send_ok [OF Cons.prems(1), of a PUT "shard_target l" b] s by simp
  have m: "shards c1 = shards c \<or> shards c1 = (shards c)(a := (shards c a)(l \<mapsto> b))"
    using put_maybe [OF Cons.prems(1), of l a b] Cons.prems(2) e s by simp
  have m': "shards c1 a' l' = shards c a' l' \<or> a' = a \<and> l' = l \<and> shards c1 a' l' = Some b" for a' l'
    using m by (auto split: if_splits)
  show ?case
  proof (cases "got_200 q")
    case True
    then have "put_entries send c1 a es = (r, c')" using Cons.prems(3) e s by simp
    moreover have "\<forall>l\<in>fst ` set es. plain_location l" using Cons.prems(2) by simp
    ultimately have i: "ok c' \<and> (\<forall>a' l. shards c' a' l = shards c1 a' l \<or>
        (\<exists>b. a' = a \<and> (l, b) \<in> set es \<and> shards c' a' l = Some b))" using Cons.IH [OF ok1] by blast
    have "shards c' a' l' = shards c a' l' \<or> (\<exists>b. a' = a \<and> (l', b) \<in> set (e # es) \<and> shards c' a' l' = Some b)" for a' l'
      using i m' [of a' l'] unfolding e by (metis list.set_intros)
    then show ?thesis using i by blast
  next
    case False
    then have "c' = c1" using Cons.prems(3) e s by simp
    then show ?thesis using ok1 m' unfolding e by (metis list.set_intros(1))
  qed
qed auto

lemma put_task_value:
  "ok c \<Longrightarrow> \<forall>l\<in>fst ` set es. plain_location l \<Longrightarrow> put_task send c a es = (Inr u, c') \<Longrightarrow>
   ok c' \<and> shards c' = (shards c)(a := shards c a ++ map_of (rev es))"
  using put_entries_value by (auto simp: put_task_def split: sum.splits)

lemma put_task_frame:
  "ok c \<Longrightarrow> \<forall>l\<in>fst ` set es. plain_location l \<Longrightarrow> put_task send c a es = (r, c') \<Longrightarrow>
   ok c' \<and> (\<forall>a' l. shards c' a' l = shards c a' l \<or> (\<exists>b. a' = a \<and> (l, b) \<in> set es \<and> shards c' a' l = Some b))"
  using put_entries_frame [of c es a r c'] by (auto simp: put_task_def split: sum.splits)

lemma put_tasks_value:
  "ok c \<Longrightarrow> \<forall>(a, es)\<in>set p. \<forall>l\<in>fst ` set es. plain_location l \<Longrightarrow> distinct (map fst p) \<Longrightarrow>
   run_put_tasks send c p = (Inr u, c') \<Longrightarrow>
   ok c' \<and> (\<forall>a. shards c' a = shards c a ++ map_of (rev (pushed p a)))"
proof (induction p arbitrary: c)
  case (Cons x p)
  obtain a es where x: "x = (a, es)" by (cases x)
  obtain r c1 where t: "put_task send c a es = (r, c1)" by (cases "put_task send c a es")
  with Cons.prems(4) x obtain v where v: "r = Inr v" "run_put_tasks send c1 p = (Inr u, c')"
    by (auto split: sum.splits prod.splits)
  have 1: "ok c1 \<and> shards c1 = (shards c)(a := shards c a ++ map_of (rev es))"
    using put_task_value [OF Cons.prems(1)] Cons.prems(2) x t v(1) by auto
  then have 2: "ok c' \<and> (\<forall>a. shards c' a = shards c1 a ++ map_of (rev (pushed p a)))"
    using Cons.IH [of c1] Cons.prems(2,3) v(2) by auto
  have "map_of p a = None" using Cons.prems(3) x by (simp add: map_of_eq_None_iff)
  then have "pushed p a = []" by (simp add: pushed_def)
  with 1 2 show ?case by (auto simp: x pushed_def)
qed auto

lemma put_tasks_frame:
  "ok c \<Longrightarrow> \<forall>(a, es)\<in>set p. \<forall>l\<in>fst ` set es. plain_location l \<Longrightarrow>
   run_put_tasks send c p = (r, c') \<Longrightarrow>
   ok c' \<and> (\<forall>a l. shards c' a l = shards c a l \<or> (\<exists>es b. (a, es) \<in> set p \<and> (l, b) \<in> set es \<and> shards c' a l = Some b))"
proof (induction p arbitrary: c r)
  case (Cons x p)
  obtain a es where x: "x = (a, es)" by (cases x)
  obtain q c1 where t: "put_task send c a es = (q, c1)" by (cases "put_task send c a es")
  obtain r2 where t2: "run_put_tasks send c1 p = (r2, c')"
    using Cons.prems(3) x t by (auto split: sum.splits prod.splits)
  have 1: "ok c1 \<and> (\<forall>a' l. shards c1 a' l = shards c a' l \<or> (\<exists>b. a' = a \<and> (l, b) \<in> set es \<and> shards c1 a' l = Some b))"
    using put_task_frame [OF Cons.prems(1) _ t] Cons.prems(2) x by auto
  have 2: "ok c' \<and> (\<forall>a l. shards c' a l = shards c1 a l \<or> (\<exists>es b. (a, es) \<in> set p \<and> (l, b) \<in> set es \<and> shards c' a l = Some b))"
    using Cons.IH [OF conjunct1 [OF 1] _ t2] Cons.prems(2) by simp
  have "shards c' a' l = shards c a' l \<or> (\<exists>es' b. (a', es') \<in> set (x # p) \<and> (l, b) \<in> set es' \<and> shards c' a' l = Some b)" for a' l
  proof -
    have "shards c' a' l = shards c1 a' l \<or> (\<exists>es b. (a', es) \<in> set p \<and> (l, b) \<in> set es \<and> shards c' a' l = Some b)"
      using 2 by blast
    moreover have "shards c1 a' l = shards c a' l \<or> (\<exists>b. a' = a \<and> (l, b) \<in> set es \<and> shards c1 a' l = Some b)"
      using 1 by blast
    ultimately show ?thesis unfolding x by (metis list.set_intros)
  qed
  with 2 show ?case by blast
qed auto

lemma apply_placement_value:
  assumes "order_ok ord" and "distinct (map fst p)" and "ok c"
    and "\<forall>(a, es)\<in>set p. \<forall>l\<in>fst ` set es. plain_location l"
    and "apply_placement send ord c p = (Inr u, c')"
  shows "ok c' \<and> (\<forall>a. shards c' a = shards c a ++ map_of (rev (pushed p a)))"
proof -
  have q: "set (um_iter ord p) = set p" "distinct (map fst (um_iter ord p))"
    using um_iter_set [OF assms(1,2)] by auto
  then have "map_of (um_iter ord p) = map_of p"
    using assms(2) by (intro map_of_eqI) auto
  then have "pushed (um_iter ord p) a = pushed p a" for a by (simp add: pushed_def)
  then show ?thesis
    using put_tasks_value [of c "um_iter ord p" u c'] assms(3-5) q by (simp add: apply_placement_def)
qed

lemma apply_placement_maybe:
  assumes "order_ok ord" and "distinct (map fst p)" and "ok c"
    and "\<forall>(a, es)\<in>set p. \<forall>l\<in>fst ` set es. plain_location l"
    and "apply_placement send ord c p = (r, c')"
  shows "ok c' \<and> (\<forall>a l. shards c' a l = shards c a l \<or> (\<exists>b. (l, b) \<in> set (pushed p a) \<and> shards c' a l = Some b))"
proof -
  have q: "set (um_iter ord p) = set p" using um_iter_set [OF assms(1,2)] by auto
  have "es = pushed p a" if "(a, es) \<in> set p" for a es using that assms(2) by (simp add: pushed_def)
  moreover have "ok c' \<and> (\<forall>a l. shards c' a l = shards c a l \<or>
      (\<exists>es b. (a, es) \<in> set p \<and> (l, b) \<in> set es \<and> shards c' a l = Some b))"
    using put_tasks_frame [of c "um_iter ord p" r c'] assms(3-5) q unfolding apply_placement_def by simp
  ultimately show ?thesis by blast
qed

text \<open>
  Reading.\<close>

lemma get_snd: "send c a GET t b = (r, c') \<Longrightarrow> shards c' = shards c"
  using get_same [of c a t b] by simp

lemma get_ok: "ok c \<Longrightarrow> send c a verb t b = (r, c') \<Longrightarrow> ok c'"
  using send_ok [of c a verb t b] by simp

lemma get_up': "up c a \<Longrightarrow> send c a' verb t b = (r, c') \<Longrightarrow> up c' a"
  using send_up [of c a a' verb t b] by simp

lemma get_shard:
  "ok c \<Longrightarrow> plain_location l \<Longrightarrow> send c a GET (shard_target l) [] = (r, c') \<Longrightarrow> got_200 r \<Longrightarrow>
   shards c a l = Some (bytes_of_string (rs_body (the r)))"
  using get_value [of c l a] by simp

lemma get_shard_up:
  "ok c \<Longrightarrow> plain_location l \<Longrightarrow> send c a GET (shard_target l) [] = (r, c') \<Longrightarrow> up c a \<Longrightarrow>
   got_200 r \<longleftrightarrow> shards c a l \<noteq> None"
  using get_up [of c l a] get_shard [of c l a r c'] by auto

lemma fetch_locations_spec:
  "ok c \<Longrightarrow> \<forall>l\<in>set ls. plain_location l \<Longrightarrow> fetch_locations send M c a ls = (ss, c') \<Longrightarrow>
   ok c' \<and> shards c' = shards c \<and> (\<forall>a'. up c a' \<longrightarrow> up c' a') \<and>
   subseq ss (decoded_list M (shards c a) ls) \<and> (up c a \<longrightarrow> ss = decoded_list M (shards c a) ls)"
proof (induction ls arbitrary: c ss)
  case (Cons l ls)
  obtain r c1 where s: "send c a GET (shard_target l) [] = (r, c1)" by (cases "send c a GET (shard_target l) []")
  obtain ss1 where f: "fetch_locations send M c1 a ls = (ss1, c')"
    using Cons.prems(3) s by (auto split: prod.splits)
  have eq: "shards c1 = shards c" by (rule get_snd [OF s])
  have IH: "ok c' \<and> shards c' = shards c1 \<and> (\<forall>a'. up c1 a' \<longrightarrow> up c' a') \<and>
      subseq ss1 (decoded_list M (shards c1 a) ls) \<and> (up c1 a \<longrightarrow> ss1 = decoded_list M (shards c1 a) ls)"
    using Cons.prems(2) by (intro Cons.IH [OF get_ok [OF Cons.prems(1) s] _ f]) auto
  have up1: "\<forall>a'. up c a' \<longrightarrow> up c1 a'" using get_up' [OF _ s] by blast
  show ?case
  proof (cases "got_200 r")
    case True
    then have v: "shards c a l = Some (bytes_of_string (rs_body (the r)))"
      using get_shard [OF Cons.prems(1) _ s] Cons.prems(2) by simp
    then have "ss = (case decoded M (shards c a) l of None \<Rightarrow> ss1 | Some s \<Rightarrow> s # ss1)"
      using Cons.prems(3) s f True by (auto simp: decoded_def split: sum.splits)
    with IH eq up1 show ?thesis by (auto split: option.splits)
  next
    case False
    then have "ss = ss1" using Cons.prems(3) s f by simp
    moreover have "up c a \<longrightarrow> decoded M (shards c a) l = None"
      using get_shard_up [OF Cons.prems(1) _ s] Cons.prems(2) False by (auto simp: decoded_def)
    ultimately show ?thesis using IH eq up1 by (auto split: option.splits)
  qed
qed auto

lemma fetch_task_spec:
  "ok c \<Longrightarrow> \<forall>l\<in>set ls. plain_location l \<Longrightarrow> fetch_task send M c a ls = (ss, c') \<Longrightarrow>
   ok c' \<and> shards c' = shards c \<and> (\<forall>a'. up c a' \<longrightarrow> up c' a') \<and>
   subseq ss (decoded_list M (shards c a) ls) \<and>
   (up c a \<and> is_ok (get_node_client a) \<longrightarrow> ss = decoded_list M (shards c a) ls)"
  using fetch_locations_spec [of c ls M a ss c']
  by (auto simp: fetch_task_def is_ok_def split: sum.splits)

lemma fetch_tasks_spec:
  "ok c \<Longrightarrow> \<forall>(a, ls)\<in>set m. \<forall>l\<in>set ls. plain_location l \<Longrightarrow> run_fetch_tasks send M c m = (ss, c') \<Longrightarrow>
   ok c' \<and> shards c' = shards c \<and> (\<forall>a'. up c a' \<longrightarrow> up c' a') \<and>
   subseq ss (decoded_map M (shards c) m) \<and>
   (\<forall>(a, ls)\<in>set m. up c a \<and> is_ok (get_node_client a) \<longrightarrow> set (decoded_list M (shards c a) ls) \<subseteq> set ss)"
proof (induction m arbitrary: c ss)
  case (Cons x m)
  obtain a ls where x: "x = (a, ls)" by (cases x)
  obtain s1 c1 where t: "fetch_task send M c a ls = (s1, c1)" by (cases "fetch_task send M c a ls")
  obtain s2 where t2: "run_fetch_tasks send M c1 m = (s2, c')" "ss = s1 @ s2"
    using Cons.prems(3) x t by (auto split: prod.splits)
  have 1: "ok c1 \<and> shards c1 = shards c \<and> (\<forall>a'. up c a' \<longrightarrow> up c1 a') \<and>
     subseq s1 (decoded_list M (shards c a) ls) \<and>
     (up c a \<and> is_ok (get_node_client a) \<longrightarrow> s1 = decoded_list M (shards c a) ls)"
    using fetch_task_spec [OF Cons.prems(1) _ t] Cons.prems(2) x by simp
  have 2: "ok c' \<and> shards c' = shards c1 \<and> (\<forall>a'. up c1 a' \<longrightarrow> up c' a') \<and>
     subseq s2 (decoded_map M (shards c1) m) \<and>
     (\<forall>(a, ls)\<in>set m. up c1 a \<and> is_ok (get_node_client a) \<longrightarrow> set (decoded_list M (shards c1 a) ls) \<subseteq> set s2)"
    using Cons.IH [OF conjunct1 [OF 1] _ t2(1)] Cons.prems(2) by simp
  have "subseq ss (decoded_map M (shards c) (x # m))"
    using 1 2 by (auto simp: t2(2) x decoded_map_def intro: list_emb_append_mono)
  moreover have "\<forall>(a, ls)\<in>set (x # m). up c a \<and> is_ok (get_node_client a) \<longrightarrow>
      set (decoded_list M (shards c a) ls) \<subseteq> set ss"
    using 1 2 by (fastforce simp: x t2(2))
  ultimately show ?case using 1 2 by simp
qed (auto simp: decoded_map_def)

lemma fetch_encrypted_shards_spec:
  assumes "order_ok ord" and "distinct (map fst m)" and "ok c"
    and "\<forall>(a, ls)\<in>set m. \<forall>l\<in>set ls. plain_location l"
    and "fetch_encrypted_shards send M ord c m = (ss, c')"
  shows "ok c' \<and> shards c' = shards c \<and> (\<forall>a'. up c a' \<longrightarrow> up c' a') \<and>
   subseq ss (decoded_map M (shards c) (um_iter ord m)) \<and>
   (\<forall>(a, ls)\<in>set m. up c a \<and> is_ok (get_node_client a) \<longrightarrow> set (decoded_list M (shards c a) ls) \<subseteq> set ss)"
proof -
  have "set (um_iter ord m) = set m" using um_iter_set [OF assms(1,2)] by auto
  then show ?thesis
    using fetch_tasks_spec [of c "um_iter ord m" M ss c'] assms(3-5) by (simp add: fetch_encrypted_shards_def)
qed

lemma probe_shard_spec:
  assumes "ok c" and "plain_location l" and "probe_shard send c a l = (r, c')"
  shows "ok c' \<and> shards c' = shards c \<and> (\<forall>a'. up c a' \<longrightarrow> up c' a') \<and> (r \<longrightarrow> shards c a l \<noteq> None) \<and>
    (up c a \<and> is_ok (get_node_client a) \<longrightarrow> r = (shards c a l \<noteq> None))"
proof (cases "get_node_client a")
  case (Inr u)
  obtain q c1 where s: "send c a GET (shard_target l) [] = (q, c1)" by (cases "send c a GET (shard_target l) []")
  then have r: "r = got_200 q" "c' = c1" using assms(3) Inr by (simp_all add: probe_shard_def)
  show ?thesis
    using get_ok [OF assms(1) s] get_snd [OF s] get_up' [OF _ s] get_shard [OF assms(1,2) s]
      get_shard_up [OF assms(1,2) s] r by auto
qed (use assms in \<open>auto simp: probe_shard_def is_ok_def\<close>)

lemma fetch_raw_shard_spec:
  assumes "ok c" and "plain_location l" and "fetch_raw_shard send c a l = (r, c')"
  shows "ok c' \<and> shards c' = shards c \<and> (\<forall>a'. up c a' \<longrightarrow> up c' a') \<and> (r \<noteq> None \<longrightarrow> r = shards c a l) \<and>
    (up c a \<and> is_ok (get_node_client a) \<longrightarrow> r = shards c a l)"
proof (cases "get_node_client a")
  case (Inr u)
  obtain q c1 where s: "send c a GET (shard_target l) [] = (q, c1)" by (cases "send c a GET (shard_target l) []")
  then have r: "r = (if \<not> got_200 q then None else Some (bytes_of_string (rs_body (the q))))" "c' = c1"
    using assms(3) Inr by (simp_all add: fetch_raw_shard_def)
  show ?thesis
    using get_ok [OF assms(1) s] get_snd [OF s] get_up' [OF _ s] get_shard [OF assms(1,2) s]
      get_shard_up [OF assms(1,2) s] r by auto
qed (use assms in \<open>auto simp: fetch_raw_shard_def is_ok_def\<close>)

lemma fetch_shard_manifest_spec:
  assumes "ok c" and "plain_location l" and "fetch_shard_manifest send M c a l = (r, c')"
  shows "ok c' \<and> shards c' = shards c \<and> (\<forall>a'. up c a' \<longrightarrow> up c' a') \<and>
    (\<forall>mf. r = Some mf \<longrightarrow> (\<exists>b s. shards c a l = Some b \<and> decode_shard M b = Inr (s, Some mf)))"
proof (cases "get_node_client a")
  case (Inr u)
  obtain q c1 where s: "send c a GET (shard_target l) [] = (q, c1)" by (cases "send c a GET (shard_target l) []")
  then have "c' = c1" using assms(3) Inr by (simp add: fetch_shard_manifest_def)
  moreover have "\<exists>b s. shards c a l = Some b \<and> decode_shard M b = Inr (s, Some mf)" if "r = Some mf" for mf
  proof -
    have g: "got_200 q" using assms(3) Inr s that by (auto simp: fetch_shard_manifest_def split: if_splits)
    show ?thesis using get_shard [OF assms(1,2) s g] assms(3) Inr s that g
      by (auto simp: fetch_shard_manifest_def split: sum.splits)
  qed
  ultimately show ?thesis using get_ok [OF assms(1) s] get_snd [OF s] get_up' [OF _ s] by auto
qed (use assms in \<open>auto simp: fetch_shard_manifest_def\<close>)

text \<open>
  Deleting.\<close>

lemma delete_locations_spec:
  "ok c \<Longrightarrow> \<forall>l\<in>set ls. plain_location l \<Longrightarrow> c' = delete_locations send c a ls \<Longrightarrow>
   ok c' \<and> (\<forall>a' l. shards c' a' l = shards c a' l \<or> a' = a \<and> l \<in> set ls \<and> shards c' a' l = None)"
proof (induction ls arbitrary: c)
  case (Cons l ls)
  let ?c1 = "snd (send c a DELETE (shard_target l) [])"
  have "shards ?c1 = shards c \<or> shards ?c1 = (shards c)(a := (shards c a)(l := None))"
    using delete_maybe [OF Cons.prems(1), of l a "[]"] Cons.prems(2) by simp
  then have 1: "shards ?c1 a' k = shards c a' k \<or> a' = a \<and> k = l \<and> shards ?c1 a' k = None" for a' k
    by (cases "a' = a"; cases "k = l") auto
  have 2: "ok c' \<and> (\<forall>a' k. shards c' a' k = shards ?c1 a' k \<or> a' = a \<and> k \<in> set ls \<and> shards c' a' k = None)"
    using Cons.prems by (intro Cons.IH send_ok) auto
  then have "shards c' a' k = shards c a' k \<or> a' = a \<and> k \<in> set (l # ls) \<and> shards c' a' k = None" for a' k
    using 1 [of a' k] by (metis list.set_intros)
  with 2 show ?case by blast
qed auto

lemma delete_tasks_spec:
  "ok c \<Longrightarrow> \<forall>(a, ls)\<in>set m. \<forall>l\<in>set ls. plain_location l \<Longrightarrow> c' = run_delete_tasks send c m \<Longrightarrow>
   ok c' \<and> (\<forall>a l. shards c' a l = shards c a l \<or> (\<exists>ls. (a, ls) \<in> set m \<and> l \<in> set ls) \<and> shards c' a l = None)"
proof (induction m arbitrary: c)
  case (Cons x m)
  obtain a ls where x: "x = (a, ls)" by (cases x)
  let ?c1 = "delete_task send c a ls"
  have 1: "ok ?c1 \<and> (\<forall>a' l. shards ?c1 a' l = shards c a' l \<or> a' = a \<and> l \<in> set ls \<and> shards ?c1 a' l = None)"
    using delete_locations_spec [OF Cons.prems(1), of ls "delete_locations send c a ls" a] Cons.prems(1,2) x
    by (auto simp: delete_task_def split: sum.splits)
  then have "ok c' \<and> (\<forall>a l. shards c' a l = shards ?c1 a l \<or> (\<exists>ls. (a, ls) \<in> set m \<and> l \<in> set ls) \<and> shards c' a l = None)"
    using Cons.prems by (intro Cons.IH) (auto simp: x)
  with 1 show ?case unfolding x by (auto, metis+)
qed auto

lemma remove_from_nodes_spec:
  assumes "order_ok ord" and "distinct (map fst m)" and "ok c"
    and "\<forall>(a, ls)\<in>set m. \<forall>l\<in>set ls. plain_location l"
    and "c' = remove_from_nodes send ord c m"
  shows "ok c' \<and> (\<forall>a l. shards c' a l = shards c a l \<or> l \<in> set (pushed m a) \<and> shards c' a l = None)"
proof -
  have "set (um_iter ord m) = set m" using um_iter_set [OF assms(1,2)] by auto
  moreover have "ls = pushed m a" if "(a, ls) \<in> set m" for a ls using that assms(2) by (simp add: pushed_def)
  moreover have "ok c' \<and> (\<forall>a l. shards c' a l = shards c a l \<or>
      (\<exists>ls. (a, ls) \<in> set (um_iter ord m) \<and> l \<in> set ls) \<and> shards c' a l = None)"
    using assms(3-5) calculation(1) by (intro delete_tasks_spec) (auto simp: remove_from_nodes_def)
  ultimately show ?thesis by metis
qed

end

text \<open>The service also lists what a node stores; reindexing needs that.\<close>

locale shard_listing = shard_service send shards ok up
  for send :: "'c send" and shards :: "'c \<Rightarrow> string \<Rightarrow> string \<Rightarrow> bytes option"
    and ok :: "'c \<Rightarrow> bool" and up :: "'c \<Rightarrow> string \<Rightarrow> bool" +
  fixes J :: json_lib
  assumes list_value: "ok c \<Longrightarrow> got_200 (fst (send c a GET ''/shards/list'' [])) \<Longrightarrow>
    \<exists>ls. json_parse J (rs_body (the (fst (send c a GET ''/shards/list'' [])))) = Some (JArr (map JStr ls)) \<and>
      distinct ls \<and> set ls = dom (shards c a)"
begin

lemma map_filter_strings: "List.map_filter json_string (map JStr ls) = ls"
  by (induction ls) (simp_all add: List.map_filter_simps)

lemma list_node_shards_spec:
  assumes "ok c" and "list_node_shards send J c a = (ls, c')"
  shows "ok c' \<and> shards c' = shards c \<and> (\<forall>a'. up c a' \<longrightarrow> up c' a') \<and> distinct ls \<and>
    (ls = [] \<or> set ls = dom (shards c a))"
proof (cases "get_node_client a")
  case (Inr u)
  obtain q c1 where s: "send c a GET ''/shards/list'' [] = (q, c1)" by (cases "send c a GET ''/shards/list'' []")
  then have c: "c' = c1" using assms(2) Inr by (simp add: list_node_shards_def)
  have "distinct ls \<and> (ls = [] \<or> set ls = dom (shards c a))"
  proof (cases "got_200 q")
    case True
    then obtain ks where "json_parse J (rs_body (the q)) = Some (JArr (map JStr ks))" "distinct ks"
      "set ks = dom (shards c a)" using list_value [OF assms(1), of a] s by auto
    then show ?thesis using assms(2) Inr s True by (simp add: list_node_shards_def map_filter_strings)
  next
    case False
    then show ?thesis using assms(2) Inr s by (simp add: list_node_shards_def)
  qed
  with c show ?thesis using get_ok [OF assms(1) s] get_snd [OF s] get_up' [OF _ s] by auto
qed (use assms in \<open>auto simp: list_node_shards_def\<close>)

end

end
