(* ===== verification/Metadata_Store.thy ===== *)
theory Metadata_Store
  imports Models "HOL-Library.List_Lexorder" "HOL-Library.Char_ord" "HOL-Library.Multiset"
begin

text \<open>
  \<^verbatim>\<open>core/MetadataStore.cpp\<close>: the object catalog and the node registry in PostgreSQL. The three
  tables of \<open>init_schema\<close> are lists of rows, each prepared statement is one definition with the
  constraints of the schema, and each member function runs its statements on a copy of the tables
  that \<open>commit\<close> installs; an exception drops the copy. PostgreSQL itself is the parameter
  \<open>postgres\<close>: which text is a UUID and in which canonical form it comes back, which strings a
  TEXT column takes, which statement fails for reasons of its own, and how a commit ends.
\<close>

section \<open>Tables\<close>

record object_row =
  or_id :: string
  or_size :: int
  or_checksum :: string
  or_erasure_spec :: bytes
  or_encrypted_dek :: bytes
  or_kek_id :: string
  or_version :: int

record location_row =
  lr_object_id :: string
  lr_shard_index :: int
  lr_location :: string

record node_row =
  nr_address :: string
  nr_registered_at :: nat

record tables =
  t_objects :: "object_row list"
  t_locations :: "location_row list"
  t_nodes :: "node_row list"

text \<open>A commit succeeds, fails without effect, or is reported failed though it took effect.\<close>

datatype commit_outcome = Committed | Rolled_Back | In_Doubt

record postgres =
  pg_uuid :: "string \<Rightarrow> string option"
  pg_text_ok :: "string \<Rightarrow> bool"
  pg_fails :: "string \<Rightarrow> tables \<Rightarrow> bool"
  pg_commit :: "tables \<Rightarrow> commit_outcome"

text \<open>What the code relies on: the canonical form of a UUID is its own canonical form.\<close>

definition postgres_ok :: "postgres \<Rightarrow> bool" where
  "postgres_ok P \<longleftrightarrow> (\<forall>s u. pg_uuid P s = Some u \<longrightarrow> pg_uuid P u = Some u)"

definition init_schema :: tables where
  "init_schema = \<lparr>t_objects = [], t_locations = [], t_nodes = []\<rparr>"

section \<open>Prepared statements\<close>

abbreviation sql_error :: "string \<Rightarrow> 'a res" where
  "sql_error msg \<equiv> Inl (LibError msg)"

definition with_uuid :: "postgres \<Rightarrow> string \<Rightarrow> tables \<Rightarrow> string \<Rightarrow> (string \<Rightarrow> 'a res) \<Rightarrow> 'a res" where
  "with_uuid P stmt t oid f =
     (if pg_fails P stmt t then sql_error stmt
      else case pg_uuid P oid of
          None \<Rightarrow> sql_error ''invalid input syntax for type uuid''
        | Some u \<Rightarrow> f u)"

definition int32_max :: int where
  "int32_max = 2147483647"

definition sql_put_object_metadata ::
    "postgres \<Rightarrow> tables \<Rightarrow> string \<Rightarrow> int \<Rightarrow> string \<Rightarrow> bytes \<Rightarrow> bytes \<Rightarrow> string \<Rightarrow> tables res" where
  "sql_put_object_metadata P t oid sz checksum erasure dek kek =
     with_uuid P ''put_object_metadata'' t oid (\<lambda>u.
       if \<not> pg_text_ok P checksum \<or> \<not> pg_text_ok P kek then sql_error ''invalid byte sequence''
       else case find (\<lambda>r. or_id r = u) (t_objects t) of
           None \<Rightarrow> Inr (t\<lparr>t_objects := t_objects t @ [\<lparr>or_id = u, or_size = sz, or_checksum = checksum,
                     or_erasure_spec = erasure, or_encrypted_dek = dek, or_kek_id = kek, or_version = 1\<rparr>]\<rparr>)
         | Some old \<Rightarrow>
             if int32_max < or_version old + 1 then sql_error ''integer out of range''
             else Inr (t\<lparr>t_objects := map (\<lambda>r. if or_id r = u then
                     \<lparr>or_id = u, or_size = sz, or_checksum = checksum, or_erasure_spec = erasure,
                      or_encrypted_dek = dek, or_kek_id = kek, or_version = or_version r + 1\<rparr>
                   else r) (t_objects t)\<rparr>))"

text \<open>The result of the next two is the number of rows inserted or updated, and the tables.\<close>

definition sql_insert_if_absent ::
    "postgres \<Rightarrow> tables \<Rightarrow> string \<Rightarrow> int \<Rightarrow> string \<Rightarrow> bytes \<Rightarrow> bytes \<Rightarrow> string \<Rightarrow> (nat \<times> tables) res" where
  "sql_insert_if_absent P t oid sz checksum erasure dek kek =
     with_uuid P ''insert_if_absent_object_metadata'' t oid (\<lambda>u.
       if \<not> pg_text_ok P checksum \<or> \<not> pg_text_ok P kek then sql_error ''invalid byte sequence''
       else case find (\<lambda>r. or_id r = u) (t_objects t) of
           None \<Rightarrow> Inr (1, t\<lparr>t_objects := t_objects t @ [\<lparr>or_id = u, or_size = sz, or_checksum = checksum,
                     or_erasure_spec = erasure, or_encrypted_dek = dek, or_kek_id = kek, or_version = 1\<rparr>]\<rparr>)
         | Some old \<Rightarrow> Inr (0, t))"

definition sql_conditional_put ::
    "postgres \<Rightarrow> tables \<Rightarrow> string \<Rightarrow> int \<Rightarrow> string \<Rightarrow> bytes \<Rightarrow> bytes \<Rightarrow> string \<Rightarrow> int \<Rightarrow> (nat \<times> tables) res" where
  "sql_conditional_put P t oid sz checksum erasure dek kek expected =
     with_uuid P ''conditional_put_object_metadata'' t oid (\<lambda>u.
       if \<not> pg_text_ok P checksum \<or> \<not> pg_text_ok P kek then sql_error ''invalid byte sequence''
       else case find (\<lambda>r. or_id r = u \<and> or_version r = expected) (t_objects t) of
           None \<Rightarrow> Inr (0, t)
         | Some old \<Rightarrow>
             if int32_max < or_version old + 1 then sql_error ''integer out of range''
             else Inr (1, t\<lparr>t_objects := map (\<lambda>r. if or_id r = u then
                     \<lparr>or_id = u, or_size = sz, or_checksum = checksum, or_erasure_spec = erasure,
                      or_encrypted_dek = dek, or_kek_id = kek, or_version = or_version r + 1\<rparr>
                   else r) (t_objects t)\<rparr>))"

definition sql_delete_locations :: "postgres \<Rightarrow> tables \<Rightarrow> string \<Rightarrow> tables res" where
  "sql_delete_locations P t oid =
     with_uuid P ''delete_object_shard_locations'' t oid (\<lambda>u.
       Inr (t\<lparr>t_locations := filter (\<lambda>l. lr_object_id l \<noteq> u) (t_locations t)\<rparr>))"

text \<open>The constraints: \<open>CHECK (shard_index >= 0)\<close>, the foreign key, the primary key.\<close>

definition sql_insert_location :: "postgres \<Rightarrow> tables \<Rightarrow> string \<Rightarrow> int \<Rightarrow> string \<Rightarrow> tables res" where
  "sql_insert_location P t oid idx location =
     with_uuid P ''insert_object_shard_location'' t oid (\<lambda>u.
       if \<not> pg_text_ok P location then sql_error ''invalid byte sequence''
       else if idx < 0 then sql_error ''check constraint''
       else if u \<notin> or_id ` set (t_objects t) then sql_error ''foreign key constraint''
       else if (u, idx) \<in> (\<lambda>l. (lr_object_id l, lr_shard_index l)) ` set (t_locations t)
         then sql_error ''duplicate key value''
       else Inr (t\<lparr>t_locations := t_locations t @
              [\<lparr>lr_object_id = u, lr_shard_index = idx, lr_location = location\<rparr>]\<rparr>))"

definition sql_get_object_metadata :: "postgres \<Rightarrow> tables \<Rightarrow> string \<Rightarrow> object_row list res" where
  "sql_get_object_metadata P t oid =
     with_uuid P ''get_object_metadata'' t oid (\<lambda>u. Inr (filter (\<lambda>r. or_id r = u) (t_objects t)))"

definition sql_get_locations :: "postgres \<Rightarrow> tables \<Rightarrow> string \<Rightarrow> string list res" where
  "sql_get_locations P t oid =
     with_uuid P ''get_object_shard_locations'' t oid (\<lambda>u.
       Inr (map lr_location (sort_key lr_shard_index (filter (\<lambda>l. lr_object_id l = u) (t_locations t)))))"

text \<open>Deleting an object cascades to its locations.\<close>

definition sql_remove :: "postgres \<Rightarrow> tables \<Rightarrow> string \<Rightarrow> (nat \<times> tables) res" where
  "sql_remove P t oid =
     with_uuid P ''remove_object_metadata'' t oid (\<lambda>u.
       Inr (length (filter (\<lambda>r. or_id r = u) (t_objects t)),
            t\<lparr>t_objects := filter (\<lambda>r. or_id r \<noteq> u) (t_objects t),
              t_locations := filter (\<lambda>l. lr_object_id l \<noteq> u) (t_locations t)\<rparr>))"

text \<open>The left join ordered by id and shard index; \<open>None\<close> is the NULL location.\<close>

definition sql_list :: "postgres \<Rightarrow> tables \<Rightarrow> (object_row \<times> string option) list res" where
  "sql_list P t =
     (if pg_fails P ''list_object_metadata'' t then sql_error ''list_object_metadata''
      else Inr (concat (map (\<lambda>r.
        case sort_key lr_shard_index (filter (\<lambda>l. lr_object_id l = or_id r) (t_locations t)) of
          [] \<Rightarrow> [(r, None)]
        | ls \<Rightarrow> map (\<lambda>l. (r, Some (lr_location l))) ls) (sort_key or_id (t_objects t)))))"

definition sql_register_node :: "postgres \<Rightarrow> nat \<Rightarrow> tables \<Rightarrow> string \<Rightarrow> tables res" where
  "sql_register_node P now t address =
     (if pg_fails P ''register_node'' t then sql_error ''register_node''
      else if \<not> pg_text_ok P address then sql_error ''invalid byte sequence''
      else if address \<in> nr_address ` set (t_nodes t) then Inr t
      else Inr (t\<lparr>t_nodes := t_nodes t @ [\<lparr>nr_address = address, nr_registered_at = now\<rparr>]\<rparr>))"

definition sql_unregister_node :: "postgres \<Rightarrow> tables \<Rightarrow> string \<Rightarrow> (nat \<times> tables) res" where
  "sql_unregister_node P t address =
     (if pg_fails P ''unregister_node'' t then sql_error ''unregister_node''
      else if \<not> pg_text_ok P address then sql_error ''invalid byte sequence''
      else Inr (length (filter (\<lambda>n. nr_address n = address) (t_nodes t)),
                t\<lparr>t_nodes := filter (\<lambda>n. nr_address n \<noteq> address) (t_nodes t)\<rparr>))"

definition sql_list_nodes :: "postgres \<Rightarrow> tables \<Rightarrow> string list res" where
  "sql_list_nodes P t =
     (if pg_fails P ''list_nodes'' t then sql_error ''list_nodes''
      else Inr (map nr_address (sort_key nr_registered_at (t_nodes t))))"

text \<open>\<open>tx.commit()\<close> of the changed copy \<open>t'\<close>, and the return value \<open>v\<close> after it.\<close>

definition commit :: "postgres \<Rightarrow> tables \<Rightarrow> tables \<Rightarrow> 'a \<Rightarrow> 'a res \<times> tables" where
  "commit P t t' v = (case pg_commit P t' of
      Committed \<Rightarrow> (Inr v, t')
    | Rolled_Back \<Rightarrow> (sql_error ''commit failed'', t)
    | In_Doubt \<Rightarrow> (sql_error ''commit in doubt'', t'))"

section \<open>The member functions\<close>

definition checked_size_to_i64 :: "64 word \<Rightarrow> int res" where
  "checked_size_to_i64 value =
     (if 9223372036854775807 < uint value
      then Inl (OverflowError ''ObjectMetadata.size exceeds PostgreSQL BIGINT range'')
      else Inr (uint value))"

definition validate_metadata :: "object_metadata \<Rightarrow> unit res" where
  "validate_metadata md =
     (if md_id md = [] then Inl (InvalidArgument ''ObjectMetadata.id must not be empty'')
      else if md_checksum md = [] then Inl (InvalidArgument ''ObjectMetadata.checksum must not be empty'')
      else if [] \<in> set (md_shard_locations md) then
        Inl (InvalidArgument ''ObjectMetadata.shard_locations must not contain empty locations'')
      else Inr ())"

definition row_to_object_metadata :: "msgpack \<Rightarrow> object_row \<Rightarrow> object_metadata res" where
  "row_to_object_metadata M r =
     (if or_size r < 0 then Inl (RuntimeError ''Database returned negative object size'')
      else bind_res (ErasureSpec_deserialize M (or_erasure_spec r)) (\<lambda>erasure.
        Inr \<lparr>md_id = or_id r, md_size = word_of_int (or_size r), md_checksum = or_checksum r,
             md_erasure = erasure, md_shard_locations = [], md_encrypted_dek = or_encrypted_dek r,
             md_kek_id = or_kek_id r, md_version = or_version r\<rparr>))"

text \<open>
  The insert loop; \<open>guarded\<close> is whether the code checks that the index fits an INTEGER. Without
  the check the cast wraps.
\<close>

fun insert_locations :: "postgres \<Rightarrow> bool \<Rightarrow> tables \<Rightarrow> string \<Rightarrow> nat \<Rightarrow> string list \<Rightarrow> tables res" where
  "insert_locations P guarded t oid i [] = Inr t"
| "insert_locations P guarded t oid i (location # rest) =
     (if guarded \<and> int32_max < int i then
        Inl (OverflowError ''Too many shard locations for INTEGER shard_index'')
      else bind_res (sql_insert_location P t oid (sint (word_of_nat i :: 32 word)) location) (\<lambda>t'.
        insert_locations P guarded t' oid (Suc i) rest))"

text \<open>The body of the transaction of \<open>put\<close>, and \<open>put\<close>: body and commit.\<close>

definition put_transaction :: "postgres \<Rightarrow> msgpack \<Rightarrow> tables \<Rightarrow> object_metadata \<Rightarrow> tables res" where
  "put_transaction P M t md =
     bind_res (validate_metadata md) (\<lambda>_.
     bind_res (checked_size_to_i64 (md_size md)) (\<lambda>object_size.
     let erasure_bytes = ErasureSpec_serialize M (md_erasure md) in
     if erasure_bytes = [] then
       Inl (InvalidArgument ''ObjectMetadata.erasure serialized to an empty buffer'')
     else
       bind_res (sql_put_object_metadata P t (md_id md) object_size (md_checksum md) erasure_bytes
                   (md_encrypted_dek md) (md_kek_id md)) (\<lambda>t1.
       bind_res (sql_delete_locations P t1 (md_id md)) (\<lambda>t2.
       insert_locations P True t2 (md_id md) 0 (md_shard_locations md)))))"

definition MetadataStore_put ::
    "postgres \<Rightarrow> msgpack \<Rightarrow> tables \<Rightarrow> object_metadata \<Rightarrow> unit res \<times> tables" where
  "MetadataStore_put P M t md =
     (case put_transaction P M t md of
        Inl e \<Rightarrow> (Inl e, t)
      | Inr t' \<Rightarrow> commit P t t' ())"

text \<open>
  \<open>get\<close> runs two statements in a read-committed transaction: the second may see tables \<open>t'\<close>
  that a commit changed since the first saw \<open>t\<close>. \<open>MetadataStore_get\<close> is the case without such a
  commit.
\<close>

definition MetadataStore_get_between ::
    "postgres \<Rightarrow> msgpack \<Rightarrow> tables \<Rightarrow> tables \<Rightarrow> string \<Rightarrow> object_metadata option res" where
  "MetadataStore_get_between P M t t' oid =
     bind_res (sql_get_object_metadata P t oid) (\<lambda>rows.
       case rows of
         [] \<Rightarrow> Inr None
       | r # _ \<Rightarrow> bind_res (row_to_object_metadata M r) (\<lambda>md.
           bind_res (sql_get_locations P t' oid) (\<lambda>locations.
             Inr (Some (md\<lparr>md_shard_locations := locations\<rparr>)))))"

definition MetadataStore_get :: "postgres \<Rightarrow> msgpack \<Rightarrow> tables \<Rightarrow> string \<Rightarrow> object_metadata option res" where
  "MetadataStore_get P M t oid = MetadataStore_get_between P M t t oid"

definition MetadataStore_remove :: "postgres \<Rightarrow> tables \<Rightarrow> string \<Rightarrow> bool res \<times> tables" where
  "MetadataStore_remove P t oid =
     (case sql_remove P t oid of
        Inl e \<Rightarrow> (Inl e, t)
      | Inr (affected, t') \<Rightarrow> commit P t t' (0 < affected))"

text \<open>One turn of the loop of \<open>list\<close>; the accumulator's last element is \<open>objects.back()\<close>.\<close>

definition list_step ::
    "msgpack \<Rightarrow> object_row \<times> string option \<Rightarrow> object_metadata list \<Rightarrow> object_metadata list res" where
  "list_step M row objects =
     (case row of (r, location) \<Rightarrow>
       bind_res (if objects = [] \<or> md_id (last objects) \<noteq> or_id r
                 then bind_res (row_to_object_metadata M r) (\<lambda>md. Inr (objects @ [md]))
                 else Inr objects) (\<lambda>objects.
         case location of
           None \<Rightarrow> Inr objects
         | Some l \<Rightarrow> Inr (butlast objects @ [(last objects)\<lparr>md_shard_locations :=
                              md_shard_locations (last objects) @ [l]\<rparr>])))"

fun list_loop ::
    "msgpack \<Rightarrow> (object_row \<times> string option) list \<Rightarrow> object_metadata list \<Rightarrow> object_metadata list res" where
  "list_loop M [] objects = Inr objects"
| "list_loop M (row # rows) objects = bind_res (list_step M row objects) (list_loop M rows)"

definition MetadataStore_list :: "postgres \<Rightarrow> msgpack \<Rightarrow> tables \<Rightarrow> object_metadata list res" where
  "MetadataStore_list P M t = bind_res (sql_list P t) (\<lambda>rows. list_loop M rows [])"

definition conditional_put_transaction ::
    "postgres \<Rightarrow> msgpack \<Rightarrow> tables \<Rightarrow> object_metadata \<Rightarrow> int \<Rightarrow> (bool \<times> tables) res" where
  "conditional_put_transaction P M t md expected_version =
     bind_res (validate_metadata md) (\<lambda>_.
     bind_res (checked_size_to_i64 (md_size md)) (\<lambda>object_size.
     bind_res (sql_conditional_put P t (md_id md) object_size (md_checksum md)
                 (ErasureSpec_serialize M (md_erasure md)) (md_encrypted_dek md) (md_kek_id md)
                 expected_version) (\<lambda>(affected, t1).
       if affected = 0 then Inr (False, t1)
       else bind_res (sql_delete_locations P t1 (md_id md)) (\<lambda>t2.
            bind_res (insert_locations P False t2 (md_id md) 0 (md_shard_locations md)) (\<lambda>t'.
              Inr (True, t'))))))"

definition conditional_put ::
    "postgres \<Rightarrow> msgpack \<Rightarrow> tables \<Rightarrow> object_metadata \<Rightarrow> int \<Rightarrow> bool res \<times> tables" where
  "conditional_put P M t md expected_version =
     (case conditional_put_transaction P M t md expected_version of
        Inl e \<Rightarrow> (Inl e, t)
      | Inr (done, t') \<Rightarrow> commit P t t' done)"

definition insert_if_absent_transaction ::
    "postgres \<Rightarrow> msgpack \<Rightarrow> tables \<Rightarrow> object_metadata \<Rightarrow> (bool \<times> tables) res" where
  "insert_if_absent_transaction P M t md =
     bind_res (validate_metadata md) (\<lambda>_.
     bind_res (checked_size_to_i64 (md_size md)) (\<lambda>object_size.
     let erasure_bytes = ErasureSpec_serialize M (md_erasure md) in
     if erasure_bytes = [] then
       Inl (InvalidArgument ''ObjectMetadata.erasure serialized to an empty buffer'')
     else
       bind_res (sql_insert_if_absent P t (md_id md) object_size (md_checksum md) erasure_bytes
                   (md_encrypted_dek md) (md_kek_id md)) (\<lambda>(inserted, t1).
         if inserted = 0 then Inr (False, t1)
         else bind_res (insert_locations P True t1 (md_id md) 0 (md_shard_locations md)) (\<lambda>t'.
                Inr (True, t')))))"

definition insert_if_absent ::
    "postgres \<Rightarrow> msgpack \<Rightarrow> tables \<Rightarrow> object_metadata \<Rightarrow> bool res \<times> tables" where
  "insert_if_absent P M t md =
     (case insert_if_absent_transaction P M t md of
        Inl e \<Rightarrow> (Inl e, t)
      | Inr (done, t') \<Rightarrow> commit P t t' done)"

definition register_node :: "postgres \<Rightarrow> nat \<Rightarrow> tables \<Rightarrow> string \<Rightarrow> unit res \<times> tables" where
  "register_node P now t address =
     (case sql_register_node P now t address of
        Inl e \<Rightarrow> (Inl e, t)
      | Inr t' \<Rightarrow> commit P t t' ())"

definition unregister_node :: "postgres \<Rightarrow> tables \<Rightarrow> string \<Rightarrow> bool res \<times> tables" where
  "unregister_node P t address =
     (case sql_unregister_node P t address of
        Inl e \<Rightarrow> (Inl e, t)
      | Inr (affected, t') \<Rightarrow> commit P t t' (0 < affected))"

definition list_nodes :: "postgres \<Rightarrow> tables \<Rightarrow> string list res" where
  "list_nodes P t = sql_list_nodes P t"

section \<open>The abstract catalog\<close>

text \<open>An object id (in canonical form) maps to its row and its locations in index order.\<close>

definition object_at :: "tables \<Rightarrow> string \<Rightarrow> object_row option" where
  "object_at t u = find (\<lambda>r. or_id r = u) (t_objects t)"

definition locations_at :: "tables \<Rightarrow> string \<Rightarrow> string list" where
  "locations_at t u =
     map lr_location (sort_key lr_shard_index (filter (\<lambda>l. lr_object_id l = u) (t_locations t)))"

definition catalog :: "tables \<Rightarrow> string \<Rightarrow> (object_row \<times> string list) option" where
  "catalog t u = map_option (\<lambda>r. (r, locations_at t u)) (object_at t u)"

text \<open>The constraints of the schema.\<close>

definition tables_ok :: "postgres \<Rightarrow> tables \<Rightarrow> bool" where
  "tables_ok P t \<longleftrightarrow>
     distinct (map or_id (t_objects t)) \<and>
     (\<forall>r\<in>set (t_objects t). pg_uuid P (or_id r) = Some (or_id r) \<and> 0 \<le> or_size r \<and>
        1 \<le> or_version r \<and> or_version r \<le> int32_max) \<and>
     distinct (map (\<lambda>l. (lr_object_id l, lr_shard_index l)) (t_locations t)) \<and>
     (\<forall>l\<in>set (t_locations t). lr_object_id l \<in> or_id ` set (t_objects t) \<and> 0 \<le> lr_shard_index l) \<and>
     distinct (map nr_address (t_nodes t))"

text \<open>The row a metadata record is stored as.\<close>

definition row_of :: "msgpack \<Rightarrow> object_metadata \<Rightarrow> string \<Rightarrow> int \<Rightarrow> object_row" where
  "row_of M md u v = \<lparr>or_id = u, or_size = uint (md_size md), or_checksum = md_checksum md,
     or_erasure_spec = ErasureSpec_serialize M (md_erasure md), or_encrypted_dek = md_encrypted_dek md,
     or_kek_id = md_kek_id md, or_version = v\<rparr>"

section \<open>Lemmas\<close>

lemma with_uuid_Inr:
  "with_uuid P s t oid f = Inr x \<longleftrightarrow> (\<exists>u. \<not> pg_fails P s t \<and> pg_uuid P oid = Some u \<and> f u = Inr x)"
  by (auto simp: with_uuid_def split: option.splits)

lemma commit_Inr: "commit P t t' v = (Inr w, t'') \<longleftrightarrow> pg_commit P t' = Committed \<and> w = v \<and> t'' = t'"
  by (auto simp: commit_def split: commit_outcome.splits)

lemma commit_tables: "commit P t t' v = (r, t'') \<Longrightarrow> t'' = t \<or> t'' = t'"
  by (auto simp: commit_def split: commit_outcome.splits)

lemma find_row: "distinct (map or_id rs) \<Longrightarrow> r \<in> set rs \<Longrightarrow> find (\<lambda>x. or_id x = or_id r) rs = Some r"
  by (induction rs) (auto simp: image_iff)

lemma find_Some_id: "find (\<lambda>r. or_id r = u) rs = Some r \<Longrightarrow> or_id r = u \<and> r \<in> set rs"
  by (auto simp: find_Some_iff)

lemma object_at_Some: "object_at t u = Some r \<Longrightarrow> or_id r = u \<and> r \<in> set (t_objects t)"
  unfolding object_at_def by (rule find_Some_id)

lemma object_at_None: "object_at t u = None \<longleftrightarrow> u \<notin> or_id ` set (t_objects t)"
  by (auto simp: object_at_def find_None_iff)

lemma checked_size_Inr: "checked_size_to_i64 s = Inr n \<longleftrightarrow> uint s < 2 ^ 63 \<and> n = uint s"
  by (auto simp: checked_size_to_i64_def)

lemma int32_index:
  "i \<le> 2147483648 \<Longrightarrow> 0 \<le> sint (word_of_nat i :: 32 word) \<Longrightarrow> i < 2147483648 \<and> sint (word_of_nat i :: 32 word) = int i"
proof -
  assume i: "i \<le> 2147483648" "0 \<le> sint (word_of_nat i :: 32 word)"
  have "sint (word_of_nat 2147483648 :: 32 word) < 0" by simp
  with i have "i \<noteq> 2147483648" by (metis not_less)
  with i(1) have "i < 2147483648" by linarith
  moreover from this have "sint (word_of_nat i :: 32 word) = int i"
    by (simp add: signed_of_nat signed_take_bit_int_eq_self)
  ultimately show ?thesis by simp
qed

definition new_locations :: "string \<Rightarrow> nat \<Rightarrow> string list \<Rightarrow> location_row list" where
  "new_locations u i ls = map (\<lambda>(j, l). \<lparr>lr_object_id = u, lr_shard_index = int j, lr_location = l\<rparr>)
     (zip [i..<i + length ls] ls)"

lemma new_locations_Cons:
  "new_locations u i (l # ls) = \<lparr>lr_object_id = u, lr_shard_index = int i, lr_location = l\<rparr> # new_locations u (Suc i) ls"
proof -
  have "[i..<i + length (l # ls)] = i # [Suc i..<Suc i + length ls]"
    using upt_conv_Cons [of i "Suc (i + length ls)"] by simp
  then show ?thesis unfolding new_locations_def by simp
qed

lemma insert_locations_tables:
  assumes "pg_uuid P oid = Some u"
  shows "insert_locations P g t oid i ls = Inr t' \<Longrightarrow> i \<le> 2147483648 \<Longrightarrow>
    t' = t\<lparr>t_locations := t_locations t @ new_locations u i ls\<rparr> \<and> (ls \<noteq> [] \<longrightarrow> u \<in> or_id ` set (t_objects t))"
proof (induction ls arbitrary: i t)
  case Nil
  then show ?case by (simp add: new_locations_def)
next
  case (Cons l ls)
  let ?idx = "sint (word_of_nat i :: 32 word)"
  obtain t1 where t1: "sql_insert_location P t oid ?idx l = Inr t1" "insert_locations P g t1 oid (Suc i) ls = Inr t'"
    using Cons.prems(1) by (auto split: if_splits)
  then have e: "0 \<le> ?idx" "u \<in> or_id ` set (t_objects t)"
    "t1 = t\<lparr>t_locations := t_locations t @ [\<lparr>lr_object_id = u, lr_shard_index = ?idx, lr_location = l\<rparr>]\<rparr>"
    using assms by (auto simp: sql_insert_location_def with_uuid_Inr split: if_splits)
  have i: "i < 2147483648" "?idx = int i" using int32_index [OF Cons.prems(2) e(1)] by auto
  then have "t' = t1\<lparr>t_locations := t_locations t1 @ new_locations u (Suc i) ls\<rparr>"
    using Cons.IH [OF t1(2)] by simp
  then show ?case using e i(2) by (simp add: new_locations_Cons)
qed

lemma new_locations_other: "v \<noteq> u \<Longrightarrow> filter (\<lambda>l. lr_object_id l = v) (new_locations u i ls) = []"
  by (induction ls arbitrary: i) (auto simp: new_locations_Cons, simp add: new_locations_def)

lemma new_locations_own: "filter (\<lambda>l. lr_object_id l = u) (new_locations u i ls) = new_locations u i ls"
  by (induction ls arbitrary: i) (auto simp: new_locations_Cons, simp add: new_locations_def)

lemma new_locations_sorted: "sort_key lr_shard_index (new_locations u i ls) = new_locations u i ls"
proof (rule sort_key_id_if_sorted)
  have "map lr_shard_index (new_locations u i ls) = map int [i..<i + length ls]"
    by (rule nth_equalityI) (auto simp: new_locations_def)
  then show "sorted (map lr_shard_index (new_locations u i ls))" by (simp add: sorted_map)
qed

lemma map_location_new: "map lr_location (new_locations u i ls) = ls"
  by (rule nth_equalityI) (auto simp: new_locations_def)

lemma locations_at_replaced:
  assumes "t_locations t' = filter (\<lambda>l. lr_object_id l \<noteq> u) (t_locations t) @ new_locations u 0 ls"
  shows "locations_at t' v = (if v = u then ls else locations_at t v)"
proof -
  have *: "filter (\<lambda>l. lr_object_id l \<noteq> u \<and> lr_object_id l = v) L = filter (\<lambda>l. lr_object_id l = v) L"
    if "v \<noteq> u" for L using that by (auto intro: filter_cong)
  have "filter (\<lambda>l. lr_object_id l = v) (t_locations t') =
      (if v = u then new_locations u 0 ls else filter (\<lambda>l. lr_object_id l = v) (t_locations t))"
    by (cases "v = u") (simp_all add: assms new_locations_other new_locations_own *)
  then show ?thesis by (simp add: locations_at_def new_locations_sorted map_location_new)
qed

text \<open>Replacing an object: its row, old or new, and all its locations.\<close>

definition set_object :: "object_row list \<Rightarrow> string \<Rightarrow> object_row \<Rightarrow> object_row list" where
  "set_object rs u row = (if u \<in> or_id ` set rs then map (\<lambda>r. if or_id r = u then row else r) rs else rs @ [row])"

definition replaced :: "tables \<Rightarrow> string \<Rightarrow> object_row \<Rightarrow> string list \<Rightarrow> tables" where
  "replaced t u row ls = t\<lparr>t_objects := set_object (t_objects t) u row,
     t_locations := filter (\<lambda>l. lr_object_id l \<noteq> u) (t_locations t) @ new_locations u 0 ls\<rparr>"

definition next_version :: "tables \<Rightarrow> string \<Rightarrow> int" where
  "next_version t u = (case object_at t u of None \<Rightarrow> 1 | Some r \<Rightarrow> or_version r + 1)"

lemma find_map_absent:
  "u \<notin> or_id ` set rs \<Longrightarrow> map (\<lambda>r. if or_id r = u then row else r) rs = rs"
  by (auto intro!: map_idI)

lemma find_map_row:
  "or_id row = u \<Longrightarrow> u \<in> or_id ` set rs \<Longrightarrow>
   find (\<lambda>r. or_id r = w) (map (\<lambda>r. if or_id r = u then row else r) rs) =
     (if w = u then Some row else find (\<lambda>r. or_id r = w) rs)"
proof (induction rs)
  case (Cons r rs)
  then show ?case by (cases "u \<in> or_id ` set rs") (auto simp: find_map_absent)
qed simp

lemma find_snoc_row:
  "or_id row = u \<Longrightarrow> u \<notin> or_id ` set rs \<Longrightarrow>
   find (\<lambda>r. or_id r = w) (rs @ [row]) = (if w = u then Some row else find (\<lambda>r. or_id r = w) rs)"
  by (induction rs) auto

lemma find_set_object:
  "or_id row = u \<Longrightarrow> find (\<lambda>r. or_id r = w) (set_object rs u row) =
     (if w = u then Some row else find (\<lambda>r. or_id r = w) rs)"
  by (simp add: set_object_def find_map_row find_snoc_row)

lemma ids_set_object:
  "or_id row = u \<Longrightarrow> map or_id (set_object rs u row) = (if u \<in> or_id ` set rs then map or_id rs else map or_id rs @ [u])"
  by (auto simp: set_object_def)

lemma set_object_subset: "set (set_object rs u row) \<subseteq> insert row (set rs)"
  by (auto simp: set_object_def)

lemma catalog_replaced:
  assumes "or_id row = u"
  shows "catalog (replaced t u row ls) = (catalog t)(u \<mapsto> (row, ls))"
proof
  fix w
  have o: "object_at (replaced t u row ls) w = (if w = u then Some row else object_at t w)"
    by (simp add: object_at_def replaced_def find_set_object [OF assms])
  have l: "locations_at (replaced t u row ls) w = (if w = u then ls else locations_at t w)"
    by (rule locations_at_replaced) (simp add: replaced_def)
  show "catalog (replaced t u row ls) w = ((catalog t)(u \<mapsto> (row, ls))) w"
    by (simp add: catalog_def o l)
qed

lemma new_locations_keys:
  "map (\<lambda>l. (lr_object_id l, lr_shard_index l)) (new_locations u i ls) = map (\<lambda>j. (u, int j)) [i..<i + length ls]"
  by (rule nth_equalityI) (auto simp: new_locations_def)

lemma new_locations_in:
  assumes "l \<in> set (new_locations u i ls)"
  shows "lr_object_id l = u \<and> 0 \<le> lr_shard_index l"
  using assms by (auto simp: new_locations_def)

lemma tables_ok_replaced:
  assumes "tables_ok P t" and "pg_uuid P u = Some u" and "or_id row = u" and "0 \<le> or_size row"
    and "1 \<le> or_version row" and "or_version row \<le> int32_max"
  shows "tables_ok P (replaced t u row ls)"
proof -
  let ?t = "replaced t u row ls" and ?key = "\<lambda>l. (lr_object_id l, lr_shard_index l)"
  let ?old = "filter (\<lambda>l. lr_object_id l \<noteq> u) (t_locations t)"
  have ids: "map or_id (t_objects ?t) = (if u \<in> or_id ` set (t_objects t) then map or_id (t_objects t)
      else map or_id (t_objects t) @ [u])"
    by (simp add: replaced_def ids_set_object [OF assms(3)])
  have idset: "or_id ` set (t_objects ?t) = insert u (or_id ` set (t_objects t))"
    using arg_cong [OF ids, of set] by (auto split: if_splits)
  have "distinct (map or_id (t_objects ?t))" unfolding ids using assms(1) by (auto simp: tables_ok_def)
  moreover have "\<forall>r\<in>set (t_objects ?t). pg_uuid P (or_id r) = Some (or_id r) \<and> 0 \<le> or_size r \<and>
      1 \<le> or_version r \<and> or_version r \<le> int32_max"
    using assms set_object_subset [of "t_objects t" u row] by (auto simp: tables_ok_def replaced_def)
  moreover have "distinct (map ?key (t_locations ?t))"
  proof -
    have "distinct (map ?key (t_locations t))" using assms(1) by (simp add: tables_ok_def)
    then have "distinct (map ?key ?old)" by (induction "t_locations t" rule: list.induct) (use distinct_map_filter in blast)+
    moreover have "distinct (map ?key (new_locations u 0 ls))"
      unfolding new_locations_keys by (simp add: distinct_map inj_on_def)
    moreover have "set (map ?key ?old) \<inter> set (map ?key (new_locations u 0 ls)) = {}"
      unfolding new_locations_keys by auto
    ultimately have "distinct (map ?key (?old @ new_locations u 0 ls))"
      by (simp only: map_append distinct_append not_False_eq_True)
    then show ?thesis by (simp add: replaced_def)
  qed
  moreover have "\<forall>l\<in>set (t_locations ?t). lr_object_id l \<in> or_id ` set (t_objects ?t) \<and> 0 \<le> lr_shard_index l"
    unfolding idset using assms(1) by (auto simp: replaced_def tables_ok_def dest: new_locations_in)
  moreover have "distinct (map nr_address (t_nodes ?t))" using assms(1) by (simp add: tables_ok_def replaced_def)
  ultimately show ?thesis unfolding tables_ok_def by blast
qed

lemma validate_Inr:
  "validate_metadata md = Inr x \<longleftrightarrow> md_id md \<noteq> [] \<and> md_checksum md \<noteq> [] \<and> [] \<notin> set (md_shard_locations md)"
  by (auto simp: validate_metadata_def)

text \<open>
  The update the two SQL upserts share.\<close>

lemma update_rows:
  assumes "distinct (map or_id (t_objects t))" and "object_at t u = Some r"
  shows "map (\<lambda>x. if or_id x = u then
      \<lparr>or_id = u, or_size = uint (md_size md), or_checksum = md_checksum md,
       or_erasure_spec = ErasureSpec_serialize M (md_erasure md), or_encrypted_dek = md_encrypted_dek md,
       or_kek_id = md_kek_id md, or_version = or_version x + 1\<rparr> else x) (t_objects t) =
    set_object (t_objects t) u (row_of M md u (or_version r + 1))"
proof -
  have r: "r \<in> set (t_objects t)" "or_id r = u" using object_at_Some [OF assms(2)] by auto
  have "x = r" if "x \<in> set (t_objects t)" "or_id x = u" for x
    using that r assms(1) by (metis distinct_map inj_on_eq_iff)
  moreover have "u \<in> or_id ` set (t_objects t)" using r by force
  ultimately show ?thesis unfolding set_object_def row_of_def by (auto intro!: map_cong)
qed

lemma put_transaction_spec:
  assumes "tables_ok P t" and "put_transaction P M t md = Inr t'"
  shows "\<exists>u. pg_uuid P (md_id md) = Some u \<and> uint (md_size md) < 2 ^ 63 \<and> next_version t u \<le> int32_max \<and>
    t' = replaced t u (row_of M md u (next_version t u)) (md_shard_locations md)"
proof -
  obtain t1 t2 where t: "uint (md_size md) < 2 ^ 63"
    "sql_put_object_metadata P t (md_id md) (uint (md_size md)) (md_checksum md)
       (ErasureSpec_serialize M (md_erasure md)) (md_encrypted_dek md) (md_kek_id md) = Inr t1"
    "sql_delete_locations P t1 (md_id md) = Inr t2"
    "insert_locations P True t2 (md_id md) 0 (md_shard_locations md) = Inr t'"
    using assms(2) by (auto simp: put_transaction_def Let_def checked_size_Inr split: if_splits)
  obtain u where u: "pg_uuid P (md_id md) = Some u" using t(3) by (auto simp: sql_delete_locations_def with_uuid_Inr)
  have d: "distinct (map or_id (t_objects t))" using assms(1) by (simp add: tables_ok_def)
  have t1: "t1 = t\<lparr>t_objects := set_object (t_objects t) u (row_of M md u (next_version t u))\<rparr> \<and> next_version t u \<le> int32_max"
  proof (cases "object_at t u")
    case None
    then have "u \<notin> or_id ` set (t_objects t)" by (simp only: object_at_None not_False_eq_True)
    then show ?thesis using t(2) u None
      by (auto simp: sql_put_object_metadata_def with_uuid_Inr next_version_def object_at_def set_object_def row_of_def
          int32_max_def split: if_splits)
  next
    case (Some r)
    then have "find (\<lambda>r. or_id r = u) (t_objects t) = Some r" by (simp add: object_at_def)
    then show ?thesis using t(2) u update_rows [OF d Some, of md M] Some
      by (auto simp: sql_put_object_metadata_def with_uuid_Inr next_version_def split: if_splits)
  qed
  have t2: "t2 = t1\<lparr>t_locations := filter (\<lambda>l. lr_object_id l \<noteq> u) (t_locations t1)\<rparr>"
    using t(3) u by (auto simp: sql_delete_locations_def with_uuid_Inr)
  have "t' = t2\<lparr>t_locations := t_locations t2 @ new_locations u 0 (md_shard_locations md)\<rparr>"
    using insert_locations_tables [OF u t(4)] by simp
  then show ?thesis using u t(1) t1 t2 by (intro exI [of _ u]) (simp add: replaced_def)
qed

lemma sql_conditional_put_spec:
  assumes "distinct (map or_id (t_objects t))" and "pg_uuid P oid = Some u"
    and "sql_conditional_put P t oid (uint (md_size md)) (md_checksum md)
       (ErasureSpec_serialize M (md_erasure md)) (md_encrypted_dek md) (md_kek_id md) expected = Inr (n, t1)"
  shows "(n = 0 \<and> t1 = t \<and> (\<forall>r. object_at t u = Some r \<longrightarrow> or_version r \<noteq> expected)) \<or>
    (n = 1 \<and> (\<exists>r. object_at t u = Some r \<and> or_version r = expected) \<and> expected < int32_max \<and>
     t1 = t\<lparr>t_objects := set_object (t_objects t) u (row_of M md u (expected + 1))\<rparr>)"
proof (cases "find (\<lambda>r. or_id r = u \<and> or_version r = expected) (t_objects t)")
  case None
  then have "n = 0 \<and> t1 = t" using assms(2,3) by (auto simp: sql_conditional_put_def with_uuid_Inr split: if_splits)
  moreover have "\<forall>r. object_at t u = Some r \<longrightarrow> or_version r \<noteq> expected"
    using None by (auto simp: find_None_iff dest!: object_at_Some)
  ultimately show ?thesis by blast
next
  case (Some r)
  then have r: "r \<in> set (t_objects t)" "or_id r = u" "or_version r = expected" by (auto simp: find_Some_iff)
  then have o: "object_at t u = Some r" using find_row [OF assms(1) r(1)] by (simp add: object_at_def)
  then show ?thesis
    using assms(2,3) Some r update_rows [OF assms(1) o, of md M]
    by (auto simp: sql_conditional_put_def with_uuid_Inr split: if_splits)
qed

lemma conditional_put_transaction_spec:
  assumes "tables_ok P t" and "conditional_put_transaction P M t md expected = Inr (b, t')"
  shows "\<exists>u. pg_uuid P (md_id md) = Some u \<and> uint (md_size md) < 2 ^ 63 \<and>
    (if b then (\<exists>r. object_at t u = Some r \<and> or_version r = expected) \<and> expected < int32_max \<and>
        t' = replaced t u (row_of M md u (expected + 1)) (md_shard_locations md)
     else t' = t \<and> (\<forall>r. object_at t u = Some r \<longrightarrow> or_version r \<noteq> expected))"
proof -
  obtain n t1 where t: "uint (md_size md) < 2 ^ 63"
    "sql_conditional_put P t (md_id md) (uint (md_size md)) (md_checksum md)
       (ErasureSpec_serialize M (md_erasure md)) (md_encrypted_dek md) (md_kek_id md) expected = Inr (n, t1)"
    "(if n = 0 then Inr (False, t1)
      else bind_res (sql_delete_locations P t1 (md_id md)) (\<lambda>t2.
           bind_res (insert_locations P False t2 (md_id md) 0 (md_shard_locations md)) (\<lambda>t'. Inr (True, t'))))
     = Inr (b, t')"
    using assms(2) by (auto simp: conditional_put_transaction_def checked_size_Inr)
  obtain u where u: "pg_uuid P (md_id md) = Some u" using t(2) by (auto simp: sql_conditional_put_def with_uuid_Inr)
  have d: "distinct (map or_id (t_objects t))" using assms(1) by (simp add: tables_ok_def)
  note s = sql_conditional_put_spec [OF d u t(2)]
  show ?thesis
  proof (cases "n = 0")
    case True
    then show ?thesis using s t(1,3) u by auto
  next
    case False
    then obtain t2 where t2: "sql_delete_locations P t1 (md_id md) = Inr t2" "b"
      "insert_locations P False t2 (md_id md) 0 (md_shard_locations md) = Inr t'" using t(3) by auto
    then have "t' = t2\<lparr>t_locations := t_locations t2 @ new_locations u 0 (md_shard_locations md)\<rparr>"
      using insert_locations_tables [OF u t2(3)] by simp
    moreover have "t2 = t1\<lparr>t_locations := filter (\<lambda>l. lr_object_id l \<noteq> u) (t_locations t1)\<rparr>"
      using t2(1) u by (auto simp: sql_delete_locations_def with_uuid_Inr)
    ultimately show ?thesis using s False u t(1) t2(2) by (intro exI [of _ u]) (auto simp: replaced_def)
  qed
qed

lemma insert_if_absent_transaction_spec:
  assumes "tables_ok P t" and "insert_if_absent_transaction P M t md = Inr (b, t')"
  shows "\<exists>u. pg_uuid P (md_id md) = Some u \<and> uint (md_size md) < 2 ^ 63 \<and>
    (if b then object_at t u = None \<and> t' = replaced t u (row_of M md u 1) (md_shard_locations md)
     else t' = t \<and> object_at t u \<noteq> None)"
proof -
  obtain n t1 where t: "uint (md_size md) < 2 ^ 63"
    "sql_insert_if_absent P t (md_id md) (uint (md_size md)) (md_checksum md)
       (ErasureSpec_serialize M (md_erasure md)) (md_encrypted_dek md) (md_kek_id md) = Inr (n, t1)"
    "(if n = 0 then Inr (False, t1)
      else bind_res (insert_locations P True t1 (md_id md) 0 (md_shard_locations md)) (\<lambda>t'. Inr (True, t'))) = Inr (b, t')"
    using assms(2) by (auto simp: insert_if_absent_transaction_def Let_def checked_size_Inr split: if_splits)
  obtain u where u: "pg_uuid P (md_id md) = Some u" using t(2) by (auto simp: sql_insert_if_absent_def with_uuid_Inr)
  show ?thesis
  proof (cases "object_at t u")
    case (Some r)
    then have "n = 0 \<and> t1 = t" using t(2) u
      by (auto simp: sql_insert_if_absent_def with_uuid_Inr object_at_def split: if_splits)
    then show ?thesis using t u Some by auto
  next
    case None
    then have abs: "u \<notin> or_id ` set (t_objects t)" by (simp only: object_at_None not_False_eq_True)
    have n: "n = 1 \<and> t1 = t\<lparr>t_objects := set_object (t_objects t) u (row_of M md u 1)\<rparr>"
      using t(2) u None abs
      by (auto simp: sql_insert_if_absent_def with_uuid_Inr object_at_def set_object_def row_of_def split: if_splits)
    then have b: "b" "insert_locations P True t1 (md_id md) 0 (md_shard_locations md) = Inr t'" using t(3) by auto
    then have "t' = t1\<lparr>t_locations := t_locations t1 @ new_locations u 0 (md_shard_locations md)\<rparr>"
      using insert_locations_tables [OF u b(2)] by simp
    moreover have "\<forall>l\<in>set (t_locations t). lr_object_id l \<noteq> u"
      using assms(1) abs unfolding tables_ok_def by metis
    then have "filter (\<lambda>l. lr_object_id l \<noteq> u) (t_locations t) = t_locations t" by (simp add: filter_id_conv)
    ultimately show ?thesis using n b(1) u t(1) None by (intro exI [of _ u]) (simp add: replaced_def)
  qed
qed

text \<open>
  Reading back.\<close>

lemma row_to_metadata_of:
  "msgpack_ok M \<Longrightarrow> row_to_object_metadata M (row_of M md u v) =
     Inr (md\<lparr>md_id := u, md_version := v, md_shard_locations := []\<rparr>)"
  by (simp add: row_to_object_metadata_def row_of_def)

lemma filter_find_row:
  "distinct (map or_id rs) \<Longrightarrow>
   filter (\<lambda>r. or_id r = u) rs = (case find (\<lambda>r. or_id r = u) rs of None \<Rightarrow> [] | Some r \<Rightarrow> [r])"
proof (induction rs)
  case (Cons r rs)
  have "find (\<lambda>r. or_id r = u) rs = None" if "or_id r = u"
    using Cons.prems that unfolding find_None_iff by (metis distinct.simps(2) image_eqI list.set_map list.simps(9))
  with Cons show ?case by auto
qed simp

lemma filter_object_at:
  "distinct (map or_id (t_objects t)) \<Longrightarrow>
   filter (\<lambda>r. or_id r = u) (t_objects t) = (case object_at t u of None \<Rightarrow> [] | Some r \<Rightarrow> [r])"
  unfolding object_at_def by (rule filter_find_row)

definition reads_ok :: "postgres \<Rightarrow> tables \<Rightarrow> bool" where
  "reads_ok P t \<longleftrightarrow> (\<forall>s\<in>{''get_object_metadata'', ''get_object_shard_locations'', ''list_object_metadata'',
     ''list_nodes''}. \<not> pg_fails P s t)"

lemma get_catalog:
  assumes "tables_ok P t" and "pg_uuid P oid = Some u" and "reads_ok P t"
  shows "MetadataStore_get P M t oid = (case catalog t u of
      None \<Rightarrow> Inr None
    | Some (r, ls) \<Rightarrow> bind_res (row_to_object_metadata M r) (\<lambda>md. Inr (Some (md\<lparr>md_shard_locations := ls\<rparr>))))"
proof -
  have d: "distinct (map or_id (t_objects t))" using assms(1) by (simp add: tables_ok_def)
  have g: "sql_get_object_metadata P t oid = Inr (case object_at t u of None \<Rightarrow> [] | Some r \<Rightarrow> [r])"
    using assms(2,3) filter_object_at [OF d, of u] by (simp add: sql_get_object_metadata_def with_uuid_def reads_ok_def)
  have l: "sql_get_locations P t oid = Inr (locations_at t u)"
    using assms(2,3) by (simp add: sql_get_locations_def with_uuid_def reads_ok_def locations_at_def)
  show ?thesis
    unfolding MetadataStore_get_def MetadataStore_get_between_def g l catalog_def
    by (cases "object_at t u") simp_all
qed

lemma get_Inr_reads:
  assumes "MetadataStore_get P M t oid = Inr (Some md)"
  shows "\<exists>u. pg_uuid P oid = Some u"
  using assms by (auto simp: MetadataStore_get_def MetadataStore_get_between_def sql_get_object_metadata_def with_uuid_Inr)

text \<open>
  Removing.\<close>

lemma remove_transaction_spec:
  assumes "tables_ok P t" and "sql_remove P t oid = Inr (n, t')"
  shows "\<exists>u. pg_uuid P oid = Some u \<and> (0 < n \<longleftrightarrow> object_at t u \<noteq> None) \<and>
    catalog t' = (catalog t)(u := None) \<and> tables_ok P t' \<and> t_nodes t' = t_nodes t"
proof -
  obtain u where u: "pg_uuid P oid = Some u" "n = length (filter (\<lambda>r. or_id r = u) (t_objects t))"
    "t' = t\<lparr>t_objects := filter (\<lambda>r. or_id r \<noteq> u) (t_objects t),
           t_locations := filter (\<lambda>l. lr_object_id l \<noteq> u) (t_locations t)\<rparr>"
    using assms(2) by (auto simp: sql_remove_def with_uuid_Inr)
  have d: "distinct (map or_id (t_objects t))" using assms(1) by (simp add: tables_ok_def)
  have n: "0 < n \<longleftrightarrow> object_at t u \<noteq> None"
    unfolding u(2) filter_object_at [OF d] by (simp split: option.splits)
  have f: "find (\<lambda>r. or_id r = w) (filter (\<lambda>r. or_id r \<noteq> u) rs) = (if w = u then None else find (\<lambda>r. or_id r = w) rs)"
    for w rs by (induction rs) auto
  have l: "filter (\<lambda>l. lr_object_id l \<noteq> u \<and> lr_object_id l = w) L = filter (\<lambda>l. lr_object_id l = w) L"
    if "w \<noteq> u" for w L using that by (auto intro: filter_cong)
  have c: "catalog t' = (catalog t)(u := None)"
    by (rule ext) (simp add: catalog_def object_at_def locations_at_def u(3) f l)
  have "distinct (map (\<lambda>l. (lr_object_id l, lr_shard_index l)) (t_locations t'))"
    using assms(1) by (simp add: tables_ok_def u(3) distinct_map_filter)
  moreover have "\<forall>l\<in>set (t_locations t'). lr_object_id l \<in> or_id ` set (t_objects t') \<and> 0 \<le> lr_shard_index l"
    using assms(1) by (fastforce simp: tables_ok_def u(3))
  ultimately have "tables_ok P t'" using assms(1) by (simp add: tables_ok_def u(3) distinct_map_filter)
  with n c u show ?thesis by auto
qed

text \<open>Listing: one block of rows per object.\<close>

definition object_rows :: "tables \<Rightarrow> object_row \<Rightarrow> (object_row \<times> string option) list" where
  "object_rows t r = (case sort_key lr_shard_index (filter (\<lambda>l. lr_object_id l = or_id r) (t_locations t)) of
     [] \<Rightarrow> [(r, None)] | ls \<Rightarrow> map (\<lambda>l. (r, Some (lr_location l))) ls)"

lemma object_rows_locations:
  "object_rows t r = (if locations_at t (or_id r) = [] then [(r, None)]
     else map (\<lambda>l. (r, Some l)) (locations_at t (or_id r)))"
  by (auto simp: object_rows_def locations_at_def comp_def split: list.splits)

lemma list_loop_append: "list_loop M (xs @ ys) objs = bind_res (list_loop M xs objs) (list_loop M ys)"
proof (induction xs arbitrary: objs)
  case (Cons x xs)
  then show ?case by (cases "list_step M x objs") simp_all
qed simp

lemma list_loop_same:
  "md_id md = or_id r \<Longrightarrow> list_loop M (map (\<lambda>l. (r, Some l)) ls) (objs @ [md]) =
     Inr (objs @ [md\<lparr>md_shard_locations := md_shard_locations md @ ls\<rparr>])"
  by (induction ls arbitrary: md) (simp_all add: list_step_def)

lemma row_to_id: "row_to_object_metadata M r = Inr md \<Longrightarrow> md_id md = or_id r \<and> md_shard_locations md = []"
  by (auto simp: row_to_object_metadata_def split: if_splits)

lemma list_loop_block:
  assumes "objs = [] \<or> md_id (last objs) \<noteq> or_id r"
  shows "list_loop M (object_rows t r) objs =
    bind_res (row_to_object_metadata M r) (\<lambda>md. Inr (objs @ [md\<lparr>md_shard_locations := locations_at t (or_id r)\<rparr>]))"
proof (cases "row_to_object_metadata M r")
  case (Inl e)
  then show ?thesis using assms by (cases "locations_at t (or_id r)") (auto simp: object_rows_locations list_step_def)
next
  case (Inr md)
  then have md: "md_id md = or_id r" "md_shard_locations md = []" using row_to_id by auto
  show ?thesis
  proof (cases "locations_at t (or_id r)")
    case Nil
    then show ?thesis using assms Inr md by (auto simp: object_rows_locations list_step_def)
  next
    case (Cons l ls)
    have "list_step M (r, Some l) objs = Inr (objs @ [md\<lparr>md_shard_locations := [l]\<rparr>])"
      using assms Inr md by (auto simp: list_step_def)
    then show ?thesis using Inr md Cons list_loop_same [of "md\<lparr>md_shard_locations := [l]\<rparr>" r M ls objs]
      by (simp add: object_rows_locations)
  qed
qed

lemma list_loop_objects:
  "distinct (map or_id rs) \<Longrightarrow> objs = [] \<or> md_id (last objs) \<notin> or_id ` set rs \<Longrightarrow>
   list_loop M (concat (map (object_rows t) rs)) objs = Inr mds \<Longrightarrow>
   \<exists>new. mds = objs @ new \<and> list_all2 (\<lambda>r md. bind_res (row_to_object_metadata M r)
     (\<lambda>md. Inr (md\<lparr>md_shard_locations := locations_at t (or_id r)\<rparr>)) = Inr md) rs new"
proof (induction rs arbitrary: objs)
  case (Cons r rs)
  have "objs = [] \<or> md_id (last objs) \<noteq> or_id r" using Cons.prems(2) by auto
  note b = list_loop_block [OF this, of M t]
  obtain md where md: "row_to_object_metadata M r = Inr md"
    using Cons.prems(3) b by (cases "row_to_object_metadata M r") (auto simp: list_loop_append)
  let ?md = "md\<lparr>md_shard_locations := locations_at t (or_id r)\<rparr>"
  have "list_loop M (concat (map (object_rows t) rs)) (objs @ [?md]) = Inr mds"
    using Cons.prems(3) b md by (simp add: list_loop_append)
  moreover have "objs @ [?md] = [] \<or> md_id (last (objs @ [?md])) \<notin> or_id ` set rs"
    using Cons.prems(1) row_to_id [OF md] by simp
  ultimately obtain new where "mds = (objs @ [?md]) @ new" "list_all2 (\<lambda>r md. bind_res (row_to_object_metadata M r)
     (\<lambda>md. Inr (md\<lparr>md_shard_locations := locations_at t (or_id r)\<rparr>)) = Inr md) rs new"
    using Cons.IH [of "objs @ [?md]"] Cons.prems(1) by auto
  then show ?case using md by (intro exI [of _ "?md # new"]) simp
qed simp

lemma list_catalog:
  assumes "tables_ok P t" and "MetadataStore_list P M t = Inr mds"
  shows "list_all2 (\<lambda>r md. bind_res (row_to_object_metadata M r)
     (\<lambda>md. Inr (md\<lparr>md_shard_locations := locations_at t (or_id r)\<rparr>)) = Inr md) (sort_key or_id (t_objects t)) mds"
proof -
  have "\<not> pg_fails P ''list_object_metadata'' t"
    using assms(2) by (auto simp: MetadataStore_list_def sql_list_def split: if_splits)
  then have "list_loop M (concat (map (object_rows t) (sort_key or_id (t_objects t)))) [] = Inr mds"
    using assms(2) by (simp add: MetadataStore_list_def sql_list_def object_rows_def [abs_def])
  moreover have "distinct (map or_id (sort_key or_id (t_objects t)))"
  proof -
    have "mset (map or_id (sort_key or_id (t_objects t))) = mset (map or_id (t_objects t))" by simp
    then show ?thesis using assms(1) unfolding tables_ok_def by (metis mset_eq_imp_distinct_iff)
  qed
  ultimately show ?thesis using list_loop_objects [of "sort_key or_id (t_objects t)" "[]" M t mds] by simp
qed

text \<open>
  Every operation keeps the constraints of the schema.\<close>

lemma object_at_ok:
  assumes "tables_ok P t" and "object_at t u = Some r"
  shows "pg_uuid P u = Some u \<and> 1 \<le> or_version r \<and> or_version r \<le> int32_max"
  using assms object_at_Some [OF assms(2)] by (auto simp: tables_ok_def)

lemma row_of_fields [simp]:
  "or_id (row_of M md u v) = u" "or_version (row_of M md u v) = v" "0 \<le> or_size (row_of M md u v)"
  by (simp_all add: row_of_def)

lemma next_version_pos: "tables_ok P t \<Longrightarrow> 1 \<le> next_version t u"
  by (auto simp: next_version_def split: option.splits dest: object_at_ok)

lemma put_transaction_ok:
  assumes "postgres_ok P" and "tables_ok P t" and "put_transaction P M t md = Inr t'"
  shows "tables_ok P t'"
proof -
  obtain u where u: "pg_uuid P (md_id md) = Some u" "next_version t u \<le> int32_max"
    "t' = replaced t u (row_of M md u (next_version t u)) (md_shard_locations md)"
    using put_transaction_spec [OF assms(2,3)] by blast
  then show ?thesis
    using assms(1,2) next_version_pos [OF assms(2)] by (auto intro!: tables_ok_replaced simp: postgres_ok_def)
qed

lemma conditional_put_transaction_ok:
  assumes "tables_ok P t" and "conditional_put_transaction P M t md v = Inr (b, t')"
  shows "tables_ok P t'"
proof (cases b)
  case True
  then obtain u r where u: "object_at t u = Some r" "or_version r = v" "v < int32_max"
    "t' = replaced t u (row_of M md u (v + 1)) (md_shard_locations md)"
    using conditional_put_transaction_spec [OF assms] by auto
  then show ?thesis using object_at_ok [OF assms(1) u(1)] assms(1) by (auto intro!: tables_ok_replaced)
next
  case False
  then show ?thesis using conditional_put_transaction_spec [OF assms] assms(1) by auto
qed

lemma insert_if_absent_transaction_ok:
  assumes "postgres_ok P" and "tables_ok P t" and "insert_if_absent_transaction P M t md = Inr (b, t')"
  shows "tables_ok P t'"
proof (cases b)
  case True
  then obtain u where u: "pg_uuid P (md_id md) = Some u" "t' = replaced t u (row_of M md u 1) (md_shard_locations md)"
    using insert_if_absent_transaction_spec [OF assms(2,3)] by auto
  then show ?thesis using assms(1,2) by (auto intro!: tables_ok_replaced simp: postgres_ok_def int32_max_def)
next
  case False
  then show ?thesis using insert_if_absent_transaction_spec [OF assms(2,3)] assms(2) by auto
qed

lemma register_node_ok: "tables_ok P t \<Longrightarrow> register_node P now t a = (r, t') \<Longrightarrow> tables_ok P t'"
  by (auto simp: register_node_def sql_register_node_def tables_ok_def split: sum.splits if_splits dest!: commit_tables)

lemma unregister_node_ok: "tables_ok P t \<Longrightarrow> unregister_node P t a = (r, t') \<Longrightarrow> tables_ok P t'"
  by (auto simp: unregister_node_def sql_unregister_node_def tables_ok_def distinct_map_filter
      split: sum.splits if_splits dest!: commit_tables)

text \<open>
  What was put is read back.\<close>

lemma get_after_put:
  assumes "tables_ok P t" and "msgpack_ok M" and "postgres_ok P"
    and "MetadataStore_put P M t md = (Inr (), t')" and "reads_ok P t'"
    and "pg_uuid P (md_id md) = Some u" and "pg_uuid P oid = Some u"
  shows "MetadataStore_get P M t' oid = Inr (Some (md\<lparr>md_id := u, md_version := next_version t u\<rparr>))"
proof -
  have p: "put_transaction P M t md = Inr t'"
    using assms(4) by (auto simp: MetadataStore_put_def commit_Inr split: sum.splits)
  then have c: "catalog t' = (catalog t)(u \<mapsto> (row_of M md u (next_version t u), md_shard_locations md))"
    using put_transaction_spec [OF assms(1) p] assms(6) by (auto simp: catalog_replaced)
  show ?thesis
    using get_catalog [OF put_transaction_ok [OF assms(3,1) p] assms(7,5), of M] row_to_metadata_of [OF assms(2), of md u]
    by (simp add: c)
qed

section \<open>The version fence\<close>

text \<open>
  What \<open>repair\<close> and \<open>rebalance\<close> rely on: a compare-and-swap on the version of an object, and
  writes that never lower a version. Then a swap that succeeded once cannot succeed again with the
  same expected version, whatever is written in between.
\<close>

locale version_fence =
  fixes version :: "'d \<Rightarrow> 'k \<Rightarrow> int option"
    and good :: "'d \<Rightarrow> bool"
    and writes :: "'d \<Rightarrow> 'd \<Rightarrow> bool"
    and cas :: "'d \<Rightarrow> 'm \<Rightarrow> int \<Rightarrow> bool res \<times> 'd"
    and key :: "'m \<Rightarrow> 'k option"
  assumes cas_true: "good d \<Longrightarrow> cas d m v = (Inr True, d') \<Longrightarrow>
      \<exists>k. key m = Some k \<and> version d k = Some v \<and> version d' k = Some (v + 1)"
    and cas_false: "good d \<Longrightarrow> cas d m v = (Inr False, d') \<Longrightarrow>
      d' = d \<and> (\<exists>k. key m = Some k \<and> version d k \<noteq> Some v)"
    and cas_writes: "writes d (snd (cas d m v))"
    and writes_good: "good d \<Longrightarrow> writes d d' \<Longrightarrow> good d'"
    and writes_mono: "good d \<Longrightarrow> writes d d' \<Longrightarrow> version d k = Some v \<Longrightarrow> \<exists>w\<ge>v. version d' k = Some w"
begin

lemma run_mono:
  "writes\<^sup>*\<^sup>* d d' \<Longrightarrow> good d \<Longrightarrow> version d k = Some v \<Longrightarrow> good d' \<and> (\<exists>w\<ge>v. version d' k = Some w)"
proof (induction rule: rtranclp_induct)
  case (step d1 d2)
  then obtain w where w: "w \<ge> v" "version d1 k = Some w" "good d1" by blast
  obtain x where "x \<ge> w" "version d2 k = Some x" using writes_mono [OF w(3) step.hyps(2) w(2)] by blast
  then show ?case using writes_good [OF w(3) step.hyps(2)] w(1) by (meson order_trans)
qed auto

lemma stale_cas_fails:
  assumes "good d" and "cas d m v = (Inr True, d1)" and "writes\<^sup>*\<^sup>* d1 d2" and "key m' = key m"
  shows "fst (cas d2 m' v) \<noteq> Inr True"
proof
  assume f: "fst (cas d2 m' v) = Inr True"
  obtain k where k: "key m = Some k" "version d1 k = Some (v + 1)" using cas_true [OF assms(1,2)] by blast
  have "good d1" using writes_good [OF assms(1), of d1] cas_writes [of d m v] assms(2) by simp
  then obtain w where w: "good d2" "w \<ge> v + 1" "version d2 k = Some w" using run_mono [OF assms(3) _ k(2)] by blast
  obtain d3 where "cas d2 m' v = (Inr True, d3)" using f by (cases "cas d2 m' v") auto
  then have "version d2 k = Some v" using cas_true [OF w(1)] assms(4) k(1) by fastforce
  with w(2,3) show False by simp
qed

end

definition version_at :: "tables \<Rightarrow> string \<Rightarrow> int option" where
  "version_at t u = map_option or_version (object_at t u)"

inductive store_write :: "postgres \<Rightarrow> msgpack \<Rightarrow> tables \<Rightarrow> tables \<Rightarrow> bool" for P M where
  write_put: "MetadataStore_put P M t md = (r, t') \<Longrightarrow> store_write P M t t'"
| write_conditional: "conditional_put P M t md v = (b, t') \<Longrightarrow> store_write P M t t'"
| write_insert: "insert_if_absent P M t md = (b, t') \<Longrightarrow> store_write P M t t'"

inductive_cases store_writeE: "store_write P M t t'"

lemma version_replaced: "or_id row = u \<Longrightarrow>
    version_at (replaced t u row ls) w = (if w = u then Some (or_version row) else version_at t w)"
  by (simp add: version_at_def object_at_def replaced_def find_set_object)

lemma conditional_put_cases:
  assumes "tables_ok P t" and "conditional_put P M t md v = (r, t')"
  shows "t' = t \<or> (\<exists>u. pg_uuid P (md_id md) = Some u \<and> version_at t u = Some v \<and>
    t' = replaced t u (row_of M md u (v + 1)) (md_shard_locations md))"
proof (cases "conditional_put_transaction P M t md v")
  case (Inr x)
  obtain b t1 where x: "x = (b, t1)" by (cases x)
  then have "t' = t \<or> t' = t1" using assms(2) Inr by (auto simp: conditional_put_def dest: commit_tables)
  then show ?thesis
    using conditional_put_transaction_spec [OF assms(1) Inr [unfolded x]] by (auto simp: version_at_def split: if_splits)
qed (use assms in \<open>simp add: conditional_put_def\<close>)

lemma insert_if_absent_cases:
  assumes "tables_ok P t" and "insert_if_absent P M t md = (r, t')"
  shows "t' = t \<or> (\<exists>u. pg_uuid P (md_id md) = Some u \<and> version_at t u = None \<and>
    t' = replaced t u (row_of M md u 1) (md_shard_locations md))"
proof (cases "insert_if_absent_transaction P M t md")
  case (Inr x)
  obtain b t1 where x: "x = (b, t1)" by (cases x)
  then have "t' = t \<or> t' = t1" using assms(2) Inr by (auto simp: insert_if_absent_def dest: commit_tables)
  then show ?thesis
    using insert_if_absent_transaction_spec [OF assms(1) Inr [unfolded x]] by (auto simp: version_at_def split: if_splits)
qed (use assms in \<open>simp add: insert_if_absent_def\<close>)

lemma put_cases:
  assumes "tables_ok P t" and "MetadataStore_put P M t md = (r, t')"
  shows "t' = t \<or> (\<exists>u. pg_uuid P (md_id md) = Some u \<and>
    t' = replaced t u (row_of M md u (next_version t u)) (md_shard_locations md))"
proof (cases "put_transaction P M t md")
  case (Inr t1)
  then have "t' = t \<or> t' = t1" using assms(2) by (auto simp: MetadataStore_put_def dest: commit_tables)
  then show ?thesis using put_transaction_spec [OF assms(1) Inr] by auto
qed (use assms in \<open>simp add: MetadataStore_put_def\<close>)

lemma store_write_ok:
  assumes "postgres_ok P" and "tables_ok P t" and "store_write P M t t'"
  shows "tables_ok P t'"
  using assms(3)
proof cases
  case (write_put md r)
  then show ?thesis using put_transaction_ok [OF assms(1,2)] assms(2)
    by (auto simp: MetadataStore_put_def split: sum.splits dest!: commit_tables)
next
  case (write_conditional md v b)
  then show ?thesis using conditional_put_transaction_ok [OF assms(2)] assms(2)
    by (auto simp: conditional_put_def split: sum.splits prod.splits dest!: commit_tables)
next
  case (write_insert md b)
  then show ?thesis using insert_if_absent_transaction_ok [OF assms(1,2)] assms(2)
    by (auto simp: insert_if_absent_def split: sum.splits prod.splits dest!: commit_tables)
qed

lemma store_write_mono:
  assumes "tables_ok P t" and "store_write P M t t'" and "version_at t k = Some v"
  shows "\<exists>w\<ge>v. version_at t' k = Some w"
  using assms(2)
proof cases
  case (write_put md r)
  moreover have "next_version t k = v + 1" using assms(3) by (auto simp: next_version_def version_at_def)
  ultimately show ?thesis using put_cases [OF assms(1) write_put] assms(3) by (auto simp: version_replaced)
next
  case (write_conditional md w b)
  from conditional_put_cases [OF assms(1) this] assms(3) show ?thesis by (auto simp: version_replaced)
next
  case (write_insert md b)
  from insert_if_absent_cases [OF assms(1) this] assms(3) show ?thesis by (auto simp: version_replaced)
qed

interpretation fence: version_fence version_at "\<lambda>t. postgres_ok P \<and> tables_ok P t" "store_write P M"
  "conditional_put P M" "\<lambda>md. pg_uuid P (md_id md)" for P M
proof
  fix t t' md v
  assume ok: "postgres_ok P \<and> tables_ok P t"
  show "\<exists>k. pg_uuid P (md_id md) = Some k \<and> version_at t k = Some v \<and> version_at t' k = Some (v + 1)"
    if c: "conditional_put P M t md v = (Inr True, t')"
  proof -
    have "conditional_put_transaction P M t md v = Inr (True, t')"
      using c by (auto simp: conditional_put_def commit_Inr split: sum.splits prod.splits)
    from conditional_put_transaction_spec [OF conjunct2 [OF ok] this] show ?thesis
      by (auto simp: version_at_def [of t] version_replaced)
  qed
  show "t' = t \<and> (\<exists>k. pg_uuid P (md_id md) = Some k \<and> version_at t k \<noteq> Some v)"
    if c: "conditional_put P M t md v = (Inr False, t')"
  proof -
    have "conditional_put_transaction P M t md v = Inr (False, t')"
      using c by (auto simp: conditional_put_def commit_Inr split: sum.splits prod.splits)
    from conditional_put_transaction_spec [OF conjunct2 [OF ok] this] show ?thesis by (auto simp: version_at_def)
  qed
qed (auto intro: store_write.intros(2) [OF surjective_pairing] store_write_ok store_write_mono)

end
