(* ===== verification/Crypto.thy ===== *)
theory Crypto
  imports Models Http
begin

text \<open>
  \<^verbatim>\<open>core/Crypto.cpp\<close>: shard encryption, key wrapping and the key file. Botan is the parameter
  \<open>botan\<close> (SHA-256, AES-256/GCM, the key encapsulation, PKCS8), the operating system's file calls
  are the parameter \<open>os\<close>. Random bytes are arguments: what the generator returned for that call.
\<close>

section \<open>Libraries\<close>

datatype gcm_result = Plaintext bytes | Integrity_Failure | Other_Failure

record 'key botan =
  sha256 :: "bytes \<Rightarrow> bytes"
  nonce_length :: nat
  gcm_encrypt :: "bytes \<Rightarrow> bytes \<Rightarrow> bytes \<Rightarrow> bytes \<Rightarrow> bytes option"
  gcm_decrypt :: "bytes \<Rightarrow> bytes \<Rightarrow> bytes \<Rightarrow> bytes \<Rightarrow> gcm_result"
  encapsulated_key_length :: "'key \<Rightarrow> nat"
  kem_encrypt :: "'key \<Rightarrow> bytes \<Rightarrow> (bytes \<times> bytes) option"
  kem_decrypt :: "'key \<Rightarrow> bytes \<Rightarrow> bytes option"
  pem_encode :: "'key \<Rightarrow> string"
  pem_load :: "string \<Rightarrow> 'key option option"

text \<open>
  What the code relies on. Decryption inverts encryption (\<open>gcm_round\<close>); a ciphertext that
  verifies is the encryption of its plaintext, since GCM recomputes the tag (\<open>gcm_tidy\<close>); the tag
  has 16 bytes; decapsulation inverts encapsulation; a PEM text loads to its key.
\<close>

definition gcm_ok :: "'key botan \<Rightarrow> bool" where
  "gcm_ok B \<longleftrightarrow>
     (\<forall>k n a p c. gcm_encrypt B k n a p = Some c \<longrightarrow> gcm_decrypt B k n a c = Plaintext p \<and> length c = length p + 16) \<and>
     (\<forall>k n a p c. gcm_decrypt B k n a c = Plaintext p \<longrightarrow> gcm_encrypt B k n a p = Some c)"

definition kem_ok :: "'key botan \<Rightarrow> bool" where
  "kem_ok B \<longleftrightarrow> (\<forall>k seed e s. kem_encrypt B k seed = Some (e, s) \<longrightarrow>
     length e = encapsulated_key_length B k \<and> kem_decrypt B k e = Some s)"

definition pem_ok :: "'key botan \<Rightarrow> bool" where
  "pem_ok B \<longleftrightarrow> (\<forall>k. pem_load B (pem_encode B k) = Some (Some k))"

section \<open>Shards\<close>

definition checksum_sha256 :: "'key botan \<Rightarrow> bytes \<Rightarrow> bytes" where
  "checksum_sha256 B data = sha256 B data"

text \<open>The associated data: the four bytes of the index as they lie in memory, little-endian.\<close>

definition index_aad :: "32 word \<Rightarrow> bytes" where
  "index_aad i = [ucast i, ucast (drop_bit 8 i), ucast (drop_bit 16 i), ucast (drop_bit 24 i)]"

fun encrypt_shards ::
    "'key botan \<Rightarrow> (nat \<Rightarrow> bytes) \<Rightarrow> nat \<Rightarrow> plain_shard list \<Rightarrow> bytes \<Rightarrow> encrypted_shard list res" where
  "encrypt_shards B nonces i [] key = Inr []"
| "encrypt_shards B nonces i (shard # rest) key =
     (case gcm_encrypt B key (nonces i) (index_aad (ps_index shard)) (ps_bytes shard) of
        None \<Rightarrow> Inl (LibError ''Botan'')
      | Some ciphertext \<Rightarrow> bind_res (encrypt_shards B nonces (Suc i) rest key) (\<lambda>es.
          Inr (\<lparr>es_index = ps_index shard, es_nonce = nonces i, es_ciphertext = ciphertext\<rparr> # es)))"

fun decrypt_shards :: "'key botan \<Rightarrow> encrypted_shard list \<Rightarrow> bytes \<Rightarrow> bool \<Rightarrow> plain_shard list res" where
  "decrypt_shards B [] key best_effort = Inr []"
| "decrypt_shards B (e # rest) key best_effort =
     (case gcm_decrypt B key (es_nonce e) (index_aad (es_index e)) (es_ciphertext e) of
        Plaintext buf \<Rightarrow> bind_res (decrypt_shards B rest key best_effort) (\<lambda>ps.
          Inr (\<lparr>ps_index = es_index e, ps_bytes = buf\<rparr> # ps))
      | Integrity_Failure \<Rightarrow>
          if \<not> best_effort then Inl (RuntimeError ''decrypt_shards: integrity check failed'')
          else decrypt_shards B rest key best_effort
      | Other_Failure \<Rightarrow>
          if \<not> best_effort then Inl (RuntimeError ''decrypt_shards: decryption failed'')
          else decrypt_shards B rest key best_effort)"

section \<open>Key wrapping\<close>

definition encrypt_dek :: "'key botan \<Rightarrow> bytes \<Rightarrow> bytes \<Rightarrow> bytes \<Rightarrow> 'key \<Rightarrow> bytes res" where
  "encrypt_dek B seed nonce dek kek =
     (case kem_encrypt B kek seed of
        None \<Rightarrow> Inl (LibError ''Botan'')
      | Some (encapsulated_key, shared_secret) \<Rightarrow>
          (case gcm_encrypt B shared_secret nonce [] dek of
             None \<Rightarrow> Inl (LibError ''Botan'')
           | Some buf \<Rightarrow> Inr (encapsulated_key @ nonce @ buf)))"

definition decrypt_dek :: "'key botan \<Rightarrow> bytes \<Rightarrow> 'key \<Rightarrow> bytes res" where
  "decrypt_dek B encrypted_dek kek =
     (let encap_key_len = encapsulated_key_length B kek in
      if length encrypted_dek \<le> encap_key_len then Inl (RuntimeError ''decrypt_dek: encrypted_dek too short'')
      else case kem_decrypt B kek (take encap_key_len encrypted_dek) of
          None \<Rightarrow> Inl (LibError ''Botan'')
        | Some shared_secret \<Rightarrow>
            let after_encap = drop encap_key_len encrypted_dek in
            if length after_encap \<le> nonce_length B then Inl (RuntimeError ''decrypt_dek: encrypted_dek too short'')
            else case gcm_decrypt B shared_secret (take (nonce_length B) after_encap) []
                        (drop (nonce_length B) after_encap) of
                Plaintext buf \<Rightarrow>
                  if length buf \<noteq> 32 then Inl (RuntimeError ''decrypt_dek: decrypted key has unexpected size'')
                  else Inr buf
              | _ \<Rightarrow> Inl (LibError ''Botan''))"

section \<open>The key file\<close>

text \<open>
  Files are paths with contents and permission bits. \<open>os_write\<close> is what of a text reaches the
  file: the stream's error state after \<open>file << text\<close> is never examined.
\<close>

record file_system =
  fs_file :: "string \<Rightarrow> string option"
  fs_dir :: "string \<Rightarrow> bool"
  fs_perms :: "string \<Rightarrow> nat"

record os =
  os_parent :: "string \<Rightarrow> string"
  os_can_mkdir :: "string \<Rightarrow> bool"
  os_can_open :: "file_system \<Rightarrow> string \<Rightarrow> bool"
  os_write :: "string \<Rightarrow> string"

type_synonym 'key ring = "(string \<times> 'key) list"

definition kek_json :: "'key botan \<Rightarrow> (string list \<Rightarrow> string list) \<Rightarrow> 'key ring \<Rightarrow> string \<Rightarrow> json" where
  "kek_json B ord keys active_id = JObj
     [(''version'', JInt 1), (''active_kek_id'', JStr active_id),
      (''keys'', JArr (map (\<lambda>(i, key). JObj [(''id'', JStr i), (''pem'', JStr (pem_encode B key))]) (um_iter ord keys)))]"

text \<open>The file is opened, and so truncated, before the document is printed into it.\<close>

definition save_kek_file ::
    "'key botan \<Rightarrow> json_lib \<Rightarrow> os \<Rightarrow> (string list \<Rightarrow> string list) \<Rightarrow> file_system \<Rightarrow> string \<Rightarrow> 'key ring \<Rightarrow> string \<Rightarrow>
     unit res \<times> file_system" where
  "save_kek_file B J S ord fs path keys active_id =
     (let parent = os_parent S path in
      if parent \<noteq> [] \<and> \<not> fs_dir fs parent \<and> \<not> os_can_mkdir S parent then (Inl (LibError ''filesystem''), fs)
      else
        let fs1 = (if parent \<noteq> [] \<and> \<not> fs_dir fs parent
                   then fs\<lparr>fs_dir := (fs_dir fs)(parent := True), fs_perms := (fs_perms fs)(parent := 448)\<rparr>
                   else fs)
        in if \<not> os_can_open S fs1 path then (Inl (RuntimeError (''save_kek_file: cannot open file: '' @ path)), fs1)
           else case json_dump J (kek_json B ord keys active_id) of
               None \<Rightarrow> (Inl (LibError ''json''), fs1\<lparr>fs_file := (fs_file fs1)(path \<mapsto> [])\<rparr>)
             | Some text \<Rightarrow> (Inr (), fs1\<lparr>fs_file := (fs_file fs1)(path \<mapsto> os_write S text),
                                   fs_perms := (fs_perms fs1)(path := 384)\<rparr>))"

text \<open>What a range-for over a JSON value visits.\<close>

fun json_elements :: "json \<Rightarrow> json list" where
  "json_elements (JArr es) = es"
| "json_elements (JObj ms) = map snd ms"
| "json_elements JNull = []"
| "json_elements j = [j]"

text \<open>
  \<open>entry[k].get<std::string>()\<close> on a constant value: a type error unless \<open>entry\<close> is an object,
  undefined when the member is missing, a type error when it is no string.
\<close>

definition member_string :: "json \<Rightarrow> string \<Rightarrow> string res" where
  "member_string entry k = (case entry of
      JObj ms \<Rightarrow> (case map_of ms k of
          None \<Rightarrow> Inl UndefinedBehaviour
        | Some (JStr s) \<Rightarrow> Inr s
        | Some _ \<Rightarrow> Inl (LibError ''json''))
    | _ \<Rightarrow> Inl (LibError ''json''))"

fun load_keys :: "'key botan \<Rightarrow> json list \<Rightarrow> 'key ring \<Rightarrow> 'key ring res" where
  "load_keys B [] keys = Inr keys"
| "load_keys B (entry # rest) keys =
     bind_res (member_string entry ''id'') (\<lambda>i.
     bind_res (member_string entry ''pem'') (\<lambda>pem.
       case pem_load B pem of
         None \<Rightarrow> Inl (LibError ''Botan'')
       | Some None \<Rightarrow> Inl (RuntimeError (''load_kek_file: failed to load key: '' @ i))
       | Some (Some key) \<Rightarrow> load_keys B rest (um_emplace keys i key)))"

definition load_kek_file ::
    "'key botan \<Rightarrow> json_lib \<Rightarrow> file_system \<Rightarrow> string \<Rightarrow> ('key ring \<times> string) res" where
  "load_kek_file B J fs path =
     (case fs_file fs path of
        None \<Rightarrow> Inl (RuntimeError (''load_kek_file: cannot open file: '' @ path))
      | Some text \<Rightarrow> (case json_parse J text of
          None \<Rightarrow> Inl (RuntimeError ''load_kek_file: invalid JSON: '')
        | Some j \<Rightarrow>
            if json_get j ''version'' \<noteq> Some (JInt 1) then Inl (RuntimeError ''load_kek_file: unsupported version'')
            else (case (json_get j ''active_kek_id'', json_get j ''keys'') of
                (Some active, Some ks) \<Rightarrow>
                  (case active of
                     JStr active_kek_id \<Rightarrow> bind_res (load_keys B (json_elements ks) []) (\<lambda>keys.
                       if map_of keys active_kek_id = None
                       then Inl (RuntimeError ''load_kek_file: active_kek_id not found in keys'')
                       else Inr (keys, active_kek_id))
                   | _ \<Rightarrow> Inl (LibError ''json''))
              | _ \<Rightarrow> Inl (RuntimeError ''load_kek_file: missing required fields''))))"

section \<open>Lemmas\<close>

lemma gcm_round: "gcm_ok B \<Longrightarrow> gcm_encrypt B k n a p = Some c \<Longrightarrow> gcm_decrypt B k n a c = Plaintext p"
  unfolding gcm_ok_def by blast

lemma gcm_length: "gcm_ok B \<Longrightarrow> gcm_encrypt B k n a p = Some c \<Longrightarrow> length c = length p + 16"
  unfolding gcm_ok_def by blast

lemma gcm_tidy: "gcm_ok B \<Longrightarrow> gcm_decrypt B k n a c = Plaintext p \<Longrightarrow> gcm_encrypt B k n a p = Some c"
  unfolding gcm_ok_def by blast

lemma decrypt_encrypt_loop:
  assumes "gcm_ok B"
  shows "encrypt_shards B nonces i shards key = Inr es \<Longrightarrow> decrypt_shards B es key b = Inr shards"
  by (induction shards arbitrary: i es) (auto dest: gcm_round [OF assms] split: option.splits)

lemma encrypt_shards_index: "encrypt_shards B nonces i shards key = Inr es \<Longrightarrow> map es_index es = map ps_index shards"
  by (induction shards arbitrary: i es) (auto split: option.splits)

text \<open>The shard an encrypted shard decrypts to, if it verifies.\<close>

definition opened :: "'key botan \<Rightarrow> bytes \<Rightarrow> encrypted_shard \<Rightarrow> plain_shard option" where
  "opened B key e = (case gcm_decrypt B key (es_nonce e) (index_aad (es_index e)) (es_ciphertext e) of
      Plaintext buf \<Rightarrow> Some \<lparr>ps_index = es_index e, ps_bytes = buf\<rparr> | _ \<Rightarrow> None)"

lemma decrypt_best_effort: "decrypt_shards B es key True = Inr (List.map_filter (opened B key) es)"
  by (induction es) (auto simp: opened_def List.map_filter_simps split: gcm_result.splits)

lemma opened_encrypted:
  assumes "gcm_ok B" and "encrypt_shards B nonces i shards key = Inr es"
  shows "map (opened B key) es = map Some shards"
  using assms(2)
proof (induction shards arbitrary: i es)
  case (Cons s shards)
  then show ?case by (auto simp: opened_def dest: gcm_round [OF assms(1)] split: option.splits)
qed simp

lemma index_aad_inj: "index_aad i = index_aad j \<Longrightarrow> i = j"
proof -
  assume a: "index_aad i = index_aad j"
  have "bit i n = bit j n" if "n < 32" for n
  proof -
    have "bit (ucast (drop_bit (8 * (n div 8)) i) :: byte) (n mod 8) = bit (ucast (drop_bit (8 * (n div 8)) j) :: byte) (n mod 8)"
    proof -
      have "n div 8 < 4" using that by simp
      then have "n div 8 = 0 \<or> n div 8 = 1 \<or> n div 8 = 2 \<or> n div 8 = 3" by linarith
      then show ?thesis using a by (auto simp: index_aad_def)
    qed
    then show ?thesis by (simp add: bit_ucast_iff bit_drop_bit_eq)
  qed
  then show ?thesis by (intro bit_word_eqI) auto
qed

lemma decrypt_dek_wrapped:
  assumes "gcm_ok B" and "kem_ok B" and "length nonce = nonce_length B" and "length dek = 32"
    and "encrypt_dek B seed nonce dek kek = Inr w"
  shows "decrypt_dek B w kek = Inr dek"
proof -
  obtain e s buf where e: "kem_encrypt B kek seed = Some (e, s)" "gcm_encrypt B s nonce [] dek = Some buf"
    "w = e @ nonce @ buf"
    using assms(5) by (auto simp: encrypt_dek_def split: option.splits)
  have k: "length e = encapsulated_key_length B kek" "kem_decrypt B kek e = Some s"
    using assms(2) e(1) by (auto simp: kem_ok_def)
  have g: "gcm_decrypt B s nonce [] buf = Plaintext dek" "length buf = 48"
    using gcm_round [OF assms(1) e(2)] gcm_length [OF assms(1) e(2)] assms(4) by auto
  then have "buf \<noteq> []" by auto
  then show ?thesis using k g assms(3,4) by (simp add: decrypt_dek_def e(3) Let_def flip: k(1))
qed

lemma load_keys_saved:
  assumes "pem_ok B"
  shows "distinct (map fst ring @ map fst keys) \<Longrightarrow>
    load_keys B (map (\<lambda>(i, key). JObj [(''id'', JStr i), (''pem'', JStr (pem_encode B key))]) ring) keys = Inr (keys @ ring)"
proof (induction ring arbitrary: keys)
  case (Cons x ring)
  obtain i k where x: "x = (i, k)" by (cases x)
  have "map_of keys i = None" using Cons.prems x by (simp add: map_of_eq_None_iff)
  then have "um_emplace keys i k = keys @ [(i, k)]" by (simp add: um_emplace_def)
  moreover have "load_keys B (map (\<lambda>(i, key). JObj [(''id'', JStr i), (''pem'', JStr (pem_encode B key))]) ring)
      (keys @ [(i, k)]) = Inr ((keys @ [(i, k)]) @ ring)"
    using Cons.prems x by (intro Cons.IH) auto
  ultimately show ?case using assms by (simp add: x member_string_def pem_ok_def)
qed simp

end
