(* ===== verification/Metrics.thy ===== *)
theory Metrics
  imports Prelude Complex_Main
begin

text \<open>
  \<^verbatim>\<open>include/MetricsCollector.hpp\<close> and \<^verbatim>\<open>core/MetricsCollector.cpp\<close>: the in-memory records and the
  CSV export. How a double is printed is the parameter \<open>fmt\<close>; the measured times are values the
  caller passes in.
\<close>

record benchmark_params =
  bp_k :: "32 word"
  bp_m :: "32 word"
  bp_shard_size :: "64 word"
  bp_object_size :: "64 word"
  bp_failed_nodes :: "32 word"
  bp_total_nodes :: "32 word"

record phase_timing =
  crypto_ms :: real
  transport_ms :: real
  metadata_ms :: real
  total_ms :: real

record operation_record =
  op_operation :: string
  op_params :: benchmark_params
  op_timing :: phase_timing
  op_success :: bool
  op_storage_overhead :: real

definition MetricsCollector_record :: "operation_record list \<Rightarrow> operation_record \<Rightarrow> operation_record list" where
  "MetricsCollector_record records rec = records @ [rec]"

definition csv_header :: string where
  "csv_header = ''operation,k,m,shard_size,object_size,failed_nodes,total_nodes,'' @
     ''crypto_ms,transport_ms,metadata_ms,total_ms,success,storage_overhead'' @ [CHR 0x0A]"

definition csv_row :: "(real \<Rightarrow> string) \<Rightarrow> operation_record \<Rightarrow> string" where
  "csv_row fmt r =
     op_operation r @ '','' @ to_string (unat (bp_k (op_params r))) @ '','' @
     to_string (unat (bp_m (op_params r))) @ '','' @ to_string (unat (bp_shard_size (op_params r))) @ '','' @
     to_string (unat (bp_object_size (op_params r))) @ '','' @ to_string (unat (bp_failed_nodes (op_params r))) @ '','' @
     to_string (unat (bp_total_nodes (op_params r))) @ '','' @
     fmt (crypto_ms (op_timing r)) @ '','' @ fmt (transport_ms (op_timing r)) @ '','' @
     fmt (metadata_ms (op_timing r)) @ '','' @ fmt (total_ms (op_timing r)) @ '','' @
     (if op_success r then ''1'' else ''0'') @ '','' @ fmt (op_storage_overhead r) @ [CHR 0x0A]"

text \<open>\<open>old\<close> is the file before (None: it does not exist); the result is its contents after.\<close>

definition export_csv ::
    "(real \<Rightarrow> string) \<Rightarrow> bool \<Rightarrow> operation_record list \<Rightarrow> string \<Rightarrow> bool \<Rightarrow> string option \<Rightarrow> string res" where
  "export_csv fmt can_open records path app old =
     (let write_header = (\<not> app \<or> old = None \<or> old = Some []) in
      if \<not> can_open then Inl (RuntimeError (''MetricsCollector::export_csv: cannot open: '' @ path))
      else Inr ((if app then (case old of None \<Rightarrow> [] | Some s \<Rightarrow> s) else []) @
                (if write_header then csv_header else []) @ concat (map (csv_row fmt) records)))"

text \<open>
  Exporting in two appending calls gives the same file as exporting once: the header is written
  exactly once.
\<close>

lemma csv_header_ne [simp]: "csv_header \<noteq> []"
  by (simp add: csv_header_def)

theorem export_csv_append:
  assumes "export_csv fmt True r1 path True None = Inr s1" and "export_csv fmt True r2 path True (Some s1) = Inr s2"
  shows "export_csv fmt True (r1 @ r2) path False old = Inr s2"
  using assms by (auto simp: export_csv_def Let_def split: if_splits)

end
