(* ===== verification/Storage_Client.thy ===== *)
theory Storage_Client
  imports Erasure_Codec Hrw_Placement Shard_Transport Metadata_Store
    Crypto Metrics
begin

text \<open>
  \<^verbatim>\<open>core/StorageClient.cpp\<close>, first part: construction, \<open>init\<close>, \<open>put\<close>, \<open>get\<close>, \<open>remove\<close>, \<open>list\<close>,
  \<open>rotate\<close> and \<open>health\<close>. The record \<open>client\<close> is the state the operations share: the storage nodes
  and the network \<open>'c\<close>, the catalog, the key ring, the key file, the collected metrics. The record
  \<open>libs\<close> holds the libraries; random bytes and clock values of a call are arguments.
\<close>

section \<open>State and libraries\<close>

record ('c, 'key) client =
  sc_cluster :: 'c
  sc_catalog :: tables
  sc_ring :: "'key ring"
  sc_active :: string
  sc_fs :: file_system
  sc_metrics :: "operation_record list"

record ('c, 'key) libs =
  lb_isal :: isal
  lb_botan :: "'key botan"
  lb_msgpack :: msgpack
  lb_json :: json_lib
  lb_pg :: postgres
  lb_os :: os
  lb_send :: "'c send"
  lb_ord :: "string list \<Rightarrow> string list"
  lb_key_path :: string
  lb_collector :: bool

text \<open>
  What one \<open>put\<close> draws from the generator and the clock: version token, data key, a nonce per
  shard, the encapsulation seed, the wrapping nonce, the time, the measured phases.
\<close>

record put_draws =
  pd_version :: bytes
  pd_dek :: bytes
  pd_nonces :: "nat \<Rightarrow> bytes"
  pd_seed :: bytes
  pd_wrap_nonce :: bytes
  pd_now :: "64 word"
  pd_timing :: phase_timing

section \<open>Helpers\<close>

definition kUnknownNode :: string where
  "kUnknownNode = ''0.0.0.0:0''"

text \<open>RFC 4122 version 4: the version and variant bits are set, dashes go before bytes 4, 6, 8, 10.\<close>

definition generateKekId :: "bytes \<Rightarrow> string" where
  "generateKekId draw =
     (let b = draw[6 := (draw ! 6 AND 0x0F) OR 0x40]; b = b[8 := (b ! 8 AND 0x3F) OR 0x80]
      in concat (map (\<lambda>i. (if i \<in> {4, 6, 8, 10} then ''-'' else []) @ hex_byte (b ! i)) [0..<16]))"

definition generateVersion :: "bytes \<Rightarrow> string" where
  "generateVersion draw = concat (map hex_byte draw)"

definition bytes_to_hex :: "bytes \<Rightarrow> string" where
  "bytes_to_hex b = concat (map hex_byte b)"

definition is_node_healthy :: "'c send \<Rightarrow> 'c \<Rightarrow> string \<Rightarrow> bool \<times> 'c" where
  "is_node_healthy send c node_address =
     (case get_node_client node_address of
        Inl _ \<Rightarrow> (False, c)
      | Inr _ \<Rightarrow> (case send c node_address GET ''/health'' [] of (r, c') \<Rightarrow> (got_200 r, c')))"

text \<open>Any exception of \<open>decrypt_dek\<close> counts as a failed attempt.\<close>

fun try_keks :: "'key botan \<Rightarrow> bytes \<Rightarrow> string \<Rightarrow> 'key ring \<Rightarrow> bytes res" where
  "try_keks B encrypted_dek kek_id [] =
     Inl (RuntimeError ''recover_dek: cannot decrypt DEK with any available KEK'')"
| "try_keks B encrypted_dek kek_id ((i, key) # rest) =
     (if i = kek_id then try_keks B encrypted_dek kek_id rest
      else case decrypt_dek B encrypted_dek key of
          Inr dek \<Rightarrow> Inr dek
        | Inl _ \<Rightarrow> try_keks B encrypted_dek kek_id rest)"

definition recover_dek ::
    "'key botan \<Rightarrow> (string list \<Rightarrow> string list) \<Rightarrow> bytes \<Rightarrow> string \<Rightarrow> 'key ring \<Rightarrow> bytes res" where
  "recover_dek B ord encrypted_dek kek_id kek_ring =
     (case map_of kek_ring kek_id of
        None \<Rightarrow> try_keks B encrypted_dek kek_id (um_iter ord kek_ring)
      | Some key \<Rightarrow> (case decrypt_dek B encrypted_dek key of
          Inr dek \<Rightarrow> Inr dek
        | Inl _ \<Rightarrow> try_keks B encrypted_dek kek_id (um_iter ord kek_ring)))"

section \<open>Keys\<close>

text \<open>
  The loop that draws ids until one is new; nothing bounds it, so \<open>None\<close> would be no end. \<open>draws i\<close>
  is the \<open>i\<close>-th draw.
\<close>

partial_function (option) fresh_kek_id :: "(nat \<Rightarrow> bytes) \<Rightarrow> 'key ring \<Rightarrow> nat \<Rightarrow> string option" where
  "fresh_kek_id draws ring i =
     (if map_of ring (generateKekId (draws i)) = None then Some (generateKekId (draws i))
      else fresh_kek_id draws ring (Suc i))"

declare fresh_kek_id.simps [code]

text \<open>
  \<open>new_key\<close> is what the key generator returns, None for a null pointer. The active id and the ring
  change before the file is written.
\<close>

definition rotate ::
    "('c, 'key) libs \<Rightarrow> 'key option \<Rightarrow> (nat \<Rightarrow> bytes) \<Rightarrow> ('c, 'key) client \<Rightarrow> (unit res \<times> ('c, 'key) client) option" where
  "rotate L new_key draws s =
     (case new_key of
        None \<Rightarrow> Some (Inl (RuntimeError ''StorageClient::rotate: failed to create ML-KEM-768 key''), s)
      | Some key \<Rightarrow>
          (case fresh_kek_id draws (sc_ring s) 0 of
             None \<Rightarrow> None
           | Some kek_id \<Rightarrow>
               let s1 = s\<lparr>sc_active := kek_id, sc_ring := um_emplace (sc_ring s) kek_id key\<rparr> in
               Some (case save_kek_file (lb_botan L) (lb_json L) (lb_os L) (lb_ord L) (sc_fs s1)
                            (lb_key_path L) (sc_ring s1) (sc_active s1) of
                       (r, fs) \<Rightarrow> (r, s1\<lparr>sc_fs := fs\<rparr>))))"

text \<open>The constructor: load the key file, or create a first key and save it.\<close>

definition StorageClient_open ::
    "('c, 'key) libs \<Rightarrow> 'key option \<Rightarrow> (nat \<Rightarrow> bytes) \<Rightarrow> 'c \<Rightarrow> tables \<Rightarrow> file_system \<Rightarrow>
     (unit res \<times> ('c, 'key) client) option" where
  "StorageClient_open L new_key draws c t fs =
     (let s = \<lparr>sc_cluster = c, sc_catalog = t, sc_ring = [], sc_active = [], sc_fs = fs, sc_metrics = []\<rparr> in
      case fs_file fs (lb_key_path L) of
        Some _ \<Rightarrow> Some (case load_kek_file (lb_botan L) (lb_json L) fs (lb_key_path L) of
            Inl e \<Rightarrow> (Inl e, s)
          | Inr (keys, active) \<Rightarrow> (Inr (), s\<lparr>sc_ring := keys, sc_active := active\<rparr>))
      | None \<Rightarrow>
          (case new_key of
             None \<Rightarrow> Some (Inl (RuntimeError ''StorageClient: failed to create ML-KEM-768 key''), s)
           | Some key \<Rightarrow>
               (case fresh_kek_id draws (sc_ring s) 0 of
                  None \<Rightarrow> None
                | Some kek_id \<Rightarrow>
                    let s1 = s\<lparr>sc_active := kek_id, sc_ring := um_emplace (sc_ring s) kek_id key\<rparr> in
                    Some (case save_kek_file (lb_botan L) (lb_json L) (lb_os L) (lb_ord L) fs
                                 (lb_key_path L) (sc_ring s1) (sc_active s1) of
                            (r, fs') \<Rightarrow> (r, s1\<lparr>sc_fs := fs'\<rparr>)))))"

section \<open>init\<close>

fun init_nodes :: "'c send \<Rightarrow> 'c \<Rightarrow> string list \<Rightarrow> unit res \<times> 'c" where
  "init_nodes send c [] = (Inr (), c)"
| "init_nodes send c (node_address # rest) =
     (case get_node_client node_address of
        Inl e \<Rightarrow> (Inl e, c)
      | Inr _ \<Rightarrow> (case send c node_address GET ''/health'' [] of
          (r, c') \<Rightarrow> if \<not> got_200 r
                   then (Inl (RuntimeError (''StorageClient::init: node not healthy: '' @ node_address)), c')
                   else init_nodes send c' rest))"

definition StorageClient_init :: "('c, 'key) libs \<Rightarrow> ('c, 'key) client \<Rightarrow> unit res \<times> ('c, 'key) client" where
  "StorageClient_init L s =
     (case list_nodes (lb_pg L) (sc_catalog s) of
        Inl e \<Rightarrow> (Inl e, s)
      | Inr nodes \<Rightarrow> (case init_nodes (lb_send L) (sc_cluster s) nodes of
          (r, c) \<Rightarrow> (r, s\<lparr>sc_cluster := c\<rparr>)))"

section \<open>put\<close>

text \<open>The guards, in the code's order; the sum \<open>k + m\<close> and the product wrap as in C++.\<close>

definition put_validate ::
    "('c, 'key) libs \<Rightarrow> tables \<Rightarrow> string \<Rightarrow> bytes \<Rightarrow> erasure_spec \<Rightarrow> string list res" where
  "put_validate L t object_id data spec =
     (if object_id = [] then Inl (InvalidArgument ''StorageClient::put: object_id cannot be empty'')
      else if data = [] then Inl (InvalidArgument ''StorageClient::put: bytes cannot be empty'')
      else if data_shards spec = 0 then Inl (InvalidArgument ''StorageClient::put: k (data_shards) must be > 0'')
      else if parity_shards spec = 0 then Inl (InvalidArgument ''StorageClient::put: m (parity_shards) must be > 0'')
      else if 255 < data_shards spec + parity_shards spec then
        Inl (InvalidArgument ''StorageClient::put: k + m must be <= 255'')
      else if shard_size spec = 0 then Inl (InvalidArgument ''StorageClient::put: shard_size must be > 0'')
      else if unat (ucast (data_shards spec) * shard_size spec) < length data then
        Inl (InvalidArgument ''StorageClient::put: bytes.size() exceeds k * shard_size'')
      else bind_res (list_nodes (lb_pg L) t) (\<lambda>eligible_nodes.
        let required_nodes = unat (data_shards spec) + unat (parity_shards spec) in
        if length eligible_nodes < required_nodes then
          Inl (InvalidArgument (''StorageClient::put: eligible nodes ('' @ to_string (length eligible_nodes) @
               '') < k + m ('' @ to_string required_nodes @ '')''))
        else Inr eligible_nodes))"

text \<open>What the crypto phase hands to the rest.\<close>

record prepared =
  pr_version :: string
  pr_checksum :: string
  pr_wrapped_dek :: bytes
  pr_kek_id :: string
  pr_serialized :: "bytes list"

definition put_prepare ::
    "('c, 'key) libs \<Rightarrow> put_draws \<Rightarrow> 'key ring \<Rightarrow> string \<Rightarrow> string \<Rightarrow> bytes \<Rightarrow> erasure_spec \<Rightarrow> prepared res" where
  "put_prepare L rnd ring active object_id data spec =
     (let checksum_hex = bytes_to_hex (checksum_sha256 (lb_botan L) data);
          version = generateVersion (pd_version rnd)
      in bind_res (encode (lb_isal L) data spec) (\<lambda>plain_shards.
         if length plain_shards \<noteq> unat (data_shards spec + parity_shards spec) then
           Inl (RuntimeError ''StorageClient::put: encode() returned unexpected number of shards'')
         else bind_res (encrypt_shards (lb_botan L) (pd_nonces rnd) 0 plain_shards (pd_dek rnd)) (\<lambda>encrypted_shards.
         if length encrypted_shards \<noteq> length plain_shards then
           Inl (RuntimeError ''StorageClient::put: encrypt_shards() returned unexpected number of shards'')
         else case map_of ring active of
             None \<Rightarrow> Inl (OutOfRange ''unordered_map::at'')
           | Some kek \<Rightarrow>
               bind_res (encrypt_dek (lb_botan L) (pd_seed rnd) (pd_wrap_nonce rnd) (pd_dek rnd) kek) (\<lambda>wrapped_dek.
               let manifest = \<lparr>sm_object_id = object_id, sm_version = version, sm_size = word_of_nat (length data),
                     sm_checksum = checksum_hex, sm_erasure = spec, sm_encrypted_dek = wrapped_dek,
                     sm_kek_id = active, sm_written_at = pd_now rnd\<rparr>
               in Inr \<lparr>pr_version = version, pr_checksum = checksum_hex, pr_wrapped_dek = wrapped_dek,
                     pr_kek_id = active,
                     pr_serialized = map (\<lambda>e. StoredShard_serialize (lb_msgpack L)
                       \<lparr>ss_manifest = manifest, ss_shard = e\<rparr>) encrypted_shards\<rparr>))))"

definition put_metrics ::
    "('c, 'key) libs \<Rightarrow> put_draws \<Rightarrow> string list \<Rightarrow> bytes \<Rightarrow> erasure_spec \<Rightarrow> bytes list \<Rightarrow>
     operation_record list \<Rightarrow> operation_record list" where
  "put_metrics L rnd eligible_nodes data spec serialized_shards records =
     (if \<not> lb_collector L then records
      else MetricsCollector_record records
        \<lparr>op_operation = ''PUT'',
         op_params = \<lparr>bp_k = data_shards spec, bp_m = parity_shards spec, bp_shard_size = shard_size spec,
           bp_object_size = word_of_nat (length data), bp_failed_nodes = 0,
           bp_total_nodes = word_of_nat (length eligible_nodes)\<rparr>,
         op_timing = pd_timing rnd, op_success = True,
         op_storage_overhead = real (sum_list (map length serialized_shards)) / real (length data)\<rparr>)"

definition put_metadata :: "string \<Rightarrow> bytes \<Rightarrow> erasure_spec \<Rightarrow> prepared \<Rightarrow> string list \<Rightarrow> object_metadata" where
  "put_metadata object_id data spec p locations =
     \<lparr>md_id = object_id, md_size = word_of_nat (length data), md_checksum = pr_checksum p, md_erasure = spec,
      md_shard_locations = locations, md_encrypted_dek = pr_wrapped_dek p, md_kek_id = pr_kek_id p, md_version = 0\<rparr>"

definition StorageClient_put ::
    "('c, 'key) libs \<Rightarrow> put_draws \<Rightarrow> ('c, 'key) client \<Rightarrow> string \<Rightarrow> bytes \<Rightarrow> erasure_spec \<Rightarrow>
     unit res \<times> ('c, 'key) client" where
  "StorageClient_put L rnd s object_id data spec =
     (case bind_res (put_validate L (sc_catalog s) object_id data spec) (\<lambda>eligible_nodes.
           bind_res (put_prepare L rnd (sc_ring s) (sc_active s) object_id data spec) (\<lambda>p.
           bind_res (hrw_intended_nodes object_id eligible_nodes (length (pr_serialized p))) (\<lambda>intended_nodes.
           bind_res (placement_strategy object_id (pr_version p) (pr_serialized p) intended_nodes) (\<lambda>placement.
             Inr (eligible_nodes, p, placement))))) of
        Inl e \<Rightarrow> (Inl e, s)
      | Inr (eligible_nodes, p, placement) \<Rightarrow>
          (case apply_placement (lb_send L) (lb_ord L) (sc_cluster s) placement of
             (Inl e, c) \<Rightarrow> (Inl e, s\<lparr>sc_cluster := c\<rparr>)
           | (Inr _, c) \<Rightarrow>
               (case build_shard_locations (lb_ord L) placement of
                  Inl e \<Rightarrow> (Inl e, s\<lparr>sc_cluster := c\<rparr>)
                | Inr locations \<Rightarrow>
                    (case MetadataStore_put (lb_pg L) (lb_msgpack L) (sc_catalog s)
                            (put_metadata object_id data spec p locations) of
                       (Inl e, t) \<Rightarrow> (Inl e, s\<lparr>sc_cluster := c, sc_catalog := t\<rparr>)
                     | (Inr _, t) \<Rightarrow> (Inr (), s\<lparr>sc_cluster := c, sc_catalog := t,
                         sc_metrics := put_metrics L rnd eligible_nodes data spec (pr_serialized p) (sc_metrics s)\<rparr>)))))"

section \<open>get\<close>

definition get_metrics ::
    "('c, 'key) libs \<Rightarrow> phase_timing \<Rightarrow> object_metadata \<Rightarrow> operation_record list \<Rightarrow> operation_record list" where
  "get_metrics L timing md records =
     (if \<not> lb_collector L then records
      else MetricsCollector_record records
        \<lparr>op_operation = ''GET'',
         op_params = \<lparr>bp_k = data_shards (md_erasure md), bp_m = parity_shards (md_erasure md),
           bp_shard_size = shard_size (md_erasure md), bp_object_size = md_size md, bp_failed_nodes = 0,
           bp_total_nodes = word_of_nat (length (md_shard_locations md))\<rparr>,
         op_timing = timing, op_success = True, op_storage_overhead = 0\<rparr>)"

text \<open>From the fetched shards to the verified bytes.\<close>

definition get_decode ::
    "('c, 'key) libs \<Rightarrow> 'key ring \<Rightarrow> object_metadata \<Rightarrow> encrypted_shard list \<Rightarrow> bytes res" where
  "get_decode L ring md encrypted_shards =
     (if length encrypted_shards < unat (data_shards (md_erasure md)) then
        Inl (RuntimeError ''StorageClient::get: not enough shards to reconstruct object'')
      else bind_res (recover_dek (lb_botan L) (lb_ord L) (md_encrypted_dek md) (md_kek_id md) ring) (\<lambda>dek.
        bind_res (decrypt_shards (lb_botan L) encrypted_shards dek True) (\<lambda>plain_shards.
        if length plain_shards < unat (data_shards (md_erasure md)) then
          Inl (RuntimeError ''StorageClient::get: not enough valid shards to reconstruct object'')
        else bind_res (decode (lb_isal L) plain_shards (md_erasure md) (unat (md_size md))) (\<lambda>decoded.
          if bytes_to_hex (checksum_sha256 (lb_botan L) decoded) \<noteq> md_checksum md then
            Inl (RuntimeError ''StorageClient::get: checksum mismatch'')
          else Inr decoded))))"

definition StorageClient_get ::
    "('c, 'key) libs \<Rightarrow> phase_timing \<Rightarrow> ('c, 'key) client \<Rightarrow> string \<Rightarrow> bytes res \<times> ('c, 'key) client" where
  "StorageClient_get L timing s object_id =
     (if object_id = [] then (Inl (InvalidArgument ''StorageClient::get: object_id cannot be empty''), s)
      else case MetadataStore_get (lb_pg L) (lb_msgpack L) (sc_catalog s) object_id of
          Inl e \<Rightarrow> (Inl e, s)
        | Inr None \<Rightarrow> (Inl (RuntimeError (''StorageClient::get: object not found: '' @ object_id)), s)
        | Inr (Some md) \<Rightarrow>
            (case parse_shard_locations (md_shard_locations md) of
               Inl e \<Rightarrow> (Inl e, s)
             | Inr shard_location_map \<Rightarrow>
                 (case fetch_encrypted_shards (lb_send L) (lb_msgpack L) (lb_ord L) (sc_cluster s) shard_location_map of
                    (encrypted_shards, c) \<Rightarrow>
                      (case get_decode L (sc_ring s) md encrypted_shards of
                         Inl e \<Rightarrow> (Inl e, s\<lparr>sc_cluster := c\<rparr>)
                       | Inr result \<Rightarrow> (Inr result, s\<lparr>sc_cluster := c,
                           sc_metrics := get_metrics L timing md (sc_metrics s)\<rparr>)))))"

section \<open>remove, list, health\<close>

definition StorageClient_remove ::
    "('c, 'key) libs \<Rightarrow> ('c, 'key) client \<Rightarrow> string \<Rightarrow> bool res \<times> ('c, 'key) client" where
  "StorageClient_remove L s object_id =
     (if object_id = [] then (Inl (InvalidArgument ''StorageClient::remove: object_id cannot be empty''), s)
      else case MetadataStore_get (lb_pg L) (lb_msgpack L) (sc_catalog s) object_id of
          Inl e \<Rightarrow> (Inl e, s)
        | Inr None \<Rightarrow> (Inr False, s)
        | Inr (Some md) \<Rightarrow>
            (case parse_shard_locations (md_shard_locations md) of
               Inl e \<Rightarrow> (Inl e, s)
             | Inr shard_location_map \<Rightarrow>
                 let s1 = s\<lparr>sc_cluster := remove_from_nodes (lb_send L) (lb_ord L) (sc_cluster s) shard_location_map\<rparr> in
                 (case MetadataStore_remove (lb_pg L) (sc_catalog s1) object_id of
                    (r, t) \<Rightarrow> (r, s1\<lparr>sc_catalog := t\<rparr>))))"

definition StorageClient_list :: "('c, 'key) libs \<Rightarrow> ('c, 'key) client \<Rightarrow> object_metadata list res" where
  "StorageClient_list L s = MetadataStore_list (lb_pg L) (lb_msgpack L) (sc_catalog s)"

fun health_loop ::
    "'c send \<Rightarrow> 'c \<Rightarrow> nat \<Rightarrow> string list \<Rightarrow> 32 word \<Rightarrow> 32 word list \<Rightarrow> (32 word \<times> 32 word list) \<times> 'c" where
  "health_loop send c i [] available missing = ((available, missing), c)"
| "health_loop send c i (shard_location # rest) available missing =
     (case split_location shard_location of
        None \<Rightarrow> health_loop send c (Suc i) rest available (missing @ [word_of_nat i])
      | Some (node_address, location) \<Rightarrow>
          (case probe_shard send c node_address location of
             (True, c') \<Rightarrow> health_loop send c' (Suc i) rest (available + 1) missing
           | (False, c') \<Rightarrow> health_loop send c' (Suc i) rest available (missing @ [word_of_nat i])))"

definition StorageClient_health ::
    "('c, 'key) libs \<Rightarrow> ('c, 'key) client \<Rightarrow> string \<Rightarrow> object_health res \<times> ('c, 'key) client" where
  "StorageClient_health L s object_id =
     (if object_id = [] then (Inl (InvalidArgument ''StorageClient::health: object_id cannot be empty''), s)
      else case MetadataStore_get (lb_pg L) (lb_msgpack L) (sc_catalog s) object_id of
          Inl e \<Rightarrow> (Inl e, s)
        | Inr None \<Rightarrow> (Inl (RuntimeError (''StorageClient::health: object not found: '' @ object_id)), s)
        | Inr (Some md) \<Rightarrow>
            (case health_loop (lb_send L) (sc_cluster s) 0 (md_shard_locations md) 0 [] of
               ((available, missing), c) \<Rightarrow>
                 (let total = data_shards (md_erasure md) + parity_shards (md_erasure md);
                      required = data_shards (md_erasure md)
                  in (Inr \<lparr>oh_object_id = object_id, oh_total_shards = total, oh_available_shards = available,
                        oh_required_shards = required, oh_missing_indices = missing,
                        oh_healthy = (required \<le> available), oh_fully_replicated = (available = total)\<rparr>,
                      s\<lparr>sc_cluster := c\<rparr>))))"

end
