(* ===== verification/Storage_Node.thy ===== *)
theory Storage_Node
  imports Prelude
begin

text \<open>
  \<^verbatim>\<open>core/StorageNode.cpp\<close>: the shard store of one node, a thin layer over one LMDB database.
  LMDB is the parameter \<open>lmdb\<close>: the return code of every call and, for the calls that read or
  write, their effect on an abstract database. A transaction works on a copy of the database
  that a commit installs and an abort drops. What the code relies on is \<open>lmdb_ok\<close>.
\<close>

section \<open>The LMDB interface\<close>

record 'db lmdb =
  mdb_env_create :: int
  mdb_env_set_mapsize :: int
  mdb_env_open :: int
  mdb_txn_begin :: "'db \<Rightarrow> int"
  mdb_dbi_open :: "'db \<Rightarrow> int"
  mdb_put :: "'db \<Rightarrow> string \<Rightarrow> bytes \<Rightarrow> int \<times> 'db"
  mdb_get :: "'db \<Rightarrow> string \<Rightarrow> int \<times> bytes"
  mdb_del :: "'db \<Rightarrow> string \<Rightarrow> int \<times> 'db"
  mdb_txn_commit :: "'db \<Rightarrow> int"
  mdb_cursor_open :: "'db \<Rightarrow> int"
  mdb_cursor_first :: "'db \<Rightarrow> int \<times> string"
  mdb_cursor_next :: "'db \<Rightarrow> string \<Rightarrow> int \<times> string"
  mdb_strerror :: "int \<Rightarrow> string"

definition MDB_NOTFOUND :: int where
  "MDB_NOTFOUND = - 30798"

text \<open>The key-value map a database holds, as \<open>mdb_get\<close> shows it.\<close>

definition kv :: "'db lmdb \<Rightarrow> 'db \<Rightarrow> string \<Rightarrow> bytes option" where
  "kv L d k = (if fst (mdb_get L d k) = 0 then Some (snd (mdb_get L d k)) else None)"

text \<open>A cursor visits \<open>ks\<close>: the first key, then the successor of each key, then not-found.\<close>

definition cursor_visits :: "'db lmdb \<Rightarrow> 'db \<Rightarrow> string list \<Rightarrow> bool" where
  "cursor_visits L d ks \<longleftrightarrow>
     (if ks = [] then fst (mdb_cursor_first L d) = MDB_NOTFOUND
      else mdb_cursor_first L d = (0, hd ks)) \<and>
     (\<forall>i<length ks. if Suc i < length ks then mdb_cursor_next L d (ks ! i) = (0, ks ! Suc i)
                    else fst (mdb_cursor_next L d (ks ! i)) = MDB_NOTFOUND)"

definition lmdb_ok :: "'db lmdb \<Rightarrow> bool" where
  "lmdb_ok L \<longleftrightarrow>
     (\<forall>d k v d'. mdb_put L d k v = (0, d') \<longrightarrow> kv L d' = (kv L d)(k \<mapsto> v)) \<and>
     (\<forall>d k d'. mdb_del L d k = (0, d') \<longrightarrow> kv L d' = (kv L d)(k := None)) \<and>
     (\<forall>d. \<exists>ks. distinct ks \<and> set ks = dom (kv L d) \<and> cursor_visits L d ks)"

section \<open>Operations\<close>

definition check_lmdb :: "'db lmdb \<Rightarrow> int \<Rightarrow> string \<Rightarrow> unit res" where
  "check_lmdb L rc operation =
     (if rc \<noteq> 0 then Inl (RuntimeError (operation @ '' failed: '' @ mdb_strerror L rc)) else Inr ())"

definition bytes_from_mdb_value :: "bytes \<Rightarrow> bytes" where
  "bytes_from_mdb_value v = (if length v = 0 then [] else v)"

definition open_database :: "'db lmdb \<Rightarrow> 'db \<Rightarrow> unit res" where
  "open_database L d = check_lmdb L (mdb_dbi_open L d) ''mdb_dbi_open''"

definition begin_txn :: "'db lmdb \<Rightarrow> 'db \<Rightarrow> unit res" where
  "begin_txn L d = bind_res (check_lmdb L (mdb_txn_begin L d) ''mdb_txn_begin'') (\<lambda>_. open_database L d)"

text \<open>The constructor: create the environment, set its map size, open it.\<close>

definition StorageNode_open :: "'db lmdb \<Rightarrow> unit res" where
  "StorageNode_open L =
     bind_res (check_lmdb L (mdb_env_create L) ''mdb_env_create'') (\<lambda>_.
     bind_res (check_lmdb L (mdb_env_set_mapsize L) ''mdb_env_set_mapsize'') (\<lambda>_.
     check_lmdb L (mdb_env_open L) ''mdb_env_open''))"

fun put_loop :: "'db lmdb \<Rightarrow> 'db \<Rightarrow> (string \<times> bytes) list \<Rightarrow> 'db res" where
  "put_loop L d [] = Inr d"
| "put_loop L d ((location, payload) # rest) =
     (if location = [] then
        Inl (InvalidArgument ''StorageNode::put: shard location must not be empty'')
      else let (rc, d') = mdb_put L d location payload in
        bind_res (check_lmdb L rc ''mdb_put'') (\<lambda>_. put_loop L d' rest))"

definition node_put :: "'db lmdb \<Rightarrow> 'db \<Rightarrow> string list \<Rightarrow> bytes list \<Rightarrow> unit res \<times> 'db" where
  "node_put L d locations payloads =
     (if length locations \<noteq> length payloads then
        (Inl (InvalidArgument
          ''StorageNode::put: locations and payloads must have the same size''), d)
      else case begin_txn L d of
        Inl e \<Rightarrow> (Inl e, d)
      | Inr _ \<Rightarrow> (case put_loop L d (zip locations payloads) of
          Inl e \<Rightarrow> (Inl e, d)
        | Inr d' \<Rightarrow> (case check_lmdb L (mdb_txn_commit L d') ''mdb_txn_commit'' of
            Inl e \<Rightarrow> (Inl e, d)
          | Inr _ \<Rightarrow> (Inr (), d'))))"

fun get_loop :: "'db lmdb \<Rightarrow> 'db \<Rightarrow> string list \<Rightarrow> bytes option list res" where
  "get_loop L d [] = Inr []"
| "get_loop L d (location # rest) =
     (if location = [] then
        Inl (InvalidArgument ''StorageNode::get: shard location must not be empty'')
      else let (rc, v) = mdb_get L d location in
        if rc = 0 then
          bind_res (get_loop L d rest) (\<lambda>rs. Inr (Some (bytes_from_mdb_value v) # rs))
        else if rc = MDB_NOTFOUND then bind_res (get_loop L d rest) (\<lambda>rs. Inr (None # rs))
        else Inl (RuntimeError (''mdb_get failed: '' @ mdb_strerror L rc)))"

definition node_get :: "'db lmdb \<Rightarrow> 'db \<Rightarrow> string list \<Rightarrow> bytes option list res" where
  "node_get L d locations = bind_res (begin_txn L d) (\<lambda>_. get_loop L d locations)"

fun remove_loop :: "'db lmdb \<Rightarrow> 'db \<Rightarrow> string list \<Rightarrow> (bytes option list \<times> 'db) res" where
  "remove_loop L d [] = Inr ([], d)"
| "remove_loop L d (location # rest) =
     (if location = [] then
        Inl (InvalidArgument ''StorageNode::remove: shard location must not be empty'')
      else let (rc, v) = mdb_get L d location in
        if rc = 0 then
          (let (rc', d') = mdb_del L d location in
           bind_res (check_lmdb L rc' ''mdb_del'') (\<lambda>_.
           bind_res (remove_loop L d' rest) (\<lambda>(rs, d'').
             Inr (Some (bytes_from_mdb_value v) # rs, d''))))
        else if rc = MDB_NOTFOUND then
          bind_res (remove_loop L d rest) (\<lambda>(rs, d''). Inr (None # rs, d''))
        else Inl (RuntimeError (''mdb_get failed: '' @ mdb_strerror L rc)))"

definition node_remove :: "'db lmdb \<Rightarrow> 'db \<Rightarrow> string list \<Rightarrow> bytes option list res \<times> 'db" where
  "node_remove L d locations =
     (case begin_txn L d of
        Inl e \<Rightarrow> (Inl e, d)
      | Inr _ \<Rightarrow> (case remove_loop L d locations of
          Inl e \<Rightarrow> (Inl e, d)
        | Inr (rs, d') \<Rightarrow> (case check_lmdb L (mdb_txn_commit L d') ''mdb_txn_commit'' of
            Inl e \<Rightarrow> (Inl e, d)
          | Inr _ \<Rightarrow> (Inr rs, d'))))"

text \<open>
  The cursor loop. Nothing in the code bounds it, so it is a partial function: \<open>None\<close> would be a
  scan that never ends.
\<close>

partial_function (option) cursor_scan ::
    "'db lmdb \<Rightarrow> 'db \<Rightarrow> int \<times> string \<Rightarrow> string list \<Rightarrow> (int \<times> string list) option" where
  "cursor_scan L d cur locations =
     (if fst cur = 0 then cursor_scan L d (mdb_cursor_next L d (snd cur)) (locations @ [snd cur])
      else Some (fst cur, locations))"

declare cursor_scan.simps [code]

definition node_list_locations :: "'db lmdb \<Rightarrow> 'db \<Rightarrow> string list res option" where
  "node_list_locations L d =
     (case bind_res (begin_txn L d) (\<lambda>_. check_lmdb L (mdb_cursor_open L d) ''mdb_cursor_open'') of
        Inl e \<Rightarrow> Some (Inl e)
      | Inr _ \<Rightarrow> (case cursor_scan L d (mdb_cursor_first L d) [] of
          None \<Rightarrow> None
        | Some (rc, locations) \<Rightarrow>
            Some (if rc \<noteq> MDB_NOTFOUND
                  then Inl (RuntimeError (''mdb_cursor_get failed: '' @ mdb_strerror L rc))
                  else Inr locations)))"

section \<open>Lemmas\<close>

lemma check_lmdb_Inr [simp]: "check_lmdb L rc op = Inr u \<longleftrightarrow> rc = 0"
  by (auto simp: check_lmdb_def)

lemma bytes_from_mdb_value_id [simp]: "bytes_from_mdb_value v = v"
  by (simp add: bytes_from_mdb_value_def)

lemma lmdb_ok_put: "lmdb_ok L \<Longrightarrow> mdb_put L d k v = (0, d') \<Longrightarrow> kv L d' = (kv L d)(k \<mapsto> v)"
  by (simp add: lmdb_ok_def)

lemma lmdb_ok_del: "lmdb_ok L \<Longrightarrow> mdb_del L d k = (0, d') \<Longrightarrow> kv L d' = (kv L d)(k := None)"
  by (simp add: lmdb_ok_def)

lemma put_loop_kv:
  assumes "lmdb_ok L"
  shows "put_loop L d kvs = Inr d' \<Longrightarrow> kv L d' = fold (\<lambda>(k, v) m. m(k \<mapsto> v)) kvs (kv L d)"
proof (induction kvs arbitrary: d)
  case (Cons x kvs)
  obtain k v where x: "x = (k, v)" by (cases x)
  obtain rc d1 where p: "mdb_put L d k v = (rc, d1)" by (cases "mdb_put L d k v")
  with Cons.prems x have "rc = 0" "put_loop L d1 kvs = Inr d'"
    by (auto split: if_splits)
  then show ?case using Cons.IH lmdb_ok_put [OF assms] p x by simp
qed simp

lemma get_loop_kv: "get_loop L d locs = Inr rs \<Longrightarrow> rs = map (kv L d) locs"
  by (induction locs arbitrary: rs) (auto simp: kv_def split: if_splits prod.splits)

text \<open>What a removal returns: the value each key has when its turn comes.\<close>

fun removed_values :: "(string \<Rightarrow> bytes option) \<Rightarrow> string list \<Rightarrow> bytes option list" where
  "removed_values m [] = []"
| "removed_values m (k # ks) = m k # removed_values (m(k := None)) ks"

lemma remove_loop_kv:
  assumes "lmdb_ok L"
  shows "remove_loop L d locs = Inr (rs, d') \<Longrightarrow>
    rs = removed_values (kv L d) locs \<and> kv L d' = (\<lambda>k. if k \<in> set locs then None else kv L d k)"
proof (induction locs arbitrary: d rs)
  case (Cons k locs)
  obtain rc v where g: "mdb_get L d k = (rc, v)" by (cases "mdb_get L d k")
  show ?case
  proof (cases "rc = 0")
    case True
    obtain rc' d1 where del: "mdb_del L d k = (rc', d1)" by (cases "mdb_del L d k")
    with Cons.prems True g obtain rs1 where
      rs: "rc' = 0" "remove_loop L d1 locs = Inr (rs1, d')" "rs = Some v # rs1"
      by (auto split: if_splits prod.splits)
    then have "kv L d1 = (kv L d)(k := None)" using del lmdb_ok_del [OF assms] by simp
    moreover have "kv L d k = Some v" using g True by (simp add: kv_def)
    ultimately show ?thesis using Cons.IH [OF rs(2)] rs(3) by (intro conjI ext) (simp_all add: fun_upd_def)
  next
    case False
    with Cons.prems g obtain rs1 where
      rs: "remove_loop L d locs = Inr (rs1, d')" "rs = None # rs1"
      by (auto split: if_splits prod.splits)
    moreover have none: "kv L d k = None" using g False by (simp add: kv_def)
    moreover have "(kv L d)(k := None) = kv L d" using none by (simp add: fun_upd_idem)
    ultimately show ?thesis using Cons.IH [OF rs(1)] by (intro conjI ext) auto
  qed
qed simp

lemma cursor_scan_drop:
  assumes "cursor_visits L d ks" and "i < length ks"
  shows "cursor_scan L d (0, ks ! i) acc = Some (MDB_NOTFOUND, acc @ drop i ks)"
  using assms(2)
proof (induction "length ks - i" arbitrary: i acc)
  case 0
  then show ?case by simp
next
  case (Suc n)
  have step: "cursor_scan L d (0, ks ! i) acc
      = cursor_scan L d (mdb_cursor_next L d (ks ! i)) (acc @ [ks ! i])"
    by (subst cursor_scan.simps) simp
  have dr: "drop i ks = ks ! i # drop (Suc i) ks" using Suc.prems by (simp add: Cons_nth_drop_Suc)
  show ?case
  proof (cases "Suc i < length ks")
    case True
    then have "mdb_cursor_next L d (ks ! i) = (0, ks ! Suc i)"
      using assms(1) Suc.prems by (simp add: cursor_visits_def)
    then show ?thesis using Suc.hyps(1) [of "Suc i"] Suc.hyps(2) True step dr by simp
  next
    case False
    then have "fst (mdb_cursor_next L d (ks ! i)) = MDB_NOTFOUND"
      using assms(1) Suc.prems by (simp add: cursor_visits_def)
    moreover have "drop (Suc i) ks = []" using False by simp
    ultimately show ?thesis unfolding step dr
      by (subst cursor_scan.simps) (simp add: MDB_NOTFOUND_def)
  qed
qed

lemma cursor_scan_all:
  assumes "cursor_visits L d ks"
  shows "cursor_scan L d (mdb_cursor_first L d) [] = Some (MDB_NOTFOUND, ks)"
proof (cases "ks = []")
  case True
  then have "fst (mdb_cursor_first L d) = MDB_NOTFOUND" using assms by (simp add: cursor_visits_def)
  then show ?thesis using True by (subst cursor_scan.simps) (simp add: MDB_NOTFOUND_def)
next
  case False
  then have "mdb_cursor_first L d = (0, ks ! 0)" using assms by (simp add: cursor_visits_def hd_conv_nth)
  then show ?thesis using cursor_scan_drop [OF assms, of 0 "[]"] False by simp
qed

section \<open>Properties\<close>

text \<open>
  C34: A successful \<open>put\<close> stores every pair of the batch, later pairs over earlier ones, and
  changes no other key; a failed one leaves the database as it was, whichever call failed.
\<close>

theorem node_put_atomic:
  assumes "lmdb_ok L" and "node_put L d locations payloads = (r, d')"
  shows "case r of
      Inl e \<Rightarrow> d' = d
    | Inr _ \<Rightarrow> kv L d' = fold (\<lambda>(k, v) m. m(k \<mapsto> v)) (zip locations payloads) (kv L d)"
  using assms(2) put_loop_kv [OF assms(1)]
  by (auto simp: node_put_def split: if_splits sum.splits)

text \<open>
  A successful \<open>get\<close> returns, for each location in order, exactly the stored value or
  nothing when the key is absent.
\<close>

theorem node_get_values:
  assumes "node_get L d locations = Inr rs"
  shows "rs = map (kv L d) locations"
  using assms by (auto simp: node_get_def get_loop_kv)

text \<open>
  A successful \<open>remove\<close> returns the values the keys had (a repeated key is gone the second
  time), removes exactly those keys, and a failed one changes nothing.
\<close>

theorem node_remove_atomic:
  assumes "lmdb_ok L" and "node_remove L d locations = (r, d')"
  shows "case r of
      Inl e \<Rightarrow> d' = d
    | Inr rs \<Rightarrow> rs = removed_values (kv L d) locations \<and>
        kv L d' = (\<lambda>k. if k \<in> set locations then None else kv L d k)"
  using assms(2) remove_loop_kv [OF assms(1)]
  by (auto simp: node_remove_def split: if_splits sum.splits prod.splits)

text \<open>
  C35: The key scan ends, and when the transaction and the cursor open it returns every stored
  key exactly once.
\<close>

theorem node_list_complete:
  assumes "lmdb_ok L" and "begin_txn L d = Inr ()" and "mdb_cursor_open L d = 0"
  shows "\<exists>ks. node_list_locations L d = Some (Inr ks) \<and> distinct ks \<and> set ks = dom (kv L d)"
proof -
  obtain ks where ks: "distinct ks" "set ks = dom (kv L d)" "cursor_visits L d ks"
    using assms(1) unfolding lmdb_ok_def by blast
  have "node_list_locations L d = Some (Inr ks)"
    using assms(2,3) cursor_scan_all [OF ks(3)] by (simp add: node_list_locations_def check_lmdb_def)
  with ks show ?thesis by blast
qed

end
