(* ===== verification/Node_Server.thy ===== *)
theory Node_Server
  imports Storage_Node Http
begin

text \<open>
  \<^verbatim>\<open>core/StorageNodeServer.cpp\<close>: the HTTP surface of a storage node. One definition per route
  handler, over the node's database; \<open>node_server\<close> is the route table. A handler's result is
  the response it sets, or the exception that escapes it.
\<close>

definition location_param :: "http_request \<Rightarrow> string" where
  "location_param rq = (case map_of (rq_params rq) ''location'' of None \<Rightarrow> [] | Some v \<Rightarrow> v)"

definition handle_health :: "json_lib \<Rightarrow> http_response res" where
  "handle_health J = reply_ok J"

text \<open>\<open>None\<close>: the handler never returns (an unbounded cursor scan).\<close>

definition handle_list :: "'db lmdb \<Rightarrow> json_lib \<Rightarrow> 'db \<Rightarrow> http_response res option" where
  "handle_list L J d =
     (case node_list_locations L d of
        None \<Rightarrow> None
      | Some (Inl e) \<Rightarrow> Some (reply_error J 500 (exn_what e))
      | Some (Inr locations) \<Rightarrow> Some (reply J 200 (JArr (map JStr locations))))"

definition handle_put :: "'db lmdb \<Rightarrow> json_lib \<Rightarrow> 'db \<Rightarrow> http_request \<Rightarrow> http_response res \<times> 'db" where
  "handle_put L J d rq =
     (let location = location_param rq in
      if location = [] then (reply_error J 400 ''location must not be empty'', d)
      else case node_put L d [location] [bytes_of_string (rq_body rq)] of
        (Inl e, d') \<Rightarrow> (reply_error J 500 (exn_what e), d')
      | (Inr _, d') \<Rightarrow> (reply_ok J, d'))"

definition handle_get :: "'db lmdb \<Rightarrow> json_lib \<Rightarrow> 'db \<Rightarrow> http_request \<Rightarrow> http_response res" where
  "handle_get L J d rq =
     (let location = location_param rq in
      if location = [] then reply_error J 400 ''location must not be empty''
      else case node_get L d [location] of
        Inl e \<Rightarrow> reply_error J 500 (exn_what e)
      | Inr results \<Rightarrow>
          if results = [] \<or> hd results = None then reply_error J 404 ''not found''
          else Inr \<lparr>rs_status = 200, rs_body = string_of_bytes (the (hd results))\<rparr>)"

definition handle_delete :: "'db lmdb \<Rightarrow> json_lib \<Rightarrow> 'db \<Rightarrow> http_request \<Rightarrow> http_response res \<times> 'db" where
  "handle_delete L J d rq =
     (let location = location_param rq in
      if location = [] then (reply_error J 400 ''location must not be empty'', d)
      else case node_remove L d [location] of
        (Inl e, d') \<Rightarrow> (reply_error J 500 (exn_what e), d')
      | (Inr results, d') \<Rightarrow>
          (if results = [] \<or> hd results = None then reply_error J 404 ''not found''
           else Inr \<lparr>rs_status = 200, rs_body = string_of_bytes (the (hd results))\<rparr>, d'))"

definition node_server ::
    "'db lmdb \<Rightarrow> json_lib \<Rightarrow> http_verb \<Rightarrow> string \<Rightarrow> http_request \<Rightarrow> 'db \<Rightarrow> http_response option \<times> 'db" where
  "node_server L J verb path rq d =
     (if verb = GET \<and> path = ''/health'' then (Some (response_of (handle_health J)), d)
      else if verb = GET \<and> path = ''/shards/list'' then (map_option response_of (handle_list L J d), d)
      else if verb = PUT \<and> path = ''/shards'' then
        (case handle_put L J d rq of (r, d') \<Rightarrow> (Some (response_of r), d'))
      else if verb = GET \<and> path = ''/shards'' then (Some (response_of (handle_get L J d rq)), d)
      else if verb = DELETE \<and> path = ''/shards'' then
        (case handle_delete L J d rq of (r, d') \<Rightarrow> (Some (response_of r), d'))
      else (Some reply_not_found, d))"

section \<open>Lemmas\<close>

lemma handle_get_200:
  assumes "rs_status (response_of (handle_get L J d rq)) = 200"
  shows "kv L d (location_param rq) = Some (bytes_of_string (rs_body (response_of (handle_get L J d rq))))"
proof -
  have ne: "rs_status (response_of (reply_error J s m)) \<noteq> 200" if "s \<noteq> 200" for s m
    using that by (rule response_of_reply_error_ne_200)
  from assms ne obtain rs where
    rs: "node_get L d [location_param rq] = Inr rs" "rs \<noteq> []" "hd rs \<noteq> None"
    and r: "handle_get L J d rq = Inr \<lparr>rs_status = 200, rs_body = string_of_bytes (the (hd rs))\<rparr>"
    by (auto simp: handle_get_def Let_def split: if_splits sum.splits)
  have "rs = [kv L d (location_param rq)]"
    using rs(1) get_loop_kv [of L d "[location_param rq]" rs] by (simp add: node_get_def)
  then show ?thesis using rs r by auto
qed

lemma handle_put_200:
  assumes "lmdb_ok L" and "handle_put L J d rq = (r, d')" and "rs_status (response_of r) = 200"
  shows "location_param rq \<noteq> [] \<and> kv L d' = (kv L d)(location_param rq \<mapsto> bytes_of_string (rq_body rq))"
  using assms lmdb_ok_put [OF assms(1)]
  by (auto simp: handle_put_def node_put_def Let_def response_of_reply_error_ne_200
      split: if_splits sum.splits prod.splits)

end
