(* ===== verification/Cluster.thy ===== *)
theory Cluster
  imports Node_Server Shard_Transport
begin

text \<open>
  The storage nodes as the client sees them: the node servers of \<^verbatim>\<open>core/StorageNodeServer.cpp\<close>, one
  database per address, behind a network that may lose a request or the reply to it. It provides
  the interface \<open>shard_service\<close> of the transport.
\<close>

section \<open>Nodes behind a network\<close>

datatype delivery = Delivered | Unreachable | Reply_Lost

text \<open>
  \<open>cl_link t a\<close> is the fate of the request with number \<open>t\<close>, should it go to \<open>a\<close>: an arbitrary
  schedule of failures.
\<close>

record 'db cluster =
  cl_nodes :: "string \<Rightarrow> 'db option"
  cl_link :: "nat \<Rightarrow> string \<Rightarrow> delivery"
  cl_clock :: nat

text \<open>
  How httplib reads a request target, path and query parameters, is the parameter \<open>T\<close>. The code
  relies on the location parameter arriving as it was sent, which holds of plain locations.
\<close>

type_synonym target_parser = "string \<Rightarrow> string \<times> (string \<times> string) list"

definition targets_ok :: "target_parser \<Rightarrow> bool" where
  "targets_ok T \<longleftrightarrow> T ''/health'' = (''/health'', []) \<and> T ''/shards/list'' = (''/shards/list'', []) \<and>
     (\<forall>l. plain_location l \<longrightarrow> T (shard_target l) = (''/shards'', [(''location'', l)]))"

definition request_to :: "target_parser \<Rightarrow> string \<Rightarrow> bytes \<Rightarrow> http_request" where
  "request_to T target body =
     \<lparr>rq_params = snd (T target), rq_path_params = [], rq_body = string_of_bytes body\<rparr>"

definition cluster_send :: "'db lmdb \<Rightarrow> json_lib \<Rightarrow> target_parser \<Rightarrow> 'db cluster send" where
  "cluster_send L J T c a verb target body =
     (let c' = c\<lparr>cl_clock := Suc (cl_clock c)\<rparr> in
      case cl_nodes c a of
        None \<Rightarrow> (None, c')
      | Some d \<Rightarrow>
          if cl_link c (cl_clock c) a = Unreachable then (None, c')
          else (case node_server L J verb (fst (T target)) (request_to T target body) d of
            (r, d') \<Rightarrow> (if cl_link c (cl_clock c) a = Delivered then r else None,
                       c'\<lparr>cl_nodes := (cl_nodes c)(a \<mapsto> d')\<rparr>)))"

definition cluster_shards :: "'db lmdb \<Rightarrow> 'db cluster \<Rightarrow> string \<Rightarrow> string \<Rightarrow> bytes option" where
  "cluster_shards L c a = (case cl_nodes c a of None \<Rightarrow> Map.empty | Some d \<Rightarrow> kv L d)"

definition cluster_ok :: "'db lmdb \<Rightarrow> json_lib \<Rightarrow> target_parser \<Rightarrow> 'db cluster \<Rightarrow> bool" where
  "cluster_ok L J T c \<longleftrightarrow> lmdb_ok L \<and> json_ok J \<and> targets_ok T"

text \<open>A node that is up exists, is reachable from now on, and its database can be opened for reading.\<close>

definition cluster_up :: "'db lmdb \<Rightarrow> 'db cluster \<Rightarrow> string \<Rightarrow> bool" where
  "cluster_up L c a \<longleftrightarrow> cl_nodes c a \<noteq> None \<and> (\<forall>t\<ge>cl_clock c. cl_link c t a = Delivered) \<and>
     (\<forall>d. begin_txn L d = Inr ())"

section \<open>Lemmas\<close>

lemma location_param_request [simp]:
  "targets_ok T \<Longrightarrow> plain_location l \<Longrightarrow> location_param (request_to T (shard_target l) b) = l"
  by (simp add: targets_ok_def request_to_def location_param_def)

lemma request_body [simp]: "bytes_of_string (rq_body (request_to T t b)) = b"
  by (simp add: request_to_def)

lemma shards_path [simp]: "targets_ok T \<Longrightarrow> plain_location l \<Longrightarrow> fst (T (shard_target l)) = ''/shards''"
  by (simp add: targets_ok_def)

lemma node_server_get_same: "snd (node_server L J GET p rq d) = d"
  by (simp add: node_server_def)

lemma node_server_get:
  "node_server L J GET ''/shards'' rq d = (Some (response_of (handle_get L J d rq)), d)"
  by (simp add: node_server_def)

lemma node_server_put:
  "node_server L J PUT ''/shards'' rq d =
     (Some (response_of (fst (handle_put L J d rq))), snd (handle_put L J d rq))"
  by (simp add: node_server_def split: prod.splits)

lemma node_server_delete:
  "node_server L J DELETE ''/shards'' rq d =
     (Some (response_of (fst (handle_delete L J d rq))), snd (handle_delete L J d rq))"
  by (simp add: node_server_def split: prod.splits)

lemma handle_put_maybe:
  assumes "lmdb_ok L"
  shows "kv L (snd (handle_put L J d rq)) \<in>
    {kv L d, (kv L d)(location_param rq \<mapsto> bytes_of_string (rq_body rq))}"
  using lmdb_ok_put [OF assms]
  by (auto simp: handle_put_def node_put_def Let_def split: if_splits sum.splits prod.splits)

lemma handle_delete_maybe:
  assumes "lmdb_ok L"
  shows "kv L (snd (handle_delete L J d rq)) \<in> {kv L d, (kv L d)(location_param rq := None)}"
proof -
  let ?l = "location_param rq"
  have "kv L d' = (kv L d)(?l := None)" if "remove_loop L d [?l] = Inr (rs, d')" for rs d'
    using remove_loop_kv [OF assms that] by (auto simp: fun_eq_iff)
  then show ?thesis
    by (auto simp: handle_delete_def node_remove_def Let_def split: if_splits sum.splits prod.splits)
qed

lemma handle_get_up:
  assumes "begin_txn L d = Inr ()" and "kv L d (location_param rq) = Some v" and "location_param rq \<noteq> []"
  shows "rs_status (response_of (handle_get L J d rq)) = 200"
  using assms by (auto simp: handle_get_def node_get_def kv_def split: if_splits prod.splits)

lemma handle_list_200:
  assumes "json_ok J" and "lmdb_ok L" and "handle_list L J d = Some r" and "rs_status (response_of r) = 200"
  shows "\<exists>ls. json_parse J (rs_body (response_of r)) = Some (JArr (map JStr ls)) \<and> distinct ls \<and> set ls = dom (kv L d)"
proof -
  obtain ks where ks: "distinct ks" "set ks = dom (kv L d)" "cursor_visits L d ks"
    using assms(2) unfolding lmdb_ok_def by blast
  have "rs_status (response_of (reply_error J 500 m)) \<noteq> 200" for m
    by (rule response_of_reply_error_ne_200) simp
  then obtain ls where l: "node_list_locations L d = Some (Inr ls)" "r = reply J 200 (JArr (map JStr ls))"
    using assms(3,4) by (auto simp: handle_list_def split: option.splits sum.splits)
  have "ls = ks"
    using l(1) cursor_scan_all [OF ks(3)]
    by (auto simp: node_list_locations_def split: sum.splits option.splits if_splits)
  moreover have "json_parse J (rs_body (response_of r)) = Some (JArr (map JStr ls))"
    using l(2) assms(1,4) by (auto simp: reply_def json_ok_def split: option.splits)
  ultimately show ?thesis using ks by blast
qed

lemma cluster_send_cases:
  obtains (lost) "cluster_send L J T c a v t b = (None, c\<lparr>cl_clock := Suc (cl_clock c)\<rparr>)"
  | (served) d r d' q where "cl_nodes c a = Some d"
      "node_server L J v (fst (T t)) (request_to T t b) d = (r, d')" "q = r \<or> q = None"
      "cluster_send L J T c a v t b =
         (q, c\<lparr>cl_clock := Suc (cl_clock c), cl_nodes := (cl_nodes c)(a \<mapsto> d')\<rparr>)"
proof (cases "cl_nodes c a")
  case None
  then show ?thesis using lost by (simp add: cluster_send_def Let_def)
next
  case (Some d)
  obtain r d' where n: "node_server L J v (fst (T t)) (request_to T t b) d = (r, d')" by fastforce
  show ?thesis
  proof (cases "cl_link c (cl_clock c) a = Unreachable")
    case True
    then show ?thesis using lost Some by (simp add: cluster_send_def Let_def)
  next
    case False
    then show ?thesis
      using served [OF Some n, of "if cl_link c (cl_clock c) a = Delivered then r else None"] Some n
      by (simp add: cluster_send_def Let_def)
  qed
qed

lemma cluster_shards_update:
  "cluster_shards L (c\<lparr>cl_clock := n, cl_nodes := (cl_nodes c)(a \<mapsto> d')\<rparr>) = (cluster_shards L c)(a := kv L d')"
  "cluster_shards L (c\<lparr>cl_clock := n\<rparr>) = cluster_shards L c"
  by (auto simp: cluster_shards_def fun_eq_iff)

lemma cluster_shards_node: "cl_nodes c a = Some d \<Longrightarrow> cluster_shards L c a = kv L d"
  by (simp add: cluster_shards_def)

lemma cluster_send_up:
  assumes "cluster_up L c a"
  shows "\<exists>d r d'. cl_nodes c a = Some d \<and> node_server L J v (fst (T t)) (request_to T t b) d = (r, d') \<and>
    fst (cluster_send L J T c a v t b) = r"
  using assms by (auto simp: cluster_up_def cluster_send_def Let_def split: prod.splits)

section \<open>The cluster provides the service\<close>

interpretation cluster: shard_listing "cluster_send L J T" "cluster_shards L" "cluster_ok L J T" "cluster_up L" J
  for L :: "'db lmdb" and J T
proof
  fix c :: "'db cluster" and a a' v t b l
  show "cluster_ok L J T c \<Longrightarrow> cluster_ok L J T (snd (cluster_send L J T c a v t b))"
    by (simp add: cluster_ok_def)
  show "cluster_up L c a \<Longrightarrow> cluster_up L (snd (cluster_send L J T c a' v t b)) a"
    by (rule cluster_send_cases [of L J T c a' v t b]) (auto simp: cluster_up_def)
  show "cluster_shards L (snd (cluster_send L J T c a GET t b)) = cluster_shards L c"
  proof (rule cluster_send_cases [of L J T c a GET t b])
    fix d r d' q
    assume s: "cl_nodes c a = Some d" "node_server L J GET (fst (T t)) (request_to T t b) d = (r, d')"
      "cluster_send L J T c a GET t b = (q, c\<lparr>cl_clock := Suc (cl_clock c), cl_nodes := (cl_nodes c)(a \<mapsto> d')\<rparr>)"
    have "d' = d" using s(2) node_server_get_same [of L J "fst (T t)" "request_to T t b" d] by simp
    then show ?thesis using s by (simp add: cluster_shards_update cluster_shards_node fun_upd_idem)
  qed (simp add: cluster_shards_update)
  assume ok: "cluster_ok L J T c"
  then have L: "lmdb_ok L" and T: "targets_ok T" and J: "json_ok J" by (auto simp: cluster_ok_def)
  show "\<exists>ls. json_parse J (rs_body (the (fst (cluster_send L J T c a GET ''/shards/list'' [])))) = Some (JArr (map JStr ls)) \<and>
      distinct ls \<and> set ls = dom (cluster_shards L c a)"
    if g: "got_200 (fst (cluster_send L J T c a GET ''/shards/list'' []))"
  proof (rule cluster_send_cases [of L J T c a GET "''/shards/list''" "[]"])
    fix d r d' q
    assume s: "cl_nodes c a = Some d"
      "node_server L J GET (fst (T ''/shards/list'')) (request_to T ''/shards/list'' []) d = (r, d')" "q = r \<or> q = None"
      "cluster_send L J T c a GET ''/shards/list'' [] = (q, c\<lparr>cl_clock := Suc (cl_clock c), cl_nodes := (cl_nodes c)(a \<mapsto> d')\<rparr>)"
    then obtain h where h: "handle_list L J d = Some h" "q = Some (response_of h)"
      using T g by (cases "handle_list L J d") (auto simp: node_server_def targets_ok_def got_200_def)
    have "rs_status (response_of h) = 200" using g unfolding s(4) h(2) by (simp add: got_200_def)
    from handle_list_200 [OF J L h(1) this] show ?thesis
      unfolding s(4) h(2) cluster_shards_node [OF s(1)] by simp
  qed (use g in \<open>simp add: got_200_def\<close>)
  assume pl: "plain_location l"
  then have ne: "l \<noteq> []" by (simp add: plain_location_def)
  show "cluster_shards L c a l = Some (bytes_of_string (rs_body (the (fst (cluster_send L J T c a GET (shard_target l) [])))))"
    if g: "got_200 (fst (cluster_send L J T c a GET (shard_target l) []))"
  proof (rule cluster_send_cases [of L J T c a GET "shard_target l" "[]"])
    fix d r d' q
    assume s: "cl_nodes c a = Some d"
      "node_server L J GET (fst (T (shard_target l))) (request_to T (shard_target l) []) d = (r, d')" "q = r \<or> q = None"
      "cluster_send L J T c a GET (shard_target l) [] = (q, c\<lparr>cl_clock := Suc (cl_clock c), cl_nodes := (cl_nodes c)(a \<mapsto> d')\<rparr>)"
    then have q: "q = Some (response_of (handle_get L J d (request_to T (shard_target l) [])))"
      using T pl g by (auto simp: node_server_get got_200_def)
    have "rs_status (response_of (handle_get L J d (request_to T (shard_target l) []))) = 200"
      using g unfolding s(4) q by (simp add: got_200_def)
    from handle_get_200 [OF this] show ?thesis
      unfolding s(4) q cluster_shards_node [OF s(1)] using T pl by simp
  qed (use g in \<open>simp add: got_200_def\<close>)
  show "got_200 (fst (cluster_send L J T c a GET (shard_target l) []))"
    if u: "cluster_up L c a" and st: "cluster_shards L c a l \<noteq> None"
  proof -
    obtain d r d' where s: "cl_nodes c a = Some d"
      "node_server L J GET (fst (T (shard_target l))) (request_to T (shard_target l) []) d = (r, d')"
      "fst (cluster_send L J T c a GET (shard_target l) []) = r"
      using cluster_send_up [OF u] by blast
    have "begin_txn L d = Inr ()" using u by (simp add: cluster_up_def)
    then have "rs_status (response_of (handle_get L J d (request_to T (shard_target l) []))) = 200"
      using st s(1) T pl ne by (auto intro!: handle_get_up simp: cluster_shards_node)
    moreover have "r = Some (response_of (handle_get L J d (request_to T (shard_target l) [])))"
      using s(2) T pl by (auto simp: node_server_get)
    ultimately show ?thesis unfolding s(3) by (simp add: got_200_def)
  qed
  show "cluster_shards L (snd (cluster_send L J T c a PUT (shard_target l) b)) =
      (cluster_shards L c)(a := (cluster_shards L c a)(l \<mapsto> b))"
    if g: "got_200 (fst (cluster_send L J T c a PUT (shard_target l) b))"
  proof (rule cluster_send_cases [of L J T c a PUT "shard_target l" b])
    fix d r d' q
    assume s: "cl_nodes c a = Some d"
      "node_server L J PUT (fst (T (shard_target l))) (request_to T (shard_target l) b) d = (r, d')" "q = r \<or> q = None"
      "cluster_send L J T c a PUT (shard_target l) b = (q, c\<lparr>cl_clock := Suc (cl_clock c), cl_nodes := (cl_nodes c)(a \<mapsto> d')\<rparr>)"
    obtain p d1 where p: "handle_put L J d (request_to T (shard_target l) b) = (p, d1)" by fastforce
    then have "rs_status (response_of p) = 200" "d' = d1"
      using T pl g s by (auto simp: node_server_put got_200_def)
    then have "kv L d' = (kv L d)(l \<mapsto> b)" using handle_put_200 [OF L p] T pl by simp
    then show ?thesis using s by (simp add: cluster_shards_update cluster_shards_node)
  qed (use g in \<open>simp add: got_200_def\<close>)
  show "cluster_shards L (snd (cluster_send L J T c a PUT (shard_target l) b)) \<in>
      {cluster_shards L c, (cluster_shards L c)(a := (cluster_shards L c a)(l \<mapsto> b))}"
  proof (rule cluster_send_cases [of L J T c a PUT "shard_target l" b])
    fix d r d' q
    assume s: "cl_nodes c a = Some d"
      "node_server L J PUT (fst (T (shard_target l))) (request_to T (shard_target l) b) d = (r, d')" "q = r \<or> q = None"
      "cluster_send L J T c a PUT (shard_target l) b = (q, c\<lparr>cl_clock := Suc (cl_clock c), cl_nodes := (cl_nodes c)(a \<mapsto> d')\<rparr>)"
    then have "kv L d' \<in> {kv L d, (kv L d)(l \<mapsto> b)}"
      using handle_put_maybe [OF L, of J d "request_to T (shard_target l) b"] T pl by (simp add: node_server_put)
    then show ?thesis using s by (auto simp: cluster_shards_update cluster_shards_node fun_upd_idem)
  qed (simp add: cluster_shards_update)
  show "cluster_shards L (snd (cluster_send L J T c a DELETE (shard_target l) b)) \<in>
      {cluster_shards L c, (cluster_shards L c)(a := (cluster_shards L c a)(l := None))}"
  proof (rule cluster_send_cases [of L J T c a DELETE "shard_target l" b])
    fix d r d' q
    assume s: "cl_nodes c a = Some d"
      "node_server L J DELETE (fst (T (shard_target l))) (request_to T (shard_target l) b) d = (r, d')" "q = r \<or> q = None"
      "cluster_send L J T c a DELETE (shard_target l) b = (q, c\<lparr>cl_clock := Suc (cl_clock c), cl_nodes := (cl_nodes c)(a \<mapsto> d')\<rparr>)"
    then have "kv L d' \<in> {kv L d, (kv L d)(l := None)}"
      using handle_delete_maybe [OF L, of J d "request_to T (shard_target l) b"] T pl by (simp add: node_server_delete)
    then show ?thesis using s by (auto simp: cluster_shards_update cluster_shards_node fun_upd_idem)
  qed (simp add: cluster_shards_update)
qed

end
