(* ===== verification/Client_Lemmas.thy ===== *)
theory Client_Lemmas
  imports Storage_Client Cluster
begin

text \<open>
  Lemmas on \<open>put\<close>, \<open>get\<close>, \<open>remove\<close> and \<open>health\<close> of the client, proved once over any provider of the
  interface \<open>shard_service\<close>.
\<close>

lemma list_nodes_registered:
  "list_nodes P t = Inr ns \<Longrightarrow> set ns = nr_address ` set (t_nodes t)"
  by (auto simp: list_nodes_def sql_list_nodes_def split: if_splits)

section \<open>The crypto phase\<close>

definition put_manifest :: "put_draws \<Rightarrow> string \<Rightarrow> bytes \<Rightarrow> erasure_spec \<Rightarrow> prepared \<Rightarrow> shard_manifest" where
  "put_manifest rnd object_id data spec p = \<lparr>sm_object_id = object_id, sm_version = pr_version p,
     sm_size = word_of_nat (length data), sm_checksum = pr_checksum p, sm_erasure = spec,
     sm_encrypted_dek = pr_wrapped_dek p, sm_kek_id = pr_kek_id p, sm_written_at = pd_now rnd\<rparr>"

lemma put_prepare_spec:
  assumes "put_prepare L rnd ring active oid data spec = Inr p"
  shows "\<exists>plain es kek. encode (lb_isal L) data spec = Inr plain \<and>
    length plain = unat (data_shards spec + parity_shards spec) \<and>
    encrypt_shards (lb_botan L) (pd_nonces rnd) 0 plain (pd_dek rnd) = Inr es \<and> map_of ring active = Some kek \<and>
    encrypt_dek (lb_botan L) (pd_seed rnd) (pd_wrap_nonce rnd) (pd_dek rnd) kek = Inr (pr_wrapped_dek p) \<and>
    pr_kek_id p = active \<and> pr_version p = generateVersion (pd_version rnd) \<and>
    pr_checksum p = bytes_to_hex (checksum_sha256 (lb_botan L) data) \<and>
    pr_serialized p = map (\<lambda>e. StoredShard_serialize (lb_msgpack L)
      \<lparr>ss_manifest = put_manifest rnd oid data spec p, ss_shard = e\<rparr>) es"
proof -
  obtain plain es kek w where "encode (lb_isal L) data spec = Inr plain"
    "length plain = unat (data_shards spec + parity_shards spec)"
    "encrypt_shards (lb_botan L) (pd_nonces rnd) 0 plain (pd_dek rnd) = Inr es" "map_of ring active = Some kek"
    "encrypt_dek (lb_botan L) (pd_seed rnd) (pd_wrap_nonce rnd) (pd_dek rnd) kek = Inr w"
    "p = \<lparr>pr_version = generateVersion (pd_version rnd),
       pr_checksum = bytes_to_hex (checksum_sha256 (lb_botan L) data), pr_wrapped_dek = w, pr_kek_id = active,
       pr_serialized = map (\<lambda>e. StoredShard_serialize (lb_msgpack L)
         \<lparr>ss_manifest = \<lparr>sm_object_id = oid, sm_version = generateVersion (pd_version rnd),
            sm_size = word_of_nat (length data), sm_checksum = bytes_to_hex (checksum_sha256 (lb_botan L) data),
            sm_erasure = spec, sm_encrypted_dek = w, sm_kek_id = active, sm_written_at = pd_now rnd\<rparr>, ss_shard = e\<rparr>) es\<rparr>"
    using assms by (auto simp: put_prepare_def Let_def split: if_splits option.splits)
  then show ?thesis by (simp add: put_manifest_def)
qed

text \<open>
  Index strings are plain, so the keys of an object with a plain id are.\<close>

lemma plain_hex_byte: "list_all plain_char (hex_byte b)"
proof -
  have d: "list_all plain_char ''0123456789abcdef''" by code_simp
  have "plain_char (hex_digit (x AND 15))" for x :: byte
  proof -
    have "unat (x AND 15) \<le> 15" using word_and_le1 [of x 15] by (simp add: word_le_nat_alt)
    then have "hex_digit (x AND 15) \<in> set ''0123456789abcdef''" unfolding hex_digit_def by (intro nth_mem) simp
    with d show ?thesis by (simp only: list_all_iff)
  qed
  then show ?thesis by (simp add: hex_byte_def)
qed

lemma plain_version: "list_all plain_char (generateVersion b)"
  unfolding generateVersion_def using plain_hex_byte by (induction b) auto

lemma plain_to_string: "list_all plain_char (to_string n)"
  using to_string_digits by (auto simp: list_all_iff plain_char_def)

lemma plain_key:
  assumes "list_all plain_char oid" and "list_all plain_char ver"
  shows "plain_location (shard_key_of oid ver i)"
proof -
  have "plain_char (CHR ''/'')" by (simp add: plain_char_def)
  then show ?thesis using assms plain_to_string [of i] by (simp add: plain_location_def shard_key_of_def)
qed

section \<open>put\<close>

text \<open>
  What a successful \<open>put\<close> went through, up to the writes.\<close>

lemma put_decompose:
  assumes "StorageClient_put L rnd s oid data spec = (Inr u, s')"
  shows "\<exists>elig p nodes pl c locs t. put_validate L (sc_catalog s) oid data spec = Inr elig \<and>
    put_prepare L rnd (sc_ring s) (sc_active s) oid data spec = Inr p \<and>
    hrw_intended_nodes oid elig (length (pr_serialized p)) = Inr nodes \<and>
    placement_strategy oid (pr_version p) (pr_serialized p) nodes = Inr pl \<and>
    apply_placement (lb_send L) (lb_ord L) (sc_cluster s) pl = (Inr (), c) \<and>
    build_shard_locations (lb_ord L) pl = Inr locs \<and>
    MetadataStore_put (lb_pg L) (lb_msgpack L) (sc_catalog s) (put_metadata oid data spec p locs) = (Inr (), t) \<and>
    sc_cluster s' = c \<and> sc_catalog s' = t \<and> sc_ring s' = sc_ring s \<and> sc_active s' = sc_active s"
  using assms
  by (auto simp: StorageClient_put_def split: sum.splits prod.splits)

text \<open>
  However \<open>put\<close> ends: it stopped before writing, while writing shards, or at the catalog.\<close>

lemma put_phases:
  assumes "StorageClient_put L rnd s oid data spec = (r, s')"
  shows "s' = s \<and> \<not> is_ok r \<or> (\<exists>elig p nodes pl ra. put_validate L (sc_catalog s) oid data spec = Inr elig \<and>
    put_prepare L rnd (sc_ring s) (sc_active s) oid data spec = Inr p \<and>
    hrw_intended_nodes oid elig (length (pr_serialized p)) = Inr nodes \<and>
    placement_strategy oid (pr_version p) (pr_serialized p) nodes = Inr pl \<and>
    apply_placement (lb_send L) (lb_ord L) (sc_cluster s) pl = (ra, sc_cluster s') \<and>
    sc_ring s' = sc_ring s \<and> sc_active s' = sc_active s \<and>
    (sc_catalog s' = sc_catalog s \<and> \<not> is_ok r \<or>
     (\<exists>locs. ra = Inr () \<and> build_shard_locations (lb_ord L) pl = Inr locs \<and>
        MetadataStore_put (lb_pg L) (lb_msgpack L) (sc_catalog s) (put_metadata oid data spec p locs) = (r, sc_catalog s'))))"
proof (cases "put_validate L (sc_catalog s) oid data spec")
  case (Inl e)
  then show ?thesis using assms by (auto simp: StorageClient_put_def)
next
  case v: (Inr elig)
  show ?thesis
  proof (cases "put_prepare L rnd (sc_ring s) (sc_active s) oid data spec")
    case (Inl e)
    then show ?thesis using assms v by (auto simp: StorageClient_put_def)
  next
    case p: (Inr p)
    show ?thesis
    proof (cases "bind_res (hrw_intended_nodes oid elig (length (pr_serialized p)))
        (placement_strategy oid (pr_version p) (pr_serialized p))")
      case (Inl e)
      then show ?thesis using assms v p
        by (cases "hrw_intended_nodes oid elig (length (pr_serialized p))") (auto simp: StorageClient_put_def)
    next
      case (Inr pl)
      then obtain nodes where n: "hrw_intended_nodes oid elig (length (pr_serialized p)) = Inr nodes"
        "placement_strategy oid (pr_version p) (pr_serialized p) nodes = Inr pl"
        by (cases "hrw_intended_nodes oid elig (length (pr_serialized p))") auto
      obtain ra c where a: "apply_placement (lb_send L) (lb_ord L) (sc_cluster s) pl = (ra, c)" by fastforce
      have s': "sc_cluster s' = c \<and> sc_ring s' = sc_ring s \<and> sc_active s' = sc_active s \<and>
        (sc_catalog s' = sc_catalog s \<and> \<not> is_ok r \<or>
         (\<exists>locs. ra = Inr () \<and> build_shard_locations (lb_ord L) pl = Inr locs \<and>
            MetadataStore_put (lb_pg L) (lb_msgpack L) (sc_catalog s) (put_metadata oid data spec p locs) = (r, sc_catalog s')))"
        using assms v p n a
        by (cases ra; cases "build_shard_locations (lb_ord L) pl")
          (auto simp: StorageClient_put_def split: sum.splits prod.splits)
      show ?thesis
        by (rule disjI2, rule exI [of _ elig], rule exI [of _ p], rule exI [of _ nodes], rule exI [of _ pl], rule exI [of _ ra])
          (simp only: v p n a s' simp_thms)
    qed
  qed
qed

lemma placement_key_parts:
  assumes "placement_strategy oid ver shards nodes = Inr pl" and "shards \<noteq> []"
  shows "key_parts_ok oid ver \<and> length shards \<le> length nodes"
proof -
  have l: "length shards \<le> length nodes" "placement_loop oid ver 0 (zip nodes shards) [] = Inr pl"
    using assms(1) by (auto simp: placement_strategy_def split: if_splits)
  moreover obtain n s rest where "zip nodes shards = (n, s) # rest"
    using assms(2) l(1) by (cases nodes; cases shards) auto
  ultimately obtain key where "make_shard_key oid ver (word_of_nat 0) = Inr key" by auto
  then show ?thesis using l(1) by (simp add: make_shard_key_Inr key_parts_ok_def)
qed

lemma encode_total: "encode I data spec = Inr plain \<Longrightarrow> isal_ok I \<Longrightarrow> length plain = total_shards spec \<and> spec_ok spec"
proof -
  assume "encode I data spec = Inr plain" "isal_ok I"
  note sh = encode_shape_shards [OF this(2,1)]
  show ?thesis using arg_cong [OF sh(3), of length] sh(1) by simp
qed

lemma filter_upt_single: "i < n \<Longrightarrow> filter (\<lambda>j. j = i) [0..<n] = [i]"
proof (induction n)
  case (Suc n)
  then show ?case by (cases "i = n") auto
qed simp

text \<open>
  What \<open>put\<close> has settled before it writes: the shards, their nodes and their keys.\<close>

lemma put_plan:
  assumes lib: "isal_ok (lb_isal L)" and plain: "list_all plain_char oid"
    and v: "put_validate L t oid data spec = Inr elig"
    and p: "put_prepare L rnd ring active oid data spec = Inr p"
    and h: "hrw_intended_nodes oid elig (length (pr_serialized p)) = Inr nodes"
    and pl: "placement_strategy oid (pr_version p) (pr_serialized p) nodes = Inr pl"
  shows "list_nodes (lb_pg L) t = Inr elig \<and> spec_ok spec \<and> length (pr_serialized p) = total_shards spec \<and>
    total_shards spec \<le> 255 \<and> length nodes = total_shards spec \<and> distinct nodes \<and> set nodes \<subseteq> set elig \<and>
    key_parts_ok oid (pr_version p) \<and> distinct (map fst pl) \<and>
    (\<forall>a. pushed pl a = map (\<lambda>j. (shard_key_of oid (pr_version p) j, pr_serialized p ! j))
       (filter (\<lambda>j. nodes ! j = a) [0..<total_shards spec])) \<and>
    (\<forall>(a, es)\<in>set pl. \<forall>l\<in>fst ` set es. plain_location l)"
proof -
  let ?ser = "pr_serialized p" and ?ver = "pr_version p" and ?n = "total_shards spec"
  obtain pls es where e: "encode (lb_isal L) data spec = Inr pls"
    "encrypt_shards (lb_botan L) (pd_nonces rnd) 0 pls (pd_dek rnd) = Inr es" "length ?ser = length es"
    "?ver = generateVersion (pd_version rnd)"
    using put_prepare_spec [OF p] by auto
  have len: "length ?ser = ?n" "spec_ok spec"
    using encode_total [OF e(1) lib] arg_cong [OF encrypt_shards_index [OF e(2)], of length] e(3) by auto
  have n: "0 < ?n" "?n \<le> 255" using len(2) by (auto simp: spec_ok_def total_shards_def)
  have nodes: "distinct nodes" "set nodes \<subseteq> set elig" "length nodes = ?n" using hrw_intended_shape [OF h] len by auto
  have kp: "key_parts_ok oid ?ver" using placement_key_parts [OF pl] n(1) len(1) by (cases ?ser) auto
  have pu: "distinct (map fst pl)" "\<And>a. pushed pl a = map (\<lambda>j. (shard_key_of oid ?ver j, ?ser ! j))
      (filter (\<lambda>j. nodes ! j = a) [0..<?n])"
    using placement_strategy_ok [OF kp, of ?ser nodes] pl len(1) nodes(3) n(2) by auto
  have plk: "\<forall>(a, es)\<in>set pl. \<forall>l\<in>fst ` set es. plain_location l"
  proof (intro ballI, clarify)
    fix a es l b
    assume "(a, es) \<in> set pl" "(l, b) \<in> set es"
    then have "(l, b) \<in> set (pushed pl a)" using pu(1) by (simp add: pushed_def)
    then obtain j where "l = shard_key_of oid ?ver j" by (auto simp: pu(2))
    then show "plain_location (fst (l, b))" using plain_key [OF plain plain_version] e(4) by simp
  qed
  have "list_nodes (lb_pg L) t = Inr elig"
    using v by (auto simp: put_validate_def Let_def split: if_splits)
  then show ?thesis using len n nodes kp pu plk by blast
qed

context shard_service
begin

lemma put_placed:
  assumes lib: "isal_ok (lb_isal L)" "order_ok (lb_ord L)" and ok: "ok c" and plain: "list_all plain_char oid"
    and v: "put_validate L t oid data spec = Inr elig"
    and p: "put_prepare L rnd ring active oid data spec = Inr p"
    and h: "hrw_intended_nodes oid elig (length (pr_serialized p)) = Inr nodes"
    and pl: "placement_strategy oid (pr_version p) (pr_serialized p) nodes = Inr pl"
    and ap: "apply_placement send (lb_ord L) c pl = (Inr u, c')"
    and lo: "build_shard_locations (lb_ord L) pl = Inr locs"
  shows "ok c' \<and> locs = map (\<lambda>i. location_of (nodes ! i) oid (pr_version p) i) [0..<total_shards spec] \<and>
    (\<forall>i<total_shards spec. shards c' (nodes ! i) (shard_key_of oid (pr_version p) i) = Some (pr_serialized p ! i)) \<and>
    (\<forall>a l. (\<forall>i<total_shards spec. a \<noteq> nodes ! i \<or> l \<noteq> shard_key_of oid (pr_version p) i) \<longrightarrow> shards c' a l = shards c a l)"
proof -
  let ?ser = "pr_serialized p" and ?ver = "pr_version p" and ?n = "total_shards spec"
  note P = put_plan [OF lib(1) plain v p h pl]
  have pu: "pushed pl a = map (\<lambda>j. (shard_key_of oid ?ver j, ?ser ! j)) (filter (\<lambda>j. nodes ! j = a) [0..<?n])" for a
    using P by blast
  have val: "ok c'" "\<And>a. shards c' a = shards c a ++ map_of (rev (pushed pl a))"
    using apply_placement_value [OF lib(2) _ ok _ ap] P by auto
  have own: "pushed pl (nodes ! i) = [(shard_key_of oid ?ver i, ?ser ! i)]" if "i < ?n" for i
  proof -
    have "filter (\<lambda>j. nodes ! j = nodes ! i) [0..<?n] = filter (\<lambda>j. j = i) [0..<?n]"
      using P that by (intro filter_cong) (auto simp: nth_eq_iff_index_eq)
    also have "\<dots> = [i]" using that by (rule filter_upt_single)
    finally show ?thesis by (simp add: pu)
  qed
  have frame: "shards c' a l = shards c a l"
    if "\<forall>i<?n. a \<noteq> nodes ! i \<or> l \<noteq> shard_key_of oid ?ver i" for a l
  proof -
    have "map_of (rev (pushed pl a)) l = None" using that by (auto simp: pu map_of_eq_None_iff)
    then show ?thesis by (simp add: val(2) map_add_def)
  qed
  have "locs = map (\<lambda>i. location_of (nodes ! i) oid ?ver i) [0..<?n]"
    using build_locations_of_placement [OF _ _ _ lib(2) pl] P lo by simp
  then show ?thesis using val own frame by auto
qed

lemma put_spec:
  assumes lib: "lb_send L = send" "isal_ok (lb_isal L)" "order_ok (lb_ord L)" and ok: "ok (sc_cluster s)"
    and plain: "list_all plain_char oid"
    and put: "StorageClient_put L rnd s oid data spec = (Inr u, s')"
  shows "\<exists>elig p nodes. list_nodes (lb_pg L) (sc_catalog s) = Inr elig \<and>
    put_prepare L rnd (sc_ring s) (sc_active s) oid data spec = Inr p \<and> spec_ok spec \<and>
    length (pr_serialized p) = total_shards spec \<and> length nodes = total_shards spec \<and> distinct nodes \<and>
    set nodes \<subseteq> set elig \<and> key_parts_ok oid (pr_version p) \<and> ok (sc_cluster s') \<and>
    (\<forall>i<total_shards spec. shards (sc_cluster s') (nodes ! i) (shard_key_of oid (pr_version p) i) =
       Some (pr_serialized p ! i)) \<and>
    (\<forall>a l. (\<forall>i<total_shards spec. a \<noteq> nodes ! i \<or> l \<noteq> shard_key_of oid (pr_version p) i) \<longrightarrow>
       shards (sc_cluster s') a l = shards (sc_cluster s) a l) \<and>
    MetadataStore_put (lb_pg L) (lb_msgpack L) (sc_catalog s) (put_metadata oid data spec p
      (map (\<lambda>i. location_of (nodes ! i) oid (pr_version p) i) [0..<total_shards spec])) = (Inr (), sc_catalog s') \<and>
    sc_ring s' = sc_ring s \<and> sc_active s' = sc_active s"
proof -
  obtain elig p nodes pl locs where d: "put_validate L (sc_catalog s) oid data spec = Inr elig"
    "put_prepare L rnd (sc_ring s) (sc_active s) oid data spec = Inr p"
    "hrw_intended_nodes oid elig (length (pr_serialized p)) = Inr nodes"
    "placement_strategy oid (pr_version p) (pr_serialized p) nodes = Inr pl"
    "apply_placement send (lb_ord L) (sc_cluster s) pl = (Inr (), sc_cluster s')"
    "build_shard_locations (lb_ord L) pl = Inr locs"
    "MetadataStore_put (lb_pg L) (lb_msgpack L) (sc_catalog s) (put_metadata oid data spec p locs) = (Inr (), sc_catalog s')"
    "sc_ring s' = sc_ring s" "sc_active s' = sc_active s"
    using put_decompose [OF put] lib(1) by metis
  note P = put_plan [OF lib(2) plain d(1-4)] and Q = put_placed [OF lib(2,3) ok plain d(1-6)]
  have "MetadataStore_put (lb_pg L) (lb_msgpack L) (sc_catalog s) (put_metadata oid data spec p
      (map (\<lambda>i. location_of (nodes ! i) oid (pr_version p) i) [0..<total_shards spec])) = (Inr (), sc_catalog s')"
    using d(7) unfolding conjunct1 [OF conjunct2 [OF Q]] .
  with P Q d(2,8,9) show ?thesis
    by (elim conjE, intro exI [of _ elig] exI [of _ p] exI [of _ nodes] conjI) assumption+
qed

text \<open>
  However \<open>put\<close> ends, it writes under the keys of the new version only.\<close>

lemma put_keys:
  assumes lib: "lb_send L = send" "isal_ok (lb_isal L)" "order_ok (lb_ord L)" and ok: "ok (sc_cluster s)"
    and plain: "list_all plain_char oid"
    and put: "StorageClient_put L rnd s oid data spec = (r, s')"
  shows "sc_ring s' = sc_ring s \<and> (\<forall>a l. (\<forall>i. l \<noteq> shard_key_of oid (generateVersion (pd_version rnd)) i) \<longrightarrow>
    shards (sc_cluster s') a l = shards (sc_cluster s) a l)"
proof (cases "s' = s")
  case False
  then obtain elig p nodes pl r' where d: "put_validate L (sc_catalog s) oid data spec = Inr elig"
    "put_prepare L rnd (sc_ring s) (sc_active s) oid data spec = Inr p"
    "hrw_intended_nodes oid elig (length (pr_serialized p)) = Inr nodes"
    "placement_strategy oid (pr_version p) (pr_serialized p) nodes = Inr pl"
    "apply_placement send (lb_ord L) (sc_cluster s) pl = (r', sc_cluster s')" "sc_ring s' = sc_ring s"
    using put_phases [OF put] unfolding lib(1) by blast
  note P = put_plan [OF lib(2) plain d(1-4)]
  have ver: "pr_version p = generateVersion (pd_version rnd)" using put_prepare_spec [OF d(2)] by blast
  have "\<forall>a l. shards (sc_cluster s') a l = shards (sc_cluster s) a l \<or>
      (\<exists>b. (l, b) \<in> set (pushed pl a) \<and> shards (sc_cluster s') a l = Some b)"
    using apply_placement_maybe [OF lib(3) _ ok _ d(5)] P by blast
  moreover have "\<exists>i. l = shard_key_of oid (pr_version p) i" if "(l, b) \<in> set (pushed pl a)" for a l b
    using that P by auto
  ultimately show ?thesis using d(6) unfolding ver by blast
qed simp

end

section \<open>get\<close>

lemma subseq_set: "subseq xs ys \<Longrightarrow> set xs \<subseteq> set ys"
  by (induction rule: list_emb.induct) auto

lemma set_map_filter: "set (List.map_filter f xs) = {y. \<exists>x\<in>set xs. f x = Some y}"
  by (auto simp: List.map_filter_def) force

lemma length_map_filter_le: "length (List.map_filter f xs) \<le> length xs"
  by (simp add: List.map_filter_def)

lemma word_of_nat_inj_small: "i < 256 \<Longrightarrow> j < 256 \<Longrightarrow> (word_of_nat i :: 32 word) = word_of_nat j \<Longrightarrow> i = j"
  by (metis unat_of_small)

text \<open>
  Decoding what was fetched: all that opens is genuine, and what is there of the shards with
  indices \<open>Up\<close> is enough.
\<close>

lemma encoded_size:
  assumes "encode I data spec = Inr plain" and "isal_ok I"
  shows "unat (word_of_nat (length data) :: 64 word) = length data"
proof -
  note sh = encode_shape_shards [OF assms(2,1)]
  have "length data \<le> unat (data_shards spec) * unat (shard_size spec)" using sh(2) by simp
  also have "\<dots> \<le> 255 * 2147483647" using sh(1) by (intro mult_mono) (auto simp: spec_ok_def total_shards_def)
  finally show ?thesis by (simp add: unsigned_of_nat take_bit_nat_eq_self)
qed

lemma decode_genuine:
  fixes L :: "('c, 'key) libs"
  assumes lib: "isal_ok (lb_isal L)" and enc: "encode (lb_isal L) data spec = Inr plain"
    and sound: "\<And>e. e \<in> set ss \<Longrightarrow> opened (lb_botan L) dek e = None \<or> opened (lb_botan L) dek e \<in> Some ` set plain"
    and compl: "\<And>i. i \<in> Up \<Longrightarrow> i < total_shards spec \<and> (\<exists>e\<in>set ss. opened (lb_botan L) dek e = Some (plain ! i))"
    and enough: "unat (data_shards spec) \<le> card Up"
    and inv: "isal_invertible (lb_isal L) (total_shards spec) (unat (data_shards spec)) \<or> {..<unat (data_shards spec)} \<subseteq> Up"
  defines "surv \<equiv> List.map_filter (opened (lb_botan L) dek) ss"
  shows "decrypt_shards (lb_botan L) ss dek True = Inr surv \<and> decode (lb_isal L) surv spec (length data) = Inr data \<and>
    unat (data_shards spec) \<le> length surv \<and> unat (data_shards spec) \<le> length ss \<and>
    unat (word_of_nat (length data) :: 64 word) = length data"
proof -
  let ?k = "unat (data_shards spec)" and ?n = "total_shards spec"
  note sh = encode_shape_shards [OF lib enc]
  have n: "?n \<le> 255" "0 < ?k" using sh(1) by (auto simp: spec_ok_def total_shards_def)
  have lp: "length plain = ?n" using encode_total [OF enc lib] by simp
  have idx: "ps_index (plain ! i) = word_of_nat i" if "i < ?n" for i using that sh(3) by simp
  have sub: "set surv \<subseteq> set plain"
    using sound by (force simp: surv_def set_map_filter)
  have have_up: "plain ! i \<in> set surv" if "i \<in> Up" for i
    using compl [OF that] by (auto simp: surv_def set_map_filter)
  have fin: "Up \<subseteq> {..<?n}" using compl by auto
  have "(\<lambda>i. word_of_nat i :: 32 word) ` Up \<subseteq> ps_index ` set surv"
    using have_up idx compl by (force simp: image_iff)
  moreover have "inj_on (\<lambda>i. word_of_nat i :: 32 word) Up"
    using fin n(1) by (intro inj_onI word_of_nat_inj_small) auto
  ultimately have card: "card Up \<le> card (ps_index ` set surv)"
    by (metis List.finite_set card_image card_mono finite_imageI)
  have lens: "?k \<le> length surv" "?k \<le> length ss"
  proof -
    have "card (ps_index ` set surv) \<le> length surv"
      by (metis card_image_le card_length List.finite_set le_trans)
    then show "?k \<le> length surv" using card enough by linarith
    then show "?k \<le> length ss" using length_map_filter_le [of "opened (lb_botan L) dek" ss] unfolding surv_def by linarith
  qed
  have "isal_invertible (lb_isal L) ?n ?k \<or> {s \<in> set plain. ps_index s < data_shards spec} \<subseteq> set surv"
  proof (rule disj_mono [rule_format, OF _ _ inv])
    assume up: "{..<?k} \<subseteq> Up"
    show "{s \<in> set plain. ps_index s < data_shards spec} \<subseteq> set surv"
    proof clarify
      fix s
      assume "s \<in> set plain" "ps_index s < data_shards spec"
      then obtain i where i: "i < ?n" "s = plain ! i" "word_of_nat i < data_shards spec"
        using lp idx by (auto simp: in_set_conv_nth)
      then have "i < ?k" using n(1) by (auto simp: word_less_nat_alt unat_of_small)
      then show "s \<in> set surv" using have_up up i(2) by auto
    qed
  qed
  then have dec: "decode (lb_isal L) surv spec (length data) = Inr data"
    using decode_survivors [OF lib enc sub] card enough by auto
  show ?thesis using lens dec encoded_size [OF enc lib] by (simp add: decrypt_best_effort surv_def)
qed

lemma get_decode_ok:
  assumes lib: "isal_ok (lb_isal L)" and enc: "encode (lb_isal L) data spec = Inr plain"
    and md: "md_erasure md = spec" "md_size md = word_of_nat (length data)"
      "md_checksum md = bytes_to_hex (checksum_sha256 (lb_botan L) data)"
    and dek: "recover_dek (lb_botan L) (lb_ord L) (md_encrypted_dek md) (md_kek_id md) ring = Inr dek"
    and sound: "\<And>e. e \<in> set ss \<Longrightarrow> opened (lb_botan L) dek e = None \<or> opened (lb_botan L) dek e \<in> Some ` set plain"
    and compl: "\<And>i. i \<in> Up \<Longrightarrow> i < total_shards spec \<and> (\<exists>e\<in>set ss. opened (lb_botan L) dek e = Some (plain ! i))"
    and enough: "unat (data_shards spec) \<le> card Up"
    and inv: "isal_invertible (lb_isal L) (total_shards spec) (unat (data_shards spec)) \<or> {..<unat (data_shards spec)} \<subseteq> Up"
  shows "get_decode L ring md ss = Inr data"
  using decode_genuine [OF lib enc sound compl enough inv] by (simp add: get_decode_def md dek)

text \<open>The locations of a placed object lead back to its shards.\<close>

context shard_service
begin

lemma fetch_placed:
  assumes lib: "order_ok (lb_ord L)" and ok: "ok c" and nodes: "length nodes = n" "\<forall>a\<in>set nodes. CHR ''/'' \<notin> set a"
    and plain: "list_all plain_char oid" "list_all plain_char ver"
    and m: "parse_shard_locations (map (\<lambda>i. location_of (nodes ! i) oid ver i) [0..<n]) = Inr m"
    and f: "fetch_encrypted_shards send M (lb_ord L) c m = (ss, c')"
  shows "ok c' \<and> shards c' = shards c \<and> (\<forall>a. up c a \<longrightarrow> up c' a) \<and>
    (\<forall>e\<in>set ss. \<exists>i<n. decoded M (shards c (nodes ! i)) (shard_key_of oid ver i) = Some e) \<and>
    (\<forall>i<n. \<forall>e. up c (nodes ! i) \<and> is_ok (get_node_client (nodes ! i)) \<and>
       decoded M (shards c (nodes ! i)) (shard_key_of oid ver i) = Some e \<longrightarrow> e \<in> set ss)"
proof -
  obtain m' where "parse_shard_locations (map (\<lambda>i. location_of (nodes ! i) oid ver i) [0..<length nodes]) = Inr m'"
    "distinct (map fst m')" "fst ` set m' = set nodes"
    "\<forall>a\<in>set nodes. pushed m' a = map (shard_key_of oid ver) (filter (\<lambda>i. nodes ! i = a) [0..<length nodes])"
    using parse_locations_placed [OF nodes(2)] by blast
  then have pm: "distinct (map fst m)" "fst ` set m = set nodes"
    "\<And>a. a \<in> set nodes \<Longrightarrow> pushed m a = map (shard_key_of oid ver) (filter (\<lambda>i. nodes ! i = a) [0..<n])"
    using m nodes(1) by auto
  have ls: "ls = map (shard_key_of oid ver) (filter (\<lambda>i. nodes ! i = a) [0..<n])" if "(a, ls) \<in> set m" for a ls
  proof -
    have "a \<in> set nodes" using that pm(2) by force
    moreover have "ls = pushed m a" using that pm(1) by (simp add: pushed_def)
    ultimately show ?thesis using pm(3) by simp
  qed
  have pl: "\<forall>(a, ls)\<in>set m. \<forall>l\<in>set ls. plain_location l"
    using ls plain_key [OF plain] by fastforce
  note sp = fetch_encrypted_shards_spec [OF lib pm(1) ok pl f]
  have it: "set (um_iter (lb_ord L) m) = set m" using um_iter_set [OF lib pm(1)] by simp
  have snd: "\<exists>i<n. decoded M (shards c (nodes ! i)) (shard_key_of oid ver i) = Some e" if e: "e \<in> set ss" for e
  proof -
    have "set ss \<subseteq> set (decoded_map M (shards c) (um_iter (lb_ord L) m))" using sp subseq_set by blast
    then have "e \<in> set (decoded_map M (shards c) (um_iter (lb_ord L) m))" using e by blast
    then obtain a ls l where a: "(a, ls) \<in> set m" "l \<in> set ls" "decoded M (shards c a) l = Some e"
      using it by (auto simp: decoded_map_def set_decoded_list)
    then obtain i where "i < n" "nodes ! i = a" "l = shard_key_of oid ver i" using ls [OF a(1)] by auto
    with a(3) show ?thesis by auto
  qed
  have cpl: "e \<in> set ss" if i: "i < n" "up c (nodes ! i)" "is_ok (get_node_client (nodes ! i))"
    "decoded M (shards c (nodes ! i)) (shard_key_of oid ver i) = Some e" for i e
  proof -
    have "nodes ! i \<in> fst ` set m" unfolding pm(2) using i(1) nodes(1) by simp
    then obtain ls' where l: "(nodes ! i, ls') \<in> set m" by auto
    then have "shard_key_of oid ver i \<in> set ls'" using ls [OF l] i(1) by auto
    then have "e \<in> set (decoded_list M (shards c (nodes ! i)) ls')" using i(4) by (auto simp: set_decoded_list)
    then show ?thesis using sp l i(2,3) by fastforce
  qed
  show ?thesis using sp snd cpl by blast
qed

text \<open>
  A \<open>get\<close> of what \<open>put\<close> wrote, from a later state: the catalog still has the entry, the key ring
  still has the key, the shards with indices \<open>Up\<close> are untouched on reachable nodes, and nothing
  else opens under the object's key.
\<close>

lemma get_spec:
  assumes lib: "lb_send L = send" "isal_ok (lb_isal L)" "gcm_ok (lb_botan L)" "kem_ok (lb_botan L)"
      "msgpack_ok (lb_msgpack L)" "order_ok (lb_ord L)"
    and pr: "put_prepare L rnd ring active oid data spec = Inr p"
    and rnd: "length (pd_dek rnd) = 32" "length (pd_wrap_nonce rnd) = nonce_length (lb_botan L)"
    and nodes: "length nodes = total_shards spec" "\<forall>a\<in>set nodes. CHR ''/'' \<notin> set a"
    and plain: "list_all plain_char oid" and oid: "oid \<noteq> []"
    and md: "MetadataStore_get (lb_pg L) (lb_msgpack L) (sc_catalog s) oid =
      Inr (Some ((put_metadata oid data spec p
        (map (\<lambda>i. location_of (nodes ! i) oid (pr_version p) i) [0..<total_shards spec]))\<lparr>md_id := u, md_version := v\<rparr>))"
    and ring: "map_of (sc_ring s) active = map_of ring active"
    and ok: "ok (sc_cluster s)"
    and up: "\<And>i. i \<in> Up \<Longrightarrow> i < total_shards spec \<and> up (sc_cluster s) (nodes ! i) \<and> is_ok (get_node_client (nodes ! i)) \<and>
      shards (sc_cluster s) (nodes ! i) (shard_key_of oid (pr_version p) i) = Some (pr_serialized p ! i)"
    and rest: "\<And>i e. i < total_shards spec \<Longrightarrow>
      shards (sc_cluster s) (nodes ! i) (shard_key_of oid (pr_version p) i) \<noteq> Some (pr_serialized p ! i) \<Longrightarrow>
      decoded (lb_msgpack L) (shards (sc_cluster s) (nodes ! i)) (shard_key_of oid (pr_version p) i) = Some e \<Longrightarrow>
      opened (lb_botan L) (pd_dek rnd) e = None"
    and enough: "unat (data_shards spec) \<le> card Up"
    and inv: "isal_invertible (lb_isal L) (total_shards spec) (unat (data_shards spec)) \<or> {..<unat (data_shards spec)} \<subseteq> Up"
  shows "\<exists>s'. StorageClient_get L timing s oid = (Inr data, s') \<and> sc_catalog s' = sc_catalog s \<and>
    shards (sc_cluster s') = shards (sc_cluster s)"
proof -
  let ?n = "total_shards spec" and ?ver = "pr_version p" and ?B = "lb_botan L" and ?c = "sc_cluster s"
  let ?locs = "map (\<lambda>i. location_of (nodes ! i) oid ?ver i) [0..<?n]"
  let ?md = "(put_metadata oid data spec p ?locs)\<lparr>md_id := u, md_version := v\<rparr>"
  obtain pls es kek where e: "encode (lb_isal L) data spec = Inr pls"
    "encrypt_shards ?B (pd_nonces rnd) 0 pls (pd_dek rnd) = Inr es" "map_of ring active = Some kek"
    "encrypt_dek ?B (pd_seed rnd) (pd_wrap_nonce rnd) (pd_dek rnd) kek = Inr (pr_wrapped_dek p)"
    "pr_kek_id p = active" "?ver = generateVersion (pd_version rnd)"
    "pr_checksum p = bytes_to_hex (checksum_sha256 ?B data)"
    "pr_serialized p = map (\<lambda>e. StoredShard_serialize (lb_msgpack L)
      \<lparr>ss_manifest = put_manifest rnd oid data spec p, ss_shard = e\<rparr>) es"
    using put_prepare_spec [OF pr] by blast
  have les: "length es = ?n"
    using encode_total [OF e(1) lib(2)] arg_cong [OF encrypt_shards_index [OF e(2)], of length] by simp
  have ser: "decode_shard (lb_msgpack L) (pr_serialized p ! i) = Inr (es ! i, Some (put_manifest rnd oid data spec p))"
    if "i < ?n" for i using that les lib(5) by (simp add: e(8))
  have dek: "recover_dek ?B (lb_ord L) (md_encrypted_dek ?md) (md_kek_id ?md) (sc_ring s) = Inr (pd_dek rnd)"
    using decrypt_dek_wrapped [OF lib(3,4) rnd(2,1) e(4)] ring e(3) by (simp add: recover_dek_def put_metadata_def e(5))
  obtain m where m: "parse_shard_locations ?locs = Inr m"
    using parse_locations_placed [OF nodes(2), of oid ?ver] nodes(1) by auto
  obtain ss c' where f: "fetch_encrypted_shards send (lb_msgpack L) (lb_ord L) ?c m = (ss, c')" by fastforce
  have pv: "list_all plain_char ?ver" unfolding e(6) by (rule plain_version)
  note fp = fetch_placed [OF lib(6) ok nodes plain pv m f]
  have opi: "opened ?B (pd_dek rnd) (es ! i) = Some (pls ! i)" and lpls: "i < length pls" if "i < ?n" for i
    using that les arg_cong [OF opened_encrypted [OF lib(3) e(2)], of "\<lambda>xs. xs ! i"]
      arg_cong [OF encrypt_shards_index [OF e(2)], of length] by simp_all
  have "get_decode L (sc_ring s) ?md ss = Inr data"
  proof (rule get_decode_ok [OF lib(2) e(1) _ _ _ dek _ _ enough inv])
    show "opened ?B (pd_dek rnd) e = None \<or> opened ?B (pd_dek rnd) e \<in> Some ` set pls" if "e \<in> set ss" for e
    proof -
      obtain i where i: "i < ?n" "decoded (lb_msgpack L) (shards ?c (nodes ! i)) (shard_key_of oid ?ver i) = Some e"
        using fp \<open>e \<in> set ss\<close> by blast
      show ?thesis
      proof (cases "shards ?c (nodes ! i) (shard_key_of oid ?ver i) = Some (pr_serialized p ! i)")
        case True
        then have "e = es ! i" using i ser by (simp add: decoded_def)
        then show ?thesis using opi [OF i(1)] lpls [OF i(1)] by simp
      next
        case False
        then show ?thesis using rest [OF i(1) False i(2)] by simp
      qed
    qed
    show "i < ?n \<and> (\<exists>e\<in>set ss. opened ?B (pd_dek rnd) e = Some (pls ! i))" if "i \<in> Up" for i
    proof -
      note ui = up [OF that]
      have "decoded (lb_msgpack L) (shards ?c (nodes ! i)) (shard_key_of oid ?ver i) = Some (es ! i)"
        using ui ser [of i] by (simp add: decoded_def)
      then have "es ! i \<in> set ss" using ui fp by blast
      then show ?thesis using opi [of i] ui by blast
    qed
  qed (simp_all add: put_metadata_def e(7))
  moreover have "md_shard_locations ?md = ?locs" by (simp add: put_metadata_def)
  ultimately have "StorageClient_get L timing s oid = (Inr data, s\<lparr>sc_cluster := c',
      sc_metrics := get_metrics L timing ?md (sc_metrics s)\<rparr>)"
    using oid m f by (simp add: StorageClient_get_def lib(1) md)
  then show ?thesis using fp by simp
qed

end

section \<open>health\<close>

text \<open>What a location points at is stored; the node it names can be asked.\<close>

definition stored_at :: "(string \<Rightarrow> string \<Rightarrow> bytes option) \<Rightarrow> string \<Rightarrow> bool" where
  "stored_at nodes loc = (case split_location loc of None \<Rightarrow> False | Some (a, l) \<Rightarrow> nodes a l \<noteq> None)"

definition askable :: "(string \<Rightarrow> bool) \<Rightarrow> string \<Rightarrow> bool" where
  "askable up loc = (case split_location loc of None \<Rightarrow> True | Some (a, l) \<Rightarrow> up a \<and> is_ok (get_node_client a))"

definition location_plain :: "string \<Rightarrow> bool" where
  "location_plain loc = (case split_location loc of None \<Rightarrow> True | Some (a, l) \<Rightarrow> plain_location l)"

definition missing_of :: "nat \<Rightarrow> bool list \<Rightarrow> 32 word list" where
  "missing_of i bs = map (\<lambda>(j, b). word_of_nat j) (filter (\<lambda>(j, b). \<not> b) (zip [i..<i + length bs] bs))"

lemma missing_of_simps [simp]:
  "missing_of i [] = []"
  "missing_of i (b # bs) = (if b then missing_of (Suc i) bs else word_of_nat i # missing_of (Suc i) bs)"
proof -
  have "[i..<i + length (b # bs)] = i # [Suc i..<Suc i + length bs]"
    using upt_conv_Cons [of i "Suc (i + length bs)"] by simp
  then show "missing_of i (b # bs) = (if b then missing_of (Suc i) bs else word_of_nat i # missing_of (Suc i) bs)"
    unfolding missing_of_def by simp
qed (simp add: missing_of_def)

lemma missing_of_indices: "missing_of i bs = map word_of_nat (filter (\<lambda>j. \<not> bs ! (j - i)) [i..<i + length bs])"
proof (induction bs arbitrary: i)
  case (Cons b bs)
  have "[i..<i + length (b # bs)] = i # [Suc i..<Suc i + length bs]"
    using upt_conv_Cons [of i "Suc (i + length bs)"] by simp
  moreover have "filter (\<lambda>j. \<not> (b # bs) ! (j - i)) [Suc i..<Suc i + length bs] =
      filter (\<lambda>j. \<not> bs ! (j - Suc i)) [Suc i..<Suc i + length bs]"
    by (intro filter_cong) (auto simp: nth_Cons' simp del: upt_Suc)
  ultimately show ?case by (cases b) (simp_all add: Cons.IH del: upt_Suc)
qed simp

context shard_service
begin

lemma health_loop_spec:
  "ok c \<Longrightarrow> \<forall>loc\<in>set locs. location_plain loc \<Longrightarrow> health_loop send c i locs av ms = ((av', ms'), c') \<Longrightarrow>
   shards c' = shards c \<and> ok c' \<and> (\<exists>bs. length bs = length locs \<and>
     av' = av + word_of_nat (length (filter (\<lambda>b. b) bs)) \<and> ms' = ms @ missing_of i bs \<and>
     list_all2 (\<lambda>b loc. b \<longrightarrow> stored_at (shards c) loc) bs locs \<and>
     list_all2 (\<lambda>b loc. askable (up c) loc \<longrightarrow> b = stored_at (shards c) loc) bs locs)"
proof (induction locs arbitrary: c i av ms)
  case (Cons loc locs)
  have pl: "\<forall>loc\<in>set locs. location_plain loc" using Cons.prems(2) by simp
  show ?case
  proof (cases "split_location loc")
    case None
    have "health_loop send c (Suc i) locs av (ms @ [word_of_nat i]) = ((av', ms'), c')"
      using Cons.prems(3) None by simp
    from Cons.IH [OF Cons.prems(1) pl this] obtain bs where "shards c' = shards c \<and> ok c' \<and> length bs = length locs \<and>
     av' = av + word_of_nat (length (filter (\<lambda>b. b) bs)) \<and> ms' = (ms @ [word_of_nat i]) @ missing_of (Suc i) bs \<and>
     list_all2 (\<lambda>b loc. b \<longrightarrow> stored_at (shards c) loc) bs locs \<and>
     list_all2 (\<lambda>b loc. askable (up c) loc \<longrightarrow> b = stored_at (shards c) loc) bs locs" by blast
    then show ?thesis using None by (auto simp: stored_at_def intro!: exI [of _ "False # bs"])
  next
    case (Some x)
    obtain a l where x: "x = (a, l)" by (cases x)
    obtain b c1 where p: "probe_shard send c a l = (b, c1)" by fastforce
    have "plain_location l" using Cons.prems(2) Some x by (simp add: location_plain_def)
    note ps = probe_shard_spec [OF Cons.prems(1) this p]
    have h: "health_loop send c1 (Suc i) locs (if b then av + 1 else av) (if b then ms else ms @ [word_of_nat i]) = ((av', ms'), c')"
      using Cons.prems(3) Some x p by (cases b) auto
    from Cons.IH [OF conjunct1 [OF ps] pl h] obtain bs where B: "shards c' = shards c1" "ok c'" "length bs = length locs"
     "av' = (if b then av + 1 else av) + word_of_nat (length (filter (\<lambda>b. b) bs))"
     "ms' = (if b then ms else ms @ [word_of_nat i]) @ missing_of (Suc i) bs"
     "list_all2 (\<lambda>b loc. b \<longrightarrow> stored_at (shards c1) loc) bs locs"
     "list_all2 (\<lambda>b loc. askable (up c1) loc \<longrightarrow> b = stored_at (shards c1) loc) bs locs" by blast
    have "list_all2 (\<lambda>b loc. askable (up c) loc \<longrightarrow> b = stored_at (shards c) loc) bs locs"
      using B(7) by (rule list_all2_mono) (use ps in \<open>auto simp: askable_def stored_at_def split: option.splits\<close>)
    moreover have "list_all2 (\<lambda>b loc. b \<longrightarrow> stored_at (shards c) loc) bs locs" using B(6) ps by simp
    moreover have "b \<longrightarrow> stored_at (shards c) loc" "askable (up c) loc \<longrightarrow> b = stored_at (shards c) loc"
      using ps Some x by (auto simp: stored_at_def askable_def)
    ultimately show ?thesis using B ps by (intro conjI exI [of _ "b # bs"]) (auto simp: add.assoc)
  qed
qed auto

end


lemma parse_locations_Inr:
  assumes "parse_shard_locations locs = Inr m"
  shows "(\<forall>l\<in>set locs. split_location l \<noteq> None) \<and> distinct (map fst m) \<and>
    (\<forall>a. set (pushed m a) = {l. \<exists>loc\<in>set locs. split_location loc = Some (a, l)})"
proof -
  have s: "parse_locations_loop locs m' = Inr m \<Longrightarrow> \<forall>l\<in>set locs. split_location l \<noteq> None" for m'
    by (induction locs arbitrary: m') (auto split: option.splits)
  then have n: "\<forall>l\<in>set locs. split_location l \<noteq> None" using assms by (simp add: parse_shard_locations_def)
  have p: "distinct (map fst m)" "\<forall>a. pushed m a =
      map snd (filter (\<lambda>x. fst x = a) (map (\<lambda>l. the (split_location l)) locs))"
    using parse_locations_loop_pushed [OF n, of "[]"] assms by (auto simp: parse_shard_locations_def)
  have "set (pushed m a) = {l. \<exists>loc\<in>set locs. split_location loc = Some (a, l)}" for a
    using n by (auto simp: p(2) image_iff) (metis fst_conv option.sel snd_conv)+
  with n p(1) show ?thesis by blast
qed

lemma entries_pushed: "distinct (map fst m) \<Longrightarrow> (a, ls) \<in> set m \<Longrightarrow> ls = pushed m a"
  by (simp add: pushed_def)

section \<open>rotate\<close>

lemma fresh_kek_id_new: "fresh_kek_id draws ring i = Some k \<Longrightarrow> map_of ring k = None"
  by (erule fresh_kek_id.raw_induct [where P = "\<lambda>draws ring i k. map_of ring k = None", rotated]) (auto split: if_splits)

lemma fresh_kek_id_ends:
  assumes "map_of ring (generateKekId (draws i)) = None" and "j \<le> i"
  shows "\<exists>k. fresh_kek_id draws ring j = Some k \<and> map_of ring k = None"
  using assms(2)
proof (induction "i - j" arbitrary: j)
  case 0
  then have "j = i" by simp
  then show ?case using assms(1) by (subst fresh_kek_id.simps) simp
next
  case (Suc n)
  then have "\<exists>k. fresh_kek_id draws ring (Suc j) = Some k \<and> map_of ring k = None" by simp
  then show ?case by (subst fresh_kek_id.simps) auto
qed

end
