(* ===== verification/Object_State.thy ===== *)
theory Object_State
  imports Client_Lemmas
begin

text \<open>
  The state of one stored object, seen through its locations: what \<open>get\<close>, \<open>repair\<close> and \<open>rebalance\<close>
  rely on and what they keep. \<open>N\<close> is what the nodes store, node by node and key by key.
\<close>

section \<open>What a location holds\<close>

definition decoded_at ::
    "msgpack \<Rightarrow> (string \<Rightarrow> string \<Rightarrow> bytes option) \<Rightarrow> string \<Rightarrow> encrypted_shard option" where
  "decoded_at M N loc = (case split_location loc of None \<Rightarrow> None | Some (a, l) \<Rightarrow> decoded M (N a) l)"

text \<open>Shard \<open>p\<close> can be read from location \<open>loc\<close>.\<close>

definition holds ::
    "('c, 'key) libs \<Rightarrow> bytes \<Rightarrow> (string \<Rightarrow> string \<Rightarrow> bytes option) \<Rightarrow> plain_shard \<Rightarrow> string \<Rightarrow> bool" where
  "holds L dek N p loc \<longleftrightarrow> (\<exists>e. decoded_at (lb_msgpack L) N loc = Some e \<and> opened (lb_botan L) dek e = Some p)"

text \<open>Nothing at location \<open>loc\<close> opens to anything but a shard of the object.\<close>

definition unforged ::
    "('c, 'key) libs \<Rightarrow> bytes \<Rightarrow> (string \<Rightarrow> string \<Rightarrow> bytes option) \<Rightarrow> plain_shard list \<Rightarrow> string \<Rightarrow> bool" where
  "unforged L dek N plain loc \<longleftrightarrow> (\<forall>e. decoded_at (lb_msgpack L) N loc = Some e \<longrightarrow>
     opened (lb_botan L) dek e = None \<or> opened (lb_botan L) dek e \<in> Some ` set plain)"

text \<open>The locations of an object, shard by shard on \<open>nodes\<close>.\<close>

definition placed :: "string \<Rightarrow> string \<Rightarrow> string list \<Rightarrow> string list" where
  "placed oid ver nodes = map (\<lambda>i. location_of (nodes ! i) oid ver i) [0..<length nodes]"

definition nodes_plain :: "string list \<Rightarrow> bool" where
  "nodes_plain nodes \<longleftrightarrow> (\<forall>a\<in>set nodes. CHR ''/'' \<notin> set a)"

text \<open>
  The catalog's entry \<open>md\<close> describes \<open>data\<close>, whose shards are \<open>plain\<close>; its key is recoverable, its
  locations are well formed, and nothing forged is stored there.
\<close>

definition object_state ::
    "('c, 'key) libs \<Rightarrow> (string \<Rightarrow> string \<Rightarrow> bytes option) \<Rightarrow> 'key ring \<Rightarrow> object_metadata \<Rightarrow> string \<Rightarrow> string \<Rightarrow>
     string list \<Rightarrow> bytes \<Rightarrow> bytes \<Rightarrow> plain_shard list \<Rightarrow> bool" where
  "object_state L N ring md oid ver nodes data dek plain \<longleftrightarrow>
     encode (lb_isal L) data (md_erasure md) = Inr plain \<and> md_size md = word_of_nat (length data) \<and>
     md_checksum md = bytes_to_hex (checksum_sha256 (lb_botan L) data) \<and>
     recover_dek (lb_botan L) (lb_ord L) (md_encrypted_dek md) (md_kek_id md) ring = Inr dek \<and>
     key_parts_ok oid ver \<and> list_all plain_char oid \<and> list_all plain_char ver \<and> nodes_plain nodes \<and>
     length nodes = total_shards (md_erasure md) \<and> md_shard_locations md = placed oid ver nodes \<and>
     (\<forall>loc\<in>set (md_shard_locations md). unforged L dek N plain loc)"

section \<open>Locations\<close>

lemma length_placed [simp]: "length (placed oid ver nodes) = length nodes"
  by (simp add: placed_def)

lemma nth_placed [simp]: "i < length nodes \<Longrightarrow> placed oid ver nodes ! i = location_of (nodes ! i) oid ver i"
  by (simp add: placed_def)

lemma split_placed [simp]:
  "nodes_plain nodes \<Longrightarrow> i < length nodes \<Longrightarrow>
   split_location (location_of (nodes ! i) oid ver i) = Some (nodes ! i, shard_key_of oid ver i)"
  by (simp add: nodes_plain_def split_location_of)

lemma placed_update:
  "i < length nodes \<Longrightarrow> (placed oid ver nodes)[i := location_of a oid ver i] = placed oid ver (nodes[i := a])"
  by (intro nth_equalityI) (auto simp: nth_list_update)

lemma in_placed: "loc \<in> set (placed oid ver nodes) \<longleftrightarrow> (\<exists>i<length nodes. loc = location_of (nodes ! i) oid ver i)"
  by (auto simp: placed_def)

lemma placed_plain:
  assumes "list_all plain_char oid" and "list_all plain_char ver" and "nodes_plain nodes" and "loc \<in> set (placed oid ver nodes)"
  shows "location_plain loc \<and> split_location loc \<noteq> None"
  using assms(3,4) plain_key [OF assms(1,2)] by (auto simp: in_placed location_plain_def)

section \<open>Fetching what is listed\<close>

context shard_service
begin

lemma fetch_listed:
  assumes "order_ok ord" and ok: "ok c" and plain: "\<forall>loc\<in>set locs. location_plain loc"
    and m: "parse_shard_locations locs = Inr m"
    and f: "fetch_encrypted_shards send M ord c m = (ss, c')"
  shows "ok c' \<and> shards c' = shards c \<and> (\<forall>a. up c a \<longrightarrow> up c' a) \<and>
    (\<forall>e\<in>set ss. \<exists>loc\<in>set locs. decoded_at M (shards c) loc = Some e) \<and>
    (\<forall>loc\<in>set locs. \<forall>e. askable (up c) loc \<and> decoded_at M (shards c) loc = Some e \<longrightarrow> e \<in> set ss)"
proof -
  note pm = parse_locations_Inr [OF m]
  have d: "distinct (map fst m)" using pm by blast
  have pp: "set (pushed m a) = {l. \<exists>loc\<in>set locs. split_location loc = Some (a, l)}" for a using pm by blast
  have ent: "set ls = {l. \<exists>loc\<in>set locs. split_location loc = Some (a, l)}" if "(a, ls) \<in> set m" for a ls
    using entries_pushed [OF d that] pp by simp
  have pl: "\<forall>(a, ls)\<in>set m. \<forall>l\<in>set ls. plain_location l"
  proof clarify
    fix a ls l assume "(a, ls) \<in> set m" "l \<in> set ls"
    then show "plain_location l" using ent plain by (force simp: location_plain_def)
  qed
  note sp = fetch_encrypted_shards_spec [OF assms(1) d ok pl f]
  have it: "set (um_iter ord m) = set m" using um_iter_set [OF assms(1) d] by simp
  have snd: "\<exists>loc\<in>set locs. decoded_at M (shards c) loc = Some e" if e: "e \<in> set ss" for e
  proof -
    have "e \<in> set (decoded_map M (shards c) (um_iter ord m))" using sp subseq_set e by blast
    then obtain a ls l where a: "(a, ls) \<in> set m" "l \<in> set ls" "decoded M (shards c a) l = Some e"
      using it by (auto simp: decoded_map_def set_decoded_list)
    then obtain loc where "loc \<in> set locs" "split_location loc = Some (a, l)" using ent by blast
    with a(3) show ?thesis by (intro bexI [of _ loc]) (simp_all add: decoded_at_def)
  qed
  have cpl: "e \<in> set ss" if e: "loc \<in> set locs" "askable (up c) loc" "decoded_at M (shards c) loc = Some e" for loc e
  proof -
    obtain a l where al: "split_location loc = Some (a, l)" "decoded M (shards c a) l = Some e"
      using e(3) by (auto simp: decoded_at_def split: option.splits)
    have "l \<in> set (pushed m a)" using pp al(1) e(1) by blast
    then obtain ls where ls: "(a, ls) \<in> set m" "l \<in> set ls"
      by (cases "map_of m a") (auto simp: pushed_def dest: map_of_SomeD)
    then have "e \<in> set (decoded_list M (shards c a) ls)" using al(2) by (auto simp: set_decoded_list)
    then show ?thesis using sp ls(1) e(2) al(1) by (fastforce simp: askable_def)
  qed
  show ?thesis using sp snd cpl by blast
qed

text \<open>
  Reading an object in any state: enough of its shards on reachable nodes, nothing forged.\<close>

lemma get_of_state:
  assumes lib: "lb_send L = send" "isal_ok (lb_isal L)" "order_ok (lb_ord L)" and ok: "ok (sc_cluster s)"
    and md: "MetadataStore_get (lb_pg L) (lb_msgpack L) (sc_catalog s) oid' = Inr (Some md)" "oid' \<noteq> []"
    and st: "object_state L (shards (sc_cluster s)) (sc_ring s) md oid ver nodes data dek plain"
    and up: "\<And>i. i \<in> Up \<Longrightarrow> i < length nodes \<and> up (sc_cluster s) (nodes ! i) \<and> is_ok (get_node_client (nodes ! i)) \<and>
      holds L dek (shards (sc_cluster s)) (plain ! i) (md_shard_locations md ! i)"
    and enough: "unat (data_shards (md_erasure md)) \<le> card Up"
    and inv: "isal_invertible (lb_isal L) (length nodes) (unat (data_shards (md_erasure md))) \<or>
      {..<unat (data_shards (md_erasure md))} \<subseteq> Up"
  shows "\<exists>s'. StorageClient_get L timing s oid' = (Inr data, s') \<and> sc_catalog s' = sc_catalog s \<and>
    shards (sc_cluster s') = shards (sc_cluster s)"
proof -
  let ?locs = "md_shard_locations md" and ?c = "sc_cluster s"
  note o = st [unfolded object_state_def]
  have pl: "\<forall>loc\<in>set ?locs. location_plain loc" "\<forall>loc\<in>set ?locs. split_location loc \<noteq> None"
    using o placed_plain by metis+
  obtain m where m: "parse_shard_locations ?locs = Inr m"
    using parse_locations_loop_pushed [OF pl(2), of "[]"] by (auto simp: parse_shard_locations_def)
  obtain ss c' where f: "fetch_encrypted_shards send (lb_msgpack L) (lb_ord L) ?c m = (ss, c')" by fastforce
  note fp = fetch_listed [OF lib(3) ok pl(1) m f]
  have "get_decode L (sc_ring s) md ss = Inr data"
  proof (rule get_decode_ok [OF lib(2) _ refl _ _ _ _ _ enough])
    show "opened (lb_botan L) dek e = None \<or> opened (lb_botan L) dek e \<in> Some ` set plain" if "e \<in> set ss" for e
      using fp that o unfolding unforged_def by blast
    show "i < total_shards (md_erasure md) \<and> (\<exists>e\<in>set ss. opened (lb_botan L) dek e = Some (plain ! i))" if "i \<in> Up" for i
    proof -
      note u = up [OF that]
      have i: "i < length ?locs" using u o by simp
      have "askable (up ?c) (?locs ! i)" using u o by (simp add: askable_def)
      moreover obtain e where "decoded_at (lb_msgpack L) (shards ?c) (?locs ! i) = Some e" "opened (lb_botan L) dek e = Some (plain ! i)"
        using u by (auto simp: holds_def)
      ultimately show ?thesis using fp nth_mem [OF i] u o by metis
    qed
  qed (use o inv in simp_all)
  then have "StorageClient_get L timing s oid' = (Inr data, s\<lparr>sc_cluster := c',
      sc_metrics := get_metrics L timing md (sc_metrics s)\<rparr>)"
    using m f by (simp add: StorageClient_get_def lib(1) md)
  then show ?thesis using fp by simp
qed

end

end
