(* ===== verification/Repair.thy ===== *)
theory Repair
  imports Storage_Client
begin

text \<open>
  \<^verbatim>\<open>StorageClient::repair\<close>: probe the shards of an object, reconstruct the missing ones from the
  survivors, write them to healthy nodes and commit the new locations under the version that was
  read. Other clients may change the catalog between its three accesses: \<open>repair_between\<close> takes the
  catalog as the second (\<open>list_nodes\<close>) and the third (\<open>conditional_put\<close>) access find it.
\<close>

section \<open>Probing\<close>

fun probe_loop ::
    "'c send \<Rightarrow> 'c \<Rightarrow> nat \<Rightarrow> string list \<Rightarrow> 32 word list \<Rightarrow> 32 word list \<Rightarrow> (32 word list \<times> 32 word list) \<times> 'c" where
  "probe_loop send c i [] missing surviving = ((missing, surviving), c)"
| "probe_loop send c i (shard_location # rest) missing surviving =
     (case split_location shard_location of
        None \<Rightarrow> probe_loop send c (Suc i) rest (missing @ [word_of_nat i]) surviving
      | Some (node_address, location) \<Rightarrow>
          (case probe_shard send c node_address location of
             (True, c') \<Rightarrow> probe_loop send c' (Suc i) rest missing (surviving @ [word_of_nat i])
           | (False, c') \<Rightarrow> probe_loop send c' (Suc i) rest (missing @ [word_of_nat i]) surviving))"

text \<open>\<open>find\<close> with no slash gives \<open>npos\<close>: both substrings are then the whole string.\<close>

definition cut_location :: "string \<Rightarrow> string \<times> string" where
  "cut_location shard_location = (case split_location shard_location of Some x \<Rightarrow> x | None \<Rightarrow> (shard_location, shard_location))"

definition surviving_location_map :: "string list \<Rightarrow> 32 word list \<Rightarrow> shard_location_map" where
  "surviving_location_map locations surviving =
     fold (\<lambda>idx m. case cut_location (locations ! unat idx) of (node_address, location) \<Rightarrow> um_push m node_address location)
       surviving []"

section \<open>Reconstruction\<close>

definition repair_reconstruct ::
    "('c, 'key) libs \<Rightarrow> (nat \<Rightarrow> bytes) \<Rightarrow> bytes \<Rightarrow> object_metadata \<Rightarrow> 32 word list \<Rightarrow> encrypted_shard list \<Rightarrow>
     encrypted_shard list res" where
  "repair_reconstruct L nonces dek md missing encrypted_shards =
     (if length encrypted_shards < unat (data_shards (md_erasure md)) then
        Inl (RuntimeError ''StorageClient::repair: failed to fetch enough surviving shards'')
      else bind_res (decrypt_shards (lb_botan L) encrypted_shards dek True) (\<lambda>plain_shards.
        if length plain_shards < unat (data_shards (md_erasure md)) then
          Inl (RuntimeError ''StorageClient::repair: not enough valid decrypted shards'')
        else bind_res (decode (lb_isal L) plain_shards (md_erasure md) (unat (md_size md))) (\<lambda>decoded.
          if bytes_to_hex (checksum_sha256 (lb_botan L) decoded) \<noteq> md_checksum md then
            Inl (RuntimeError ''StorageClient::repair: checksum mismatch after reconstruction'')
          else bind_res (encode (lb_isal L) decoded (md_erasure md)) (\<lambda>all_plain_shards.
            encrypt_shards (lb_botan L) nonces 0
              (List.map_filter (\<lambda>idx. find (\<lambda>shard. ps_index shard = idx) all_plain_shards) missing) dek))))"

section \<open>Choosing the targets\<close>

fun healthy_nodes :: "'c send \<Rightarrow> 'c \<Rightarrow> string list \<Rightarrow> string list \<times> 'c" where
  "healthy_nodes send c [] = ([], c)"
| "healthy_nodes send c (node # rest) =
     (case is_node_healthy send c node of
        (h, c1) \<Rightarrow> (case healthy_nodes send c1 rest of (hs, c2) \<Rightarrow> (if h then node # hs else hs, c2)))"

text \<open>Placement is only computable when at least \<open>k + m\<close> nodes are registered.\<close>

definition repair_intended :: "string \<Rightarrow> string list \<Rightarrow> nat \<Rightarrow> string list res" where
  "repair_intended object_id eligible_nodes n =
     (if n \<le> length eligible_nodes then hrw_intended_nodes object_id eligible_nodes n else Inr [])"

definition used_nodes :: "string list \<Rightarrow> 32 word list \<Rightarrow> string list" where
  "used_nodes locations surviving =
     List.map_filter (\<lambda>idx. map_option fst (split_location (locations ! unat idx))) surviving"

definition fallback_pool :: "string list \<Rightarrow> string list \<Rightarrow> string list" where
  "fallback_pool healthy used = filter (\<lambda>n. n \<notin> set used) healthy @ filter (\<lambda>n. n \<in> set used) healthy"

text \<open>
  One target per missing shard. The pool is what \<open>pool_cursor\<close> has not passed yet. \<open>intended[idx]\<close>
  past the end is undefined.
\<close>

fun repair_targets ::
    "string list \<Rightarrow> string list \<Rightarrow> string list \<Rightarrow> string list \<Rightarrow> 32 word list \<Rightarrow> string list res" where
  "repair_targets intended healthy pool consumed [] = Inr []"
| "repair_targets intended healthy pool consumed (idx # rest) =
     (if intended \<noteq> [] \<and> length intended \<le> unat idx then Inl UndefinedBehaviour
      else
        let want = (if intended \<noteq> [] \<and> intended ! unat idx \<in> set healthy \<and> intended ! unat idx \<notin> set consumed
                    then intended ! unat idx else []);
            pool' = (if want \<noteq> [] then pool else dropWhile (\<lambda>n. n \<in> set consumed) pool);
            target = (if want \<noteq> [] then want else case pool' of [] \<Rightarrow> [] | n # _ \<Rightarrow> n)
        in if target = [] then
             Inl (RuntimeError ''StorageClient::repair: not enough healthy eligible nodes for repaired shards'')
           else bind_res (repair_targets intended healthy (if want \<noteq> [] then pool' else tl pool') (target # consumed) rest)
                  (\<lambda>targets. Inr (target # targets)))"

section \<open>The new shards and their locations\<close>

fun parsed_version :: "string list \<Rightarrow> string" where
  "parsed_version [] = []"
| "parsed_version (loc # rest) =
     (case split_location loc of
        None \<Rightarrow> parsed_version rest
      | Some (_, key) \<Rightarrow> (case parse_shard_key key of Inl _ \<Rightarrow> parsed_version rest | Inr parsed \<Rightarrow> pk_version parsed))"

definition repair_version :: "string list \<Rightarrow> bytes \<Rightarrow> string" where
  "repair_version locations draw =
     (let version = parsed_version locations in if version = [] then generateVersion draw else version)"

definition repaired_manifest :: "string \<Rightarrow> string \<Rightarrow> object_metadata \<Rightarrow> 64 word \<Rightarrow> shard_manifest" where
  "repaired_manifest object_id version md now =
     \<lparr>sm_object_id = object_id, sm_version = version, sm_size = md_size md, sm_checksum = md_checksum md,
      sm_erasure = md_erasure md, sm_encrypted_dek = md_encrypted_dek md, sm_kek_id = md_kek_id md, sm_written_at = now\<rparr>"

text \<open>\<open>serialized_repaired[i]\<close> past the end is undefined.\<close>

fun repair_placement ::
    "string \<Rightarrow> string \<Rightarrow> (32 word \<times> string) list \<Rightarrow> bytes list \<Rightarrow> placement_map \<Rightarrow> placement_map res" where
  "repair_placement object_id version [] serialized m = Inr m"
| "repair_placement object_id version ((idx, node_address) # rest) serialized m =
     bind_res (make_shard_key object_id version idx) (\<lambda>location.
       case serialized of
         [] \<Rightarrow> Inl UndefinedBehaviour
       | payload # serialized' \<Rightarrow>
           repair_placement object_id version rest serialized' (um_push m node_address (location, payload)))"

fun repair_locations :: "string \<Rightarrow> string \<Rightarrow> (32 word \<times> string) list \<Rightarrow> string list \<Rightarrow> string list res" where
  "repair_locations object_id version [] locations = Inr locations"
| "repair_locations object_id version ((idx, node_address) # rest) locations =
     bind_res (make_shard_key object_id version idx) (\<lambda>location.
       repair_locations object_id version rest (locations[unat idx := node_address @ ''/'' @ location]))"

record repair_draws =
  rd_nonces :: "nat \<Rightarrow> bytes"
  rd_version :: bytes
  rd_now :: "64 word"

definition repair_plan ::
    "('c, 'key) libs \<Rightarrow> repair_draws \<Rightarrow> string \<Rightarrow> object_metadata \<Rightarrow> 32 word list \<Rightarrow> 32 word list \<Rightarrow>
     string list \<Rightarrow> string list \<Rightarrow> encrypted_shard list \<Rightarrow> (placement_map \<times> string list) res" where
  "repair_plan L rnd object_id md missing surviving eligible healthy repaired =
     bind_res (repair_intended object_id eligible (total_shards (md_erasure md))) (\<lambda>intended.
     bind_res (repair_targets intended healthy
         (fallback_pool healthy (used_nodes (md_shard_locations md) surviving)) [] missing) (\<lambda>targets.
     let version = repair_version (md_shard_locations md) (rd_version rnd);
         manifest = repaired_manifest object_id version md (rd_now rnd);
         serialized = map (\<lambda>e. StoredShard_serialize (lb_msgpack L) \<lparr>ss_manifest = manifest, ss_shard = e\<rparr>) repaired
     in bind_res (repair_placement object_id version (zip missing targets) serialized []) (\<lambda>placement.
        bind_res (repair_locations object_id version (zip missing targets) (md_shard_locations md)) (\<lambda>updated.
          Inr (placement, updated)))))"

section \<open>repair\<close>

text \<open>
  What happens inside the \<open>try\<close>. The result says what is returned and whether it is recorded; the
  number is \<open>failed_count\<close>.
\<close>

definition repair_body ::
    "('c, 'key) libs \<Rightarrow> repair_draws \<Rightarrow> 'c \<Rightarrow> 'key ring \<Rightarrow> tables \<Rightarrow> tables \<Rightarrow> string \<Rightarrow> object_metadata \<Rightarrow>
     (bool \<times> bool) res \<times> nat \<times> 'c \<times> tables" where
  "repair_body L rnd c ring nodes_t t object_id md =
     (case probe_loop (lb_send L) c 0 (md_shard_locations md) [] [] of
        ((missing, surviving), c1) \<Rightarrow>
      let failed = length missing in
      if missing = [] then (Inr (True, False), failed, c1, t)
      else if length surviving < unat (data_shards (md_erasure md)) then
        (Inl (RuntimeError ''StorageClient::repair: not enough surviving shards to reconstruct''), failed, c1, t)
      else case recover_dek (lb_botan L) (lb_ord L) (md_encrypted_dek md) (md_kek_id md) ring of
        Inl e \<Rightarrow> (Inl e, failed, c1, t)
      | Inr dek \<Rightarrow>
      (case fetch_encrypted_shards (lb_send L) (lb_msgpack L) (lb_ord L) c1
              (surviving_location_map (md_shard_locations md) surviving) of
        (encrypted_shards, c2) \<Rightarrow>
      case bind_res (repair_reconstruct L (rd_nonces rnd) dek md missing encrypted_shards) (\<lambda>repaired.
           bind_res (list_nodes (lb_pg L) nodes_t) (\<lambda>eligible. Inr (repaired, eligible))) of
        Inl e \<Rightarrow> (Inl e, failed, c2, t)
      | Inr (repaired, eligible) \<Rightarrow>
      (case healthy_nodes (lb_send L) c2 eligible of
        (healthy, c3) \<Rightarrow>
      case repair_plan L rnd object_id md missing surviving eligible healthy repaired of
        Inl e \<Rightarrow> (Inl e, failed, c3, t)
      | Inr (placement, updated) \<Rightarrow>
      (case apply_placement (lb_send L) (lb_ord L) c3 placement of
        (Inl e, c4) \<Rightarrow> (Inl e, failed, c4, t)
      | (Inr _, c4) \<Rightarrow>
      (case conditional_put (lb_pg L) (lb_msgpack L) t (md\<lparr>md_shard_locations := updated\<rparr>) (md_version md) of
        (Inl e, t') \<Rightarrow> (Inl e, failed, c4, t')
      | (Inr committed, t') \<Rightarrow> (Inr (committed, committed), failed, c4, t'))))))"

definition repair_metrics ::
    "('c, 'key) libs \<Rightarrow> phase_timing \<Rightarrow> object_metadata \<Rightarrow> nat \<Rightarrow> bool \<Rightarrow> operation_record list \<Rightarrow> operation_record list" where
  "repair_metrics L timing md failed success records =
     (if \<not> lb_collector L then records
      else MetricsCollector_record records
        \<lparr>op_operation = ''REPAIR'',
         op_params = \<lparr>bp_k = data_shards (md_erasure md), bp_m = parity_shards (md_erasure md),
           bp_shard_size = shard_size (md_erasure md), bp_object_size = md_size md,
           bp_failed_nodes = word_of_nat failed, bp_total_nodes = word_of_nat (length (md_shard_locations md))\<rparr>,
         op_timing = timing, op_success = success, op_storage_overhead = 0\<rparr>)"

definition repair_between ::
    "('c, 'key) libs \<Rightarrow> repair_draws \<Rightarrow> phase_timing \<Rightarrow> ('c, 'key) client \<Rightarrow> tables \<Rightarrow> tables \<Rightarrow> string \<Rightarrow>
     bool res \<times> ('c, 'key) client" where
  "repair_between L rnd timing s nodes_t t object_id =
     (if object_id = [] then (Inl (InvalidArgument ''StorageClient::repair: object_id cannot be empty''), s)
      else case MetadataStore_get (lb_pg L) (lb_msgpack L) (sc_catalog s) object_id of
          Inl e \<Rightarrow> (Inl e, s)
        | Inr None \<Rightarrow> (Inl (RuntimeError (''StorageClient::repair: object not found: '' @ object_id)), s)
        | Inr (Some md) \<Rightarrow>
            (case repair_body L rnd (sc_cluster s) (sc_ring s) nodes_t t object_id md of
               (Inl e, failed, c, t') \<Rightarrow> (Inl e, s\<lparr>sc_cluster := c, sc_catalog := t',
                  sc_metrics := repair_metrics L timing md failed False (sc_metrics s)\<rparr>)
             | (Inr (result, recorded), failed, c, t') \<Rightarrow> (Inr result, s\<lparr>sc_cluster := c, sc_catalog := t',
                  sc_metrics := (if recorded then repair_metrics L timing md failed True (sc_metrics s) else sc_metrics s)\<rparr>)))"

definition StorageClient_repair ::
    "('c, 'key) libs \<Rightarrow> repair_draws \<Rightarrow> phase_timing \<Rightarrow> ('c, 'key) client \<Rightarrow> string \<Rightarrow> bool res \<times> ('c, 'key) client" where
  "StorageClient_repair L rnd timing s object_id = repair_between L rnd timing s (sc_catalog s) (sc_catalog s) object_id"

end
