(* ===== verification/Repair_Lemmas.thy ===== *)
theory Repair_Lemmas
  imports Object_State Repair
begin

text \<open>
  What each step of \<open>repair\<close> contributes, ending in what a run of it does to the object, to the
  nodes and to the catalog.
\<close>

section \<open>Probing\<close>

definition indices_where :: "bool list \<Rightarrow> nat list" where
  "indices_where bs = filter (\<lambda>i. bs ! i) [0..<length bs]"

lemma in_indices_where [simp]: "i \<in> set (indices_where bs) \<longleftrightarrow> i < length bs \<and> bs ! i"
  by (auto simp: indices_where_def)

lemma distinct_indices_where [simp]: "distinct (indices_where bs)"
  by (simp add: indices_where_def)

lemma missing_of_where: "missing_of 0 bs = map word_of_nat (indices_where (map Not bs))"
proof -
  have "filter (\<lambda>i. \<not> bs ! i) [0..<length bs] = indices_where (map Not bs)"
    unfolding indices_where_def by (intro filter_cong) auto
  then show ?thesis by (simp add: missing_of_indices)
qed

context shard_service
begin

lemma probe_loop_spec:
  "ok c \<Longrightarrow> \<forall>loc\<in>set locs. location_plain loc \<Longrightarrow> probe_loop send c i locs ms sv = ((ms', sv'), c') \<Longrightarrow>
   shards c' = shards c \<and> ok c' \<and> (\<exists>bs. length bs = length locs \<and> ms' = ms @ missing_of i bs \<and>
     sv' = sv @ missing_of i (map Not bs) \<and> list_all2 (\<lambda>b loc. b \<longrightarrow> stored_at (shards c) loc) bs locs)"
proof (induction locs arbitrary: c i ms sv)
  case (Cons loc locs)
  have pl: "\<forall>loc\<in>set locs. location_plain loc" using Cons.prems(2) by simp
  show ?case
  proof (cases "split_location loc")
    case None
    have "probe_loop send c (Suc i) locs (ms @ [word_of_nat i]) sv = ((ms', sv'), c')"
      using Cons.prems(3) None by simp
    from Cons.IH [OF Cons.prems(1) pl this] obtain bs where "shards c' = shards c" "ok c'" "length bs = length locs"
      "ms' = (ms @ [word_of_nat i]) @ missing_of (Suc i) bs" "sv' = sv @ missing_of (Suc i) (map Not bs)"
      "list_all2 (\<lambda>b loc. b \<longrightarrow> stored_at (shards c) loc) bs locs" by blast
    then show ?thesis by (intro conjI exI [of _ "False # bs"]) simp_all
  next
    case (Some x)
    obtain a l where x: "x = (a, l)" by (cases x)
    obtain b c1 where p: "probe_shard send c a l = (b, c1)" by fastforce
    have "plain_location l" using Cons.prems(2) Some x by (simp add: location_plain_def)
    note ps = probe_shard_spec [OF Cons.prems(1) this p]
    have h: "probe_loop send c1 (Suc i) locs (if b then ms else ms @ [word_of_nat i]) (if b then sv @ [word_of_nat i] else sv)
        = ((ms', sv'), c')"
      using Cons.prems(3) Some x p by (cases b) auto
    from Cons.IH [OF conjunct1 [OF ps] pl h] obtain bs where B: "shards c' = shards c1" "ok c'" "length bs = length locs"
      "ms' = (if b then ms else ms @ [word_of_nat i]) @ missing_of (Suc i) bs"
      "sv' = (if b then sv @ [word_of_nat i] else sv) @ missing_of (Suc i) (map Not bs)"
      "list_all2 (\<lambda>b loc. b \<longrightarrow> stored_at (shards c1) loc) bs locs" by blast
    have "b \<longrightarrow> stored_at (shards c) loc" using ps Some x by (auto simp: stored_at_def)
    then show ?thesis using B ps by (intro conjI exI [of _ "b # bs"]) simp_all
  qed
qed auto

lemma healthy_nodes_spec:
  "ok c \<Longrightarrow> healthy_nodes send c ns = (hs, c') \<Longrightarrow> ok c' \<and> shards c' = shards c \<and> subseq hs ns"
proof (induction ns arbitrary: c hs)
  case (Cons n ns)
  obtain h c1 where i: "is_node_healthy send c n = (h, c1)" by fastforce
  obtain hs1 where r: "healthy_nodes send c1 ns = (hs1, c')" "hs = (if h then n # hs1 else hs1)"
    using Cons.prems(2) i by (auto split: prod.splits)
  have "ok c1 \<and> shards c1 = shards c"
    using i Cons.prems(1) send_ok get_same by (auto simp: is_node_healthy_def split: sum.splits prod.splits) (metis snd_conv)+
  then show ?case using Cons.IH [OF _ r(1)] r(2) by auto
qed auto

end

lemma surviving_map_parses:
  assumes "\<forall>i\<in>set js. split_location (locs ! unat i) \<noteq> None"
  shows "parse_shard_locations (map (\<lambda>i. locs ! unat i) js) = Inr (surviving_location_map locs js)"
proof -
  have "parse_locations_loop (map (\<lambda>i. locs ! unat i) js) m =
      Inr (fold (\<lambda>idx m. case cut_location (locs ! unat idx) of (a, l) \<Rightarrow> um_push m a l) js m)" for m
    using assms by (induction js arbitrary: m) (auto simp: cut_location_def)
  then show ?thesis by (simp add: parse_shard_locations_def surviving_location_map_def)
qed

section \<open>Reconstruction\<close>

lemma find_index:
  assumes "map ps_index plain = map word_of_nat [0..<n]" and "n \<le> 255" and "i < n"
  shows "find (\<lambda>s. ps_index s = word_of_nat i) plain = Some (plain ! i)"
proof -
  have l: "length plain = n" using arg_cong [OF assms(1), of length] by simp
  have idx: "ps_index (plain ! j) = word_of_nat j" if "j < n" for j
    using arg_cong [OF assms(1), of "\<lambda>xs. xs ! j"] that l by simp
  have "ps_index (plain ! j) \<noteq> word_of_nat i" if "j < i" for j
    using that assms(2,3) idx word_of_nat_inj_small [of j i] by auto
  then show ?thesis using idx l assms(3) by (auto simp: find_Some_iff)
qed

lemma reconstruct_missing:
  assumes lib: "isal_ok (lb_isal L)" "gcm_ok (lb_botan L)"
    and enc: "encode (lb_isal L) data (md_erasure md) = Inr plain" and size: "md_size md = word_of_nat (length data)"
    and sound: "\<And>e. e \<in> set ss \<Longrightarrow> opened (lb_botan L) dek e = None \<or> opened (lb_botan L) dek e \<in> Some ` set plain"
    and js: "\<forall>i\<in>set js. i < total_shards (md_erasure md)"
    and r: "repair_reconstruct L nonces dek md (map word_of_nat js) ss = Inr repaired"
  shows "map (opened (lb_botan L) dek) repaired = map (\<lambda>i. Some (plain ! i)) js"
proof -
  let ?surv = "List.map_filter (opened (lb_botan L) dek) ss"
  note sh = encode_shape_shards [OF lib(1) enc]
  have "length data \<le> unat (data_shards (md_erasure md)) * unat (shard_size (md_erasure md))" using sh(2) by simp
  also have "\<dots> \<le> 255 * 2147483647" using sh(1) by (intro mult_mono) (auto simp: spec_ok_def total_shards_def)
  finally have sz: "unat (md_size md) = length data"
    by (simp add: size unsigned_of_nat take_bit_nat_eq_self)
  obtain d all where d: "decode (lb_isal L) ?surv (md_erasure md) (length data) = Inr d"
    "encode (lb_isal L) d (md_erasure md) = Inr all"
    "encrypt_shards (lb_botan L) nonces 0
       (List.map_filter (\<lambda>idx. find (\<lambda>shard. ps_index shard = idx) all) (map word_of_nat js)) dek = Inr repaired"
    using r by (auto simp: repair_reconstruct_def decrypt_best_effort sz split: if_splits)
  have "set ?surv \<subseteq> set plain" using sound by (force simp: set_map_filter)
  then have all: "all = plain" using decode_sound [OF lib(1) enc _ d(1)] d(2) enc by simp
  have n: "total_shards (md_erasure md) \<le> 255" using sh(1) by (auto simp: spec_ok_def total_shards_def)
  have ix: "map ps_index plain = map word_of_nat [0..<total_shards (md_erasure md)]" by (subst sh(3)) simp
  have "List.map_filter (\<lambda>idx. find (\<lambda>shard. ps_index shard = idx) plain) (map word_of_nat js) = map (\<lambda>i. plain ! i) js"
    using js by (induction js) (auto simp: List.map_filter_simps find_index [OF ix n])
  then show ?thesis using opened_encrypted [OF lib(2) d(3)] by (simp add: all)
qed

section \<open>Targets, new shards, new locations\<close>

lemma repair_targets_spec:
  assumes "repair_targets intended healthy pool consumed idxs = Inr ts" and "set pool \<subseteq> set healthy"
  shows "length ts = length idxs \<and> set ts \<subseteq> set healthy \<and> distinct ts \<and> set ts \<inter> set consumed = {}"
  using assms
proof (induction intended healthy pool consumed idxs arbitrary: ts rule: repair_targets.induct)
  case (2 intended healthy pool consumed idx rest)
  define want where "want = (if intended \<noteq> [] \<and> intended ! unat idx \<in> set healthy \<and> intended ! unat idx \<notin> set consumed
                    then intended ! unat idx else [])"
  define pool' where "pool' = (if want \<noteq> [] then pool else dropWhile (\<lambda>n. n \<in> set consumed) pool)"
  define target where "target = (if want \<noteq> [] then want else case pool' of [] \<Rightarrow> [] | n # _ \<Rightarrow> n)"
  have ub: "\<not> (intended \<noteq> [] \<and> length intended \<le> unat idx)" using 2(2) by auto
  have eq: "repair_targets intended healthy pool consumed (idx # rest) =
    (if target = [] then Inl (RuntimeError ''StorageClient::repair: not enough healthy eligible nodes for repaired shards'')
     else bind_res (repair_targets intended healthy (if want \<noteq> [] then pool' else tl pool') (target # consumed) rest)
                  (\<lambda>targets. Inr (target # targets)))"
    unfolding repair_targets.simps(2) if_not_P [OF ub] Let_def want_def pool'_def target_def ..
  then obtain ts' where ts: "target \<noteq> []" "ts = target # ts'"
    "repair_targets intended healthy (if want \<noteq> [] then pool' else tl pool') (target # consumed) rest = Inr ts'"
    using 2(2) by (auto split: if_splits)
  have sub: "set pool' \<subseteq> set healthy" using 2(3) set_dropWhileD by (fastforce simp: pool'_def split: if_splits)
  then have sub': "set (if want \<noteq> [] then pool' else tl pool') \<subseteq> set healthy"
    by (cases pool') auto
  have t: "target \<in> set healthy" "target \<notin> set consumed"
  proof -
    have "target \<in> set healthy \<and> target \<notin> set consumed"
    proof (cases "want = []")
      case True
      then obtain n ns where p: "pool' = n # ns" "target = n" using ts(1) by (cases pool') (auto simp: target_def)
      then have "n \<notin> set consumed" using hd_dropWhile [of "\<lambda>n. n \<in> set consumed" pool] True by (simp add: pool'_def)
      then show ?thesis using p sub by auto
    qed (auto simp: target_def want_def split: if_splits)
    then show "target \<in> set healthy" "target \<notin> set consumed" by auto
  qed
  have "length ts' = length rest \<and> set ts' \<subseteq> set healthy \<and> distinct ts' \<and> set ts' \<inter> set (target # consumed) = {}"
    by (rule 2(1) [OF ub want_def pool'_def target_def ts(1,3) sub'])
  then show ?case using ts(2) t by auto
qed auto

lemma parsed_version_placed:
  assumes "key_parts_ok oid ver" and "nodes_plain nodes" and "nodes \<noteq> []"
  shows "parsed_version (placed oid ver nodes) = ver"
proof -
  have "placed oid ver nodes = location_of (nodes ! 0) oid ver 0 # tl (placed oid ver nodes)"
    using assms(3) by (cases nodes) (auto simp: placed_def upt_conv_Cons simp del: upt_Suc)
  moreover have "split_location (location_of (nodes ! 0) oid ver 0) = Some (nodes ! 0, shard_key_of oid ver 0)"
    using assms by simp
  moreover have "\<exists>r. parse_shard_key (shard_key_of oid ver 0) = Inr r \<and> pk_version r = ver"
    using parse_key_of [OF assms(1), of 0] by auto
  ultimately show ?thesis by (metis (no_types, lifting) option.simps(5) old.prod.case old.sum.simps(6) parsed_version.simps(2))
qed

definition moved :: "nat list \<Rightarrow> string list \<Rightarrow> string list \<Rightarrow> string list" where
  "moved js ts nodes = fold (\<lambda>(j, a) ns. ns[j := a]) (zip js ts) nodes"

lemma length_moved [simp]: "length (moved js ts nodes) = length nodes"
proof -
  have "length (fold (\<lambda>(j, a) ns. ns[j := a]) xs nodes) = length nodes" for xs :: "(nat \<times> string) list"
    by (induction xs arbitrary: nodes) auto
  then show ?thesis by (simp add: moved_def)
qed

lemma moved_Cons [simp]: "moved (j # js) (a # ts) nodes = moved js ts (nodes[j := a])" "moved [] ts nodes = nodes"
  by (simp_all add: moved_def)

lemma moved_other: "length ts = length js \<Longrightarrow> i \<notin> set js \<Longrightarrow> moved js ts nodes ! i = nodes ! i"
  by (induction js ts arbitrary: nodes rule: list_induct2') auto

lemma moved_nth:
  "length ts = length js \<Longrightarrow> distinct js \<Longrightarrow> \<forall>j\<in>set js. j < length nodes \<Longrightarrow> q < length js \<Longrightarrow>
   moved js ts nodes ! (js ! q) = ts ! q"
proof (induction js ts arbitrary: nodes q rule: list_induct2')
  case (4 j js a ts)
  then show ?case by (cases q) (auto simp: moved_other)
qed auto

lemma set_moved: "set (moved js ts nodes) \<subseteq> set nodes \<union> set ts"
proof (induction js ts arbitrary: nodes rule: list_induct2')
  case (4 j js a ts)
  show ?case using 4 [of "nodes[j := a]"] set_update_subset_insert [of nodes j a] by auto
qed (auto simp: moved_def)

lemma repair_locations_placed:
  assumes "key_parts_ok oid ver" and "length ts = length js" and "\<forall>j\<in>set js. j < length nodes" and "length nodes \<le> 4294967296"
  shows "repair_locations oid ver (zip (map word_of_nat js) ts) (placed oid ver nodes) = Inr (placed oid ver (moved js ts nodes))"
  using assms(2-4)
proof (induction js ts arbitrary: nodes rule: list_induct2')
  case (4 j js a ts)
  have "make_shard_key oid ver (word_of_nat j) = Inr (shard_key_of oid ver j)"
    using 4 by (intro make_key_ok [OF assms(1)]) auto
  moreover have "unat (word_of_nat j :: 32 word) = j" using 4 by (simp add: unsigned_of_nat take_bit_nat_eq_self)
  moreover have "(placed oid ver nodes)[j := a @ ''/'' @ shard_key_of oid ver j] = placed oid ver (nodes[j := a])"
    using 4 placed_update [of j nodes oid ver a] by (simp add: location_of_def)
  ultimately show ?case using 4 by simp
qed auto

lemma Collect_less_Suc:
  "{f q |q. q < Suc n \<and> P q} = (if P 0 then {f 0} else {}) \<union> {f (Suc q) |q. q < n \<and> P (Suc q)}"
  by (auto simp: less_Suc_eq_0_disj)

lemma repair_placement_spec:
  assumes "key_parts_ok oid ver" and "length ts = length js" and "\<forall>j\<in>set js. j < 4294967296"
    and "repair_placement oid ver (zip (map word_of_nat js) ts) ser m = Inr pl" and "distinct (map fst m)"
  shows "distinct (map fst pl) \<and> length js \<le> length ser \<and>
    (\<forall>a. set (pushed pl a) = set (pushed m a) \<union> {(shard_key_of oid ver (js ! q), ser ! q) |q. q < length js \<and> ts ! q = a})"
  using assms(2-5)
proof (induction js ts arbitrary: ser m rule: list_induct2')
  case (4 j js a ts)
  have k: "make_shard_key oid ver (word_of_nat j) = Inr (shard_key_of oid ver j)"
    using 4 by (intro make_key_ok [OF assms(1)]) auto
  obtain b ser' where s: "ser = b # ser'" using 4(4) k by (cases ser) auto
  let ?m = "um_push m a (shard_key_of oid ver j, b)"
  have i: "distinct (map fst pl) \<and> length js \<le> length ser' \<and>
    (\<forall>a'. set (pushed pl a') = set (pushed ?m a') \<union> {(shard_key_of oid ver (js ! q), ser' ! q) |q. q < length js \<and> ts ! q = a'})"
    using 4 k s by (intro 4(1)) (auto simp: distinct_um_push)
  have "{(shard_key_of oid ver ((j # js) ! q), ser ! q) |q. q < length (j # js) \<and> (a # ts) ! q = a'} =
     (if a = a' then {(shard_key_of oid ver j, b)} else {}) \<union>
     {(shard_key_of oid ver (js ! q), ser' ! q) |q. q < length js \<and> ts ! q = a'}" for a'
    unfolding s length_Cons Collect_less_Suc by simp
  then show ?case using i s by (auto simp: pushed_um_push)
qed auto

lemma map_of_rev_unique:
  assumes "(l, b) \<in> set xs" and "\<And>b'. (l, b') \<in> set xs \<Longrightarrow> b' = b"
  shows "map_of (rev xs) l = Some b"
proof -
  have "map_of (rev xs) l \<noteq> None" using assms(1) by (simp add: map_of_eq_None_iff image_iff) (metis fst_conv)
  then obtain b' where b': "map_of (rev xs) l = Some b'" by auto
  then have "(l, b') \<in> set xs" using map_of_SomeD by fastforce
  then show ?thesis using assms(2) b' by simp
qed

lemma repair_plan_spec:
  fixes L :: "('c, 'key) libs"
  assumes key: "key_parts_ok oid ver" "list_all plain_char oid" "list_all plain_char ver"
    and nodes: "nodes_plain nodes" "nodes \<noteq> []" "length nodes \<le> 255" "md_shard_locations md = placed oid ver nodes"
    and js: "distinct js" "\<forall>j\<in>set js. j < length nodes" and healthy: "nodes_plain healthy"
    and plan: "repair_plan L rnd oid md (map word_of_nat js) sv elig healthy repaired = Inr (pl, updated)"
    and len: "length repaired = length js"
  defines "ser \<equiv> \<lambda>e. StoredShard_serialize (lb_msgpack L)
      \<lparr>ss_manifest = repaired_manifest oid ver md (rd_now rnd), ss_shard = e\<rparr>"
  shows "\<exists>nodes'. updated = placed oid ver nodes' \<and> length nodes' = length nodes \<and> nodes_plain nodes' \<and>
    (\<forall>i. i \<notin> set js \<longrightarrow> nodes' ! i = nodes ! i) \<and> distinct (map fst pl) \<and>
    (\<forall>a. set (pushed pl a) = {(shard_key_of oid ver (js ! q), ser (repaired ! q)) |q. q < length js \<and> nodes' ! (js ! q) = a})"
proof -
  have ver: "repair_version (md_shard_locations md) (rd_version rnd) = ver"
    using parsed_version_placed [OF key(1) nodes(1,2)] key(1) by (simp add: repair_version_def nodes(4) key_parts_ok_def)
  obtain intended ts where ts: "repair_targets intended healthy
      (fallback_pool healthy (used_nodes (md_shard_locations md) sv)) [] (map word_of_nat js) = Inr ts"
    "repair_placement oid ver (zip (map word_of_nat js) ts) (map ser repaired) [] = Inr pl"
    "repair_locations oid ver (zip (map word_of_nat js) ts) (md_shard_locations md) = Inr updated"
    using plan by (auto simp: repair_plan_def ver ser_def Let_def)
  have t: "length ts = length js" "set ts \<subseteq> set healthy"
    using repair_targets_spec [OF ts(1)] by (auto simp: fallback_pool_def)
  let ?n = "moved js ts nodes"
  have "updated = placed oid ver ?n"
    using repair_locations_placed [OF key(1) t(1) js(2)] nodes(3,4) ts(3) by simp
  moreover have "nodes_plain ?n"
    using set_moved [of js ts nodes] t(2) nodes(1) healthy unfolding nodes_plain_def by blast
  moreover have "distinct (map fst pl) \<and> (\<forall>a. set (pushed pl a) =
      {(shard_key_of oid ver (js ! q), map ser repaired ! q) |q. q < length js \<and> ts ! q = a})"
    using repair_placement_spec [OF key(1) t(1) _ ts(2)] js(2) nodes(3) by fastforce
  moreover have "{(shard_key_of oid ver (js ! q), map ser repaired ! q) |q. q < length js \<and> ts ! q = a} =
      {(shard_key_of oid ver (js ! q), ser (repaired ! q)) |q. q < length js \<and> ?n ! (js ! q) = a}" for a
    using moved_nth [OF t(1) js] len by (metis (no_types, lifting) nth_map)
  ultimately show ?thesis using moved_other [OF t(1)] by (intro exI [of _ ?n]) simp
qed

section \<open>What a run does to the nodes\<close>

text \<open>Everything that was written is a genuine shard of the object, under its own key.\<close>

definition writes_genuine ::
    "('c, 'key) libs \<Rightarrow> bytes \<Rightarrow> (string \<Rightarrow> string \<Rightarrow> bytes option) \<Rightarrow> (string \<Rightarrow> string \<Rightarrow> bytes option) \<Rightarrow>
     plain_shard list \<Rightarrow> string \<Rightarrow> string \<Rightarrow> bool" where
  "writes_genuine L dek N N' plain oid ver \<longleftrightarrow> (\<forall>a l. N' a l = N a l \<or>
     (\<exists>j<length plain. l = shard_key_of oid ver j \<and>
        (\<exists>e. decoded (lb_msgpack L) (N' a) l = Some e \<and> opened (lb_botan L) dek e = Some (plain ! j))))"

text \<open>Each shard is where it was, untouched, or can now be read from its new location.\<close>

definition healed ::
    "('c, 'key) libs \<Rightarrow> bytes \<Rightarrow> (string \<Rightarrow> string \<Rightarrow> bytes option) \<Rightarrow> (string \<Rightarrow> string \<Rightarrow> bytes option) \<Rightarrow>
     plain_shard list \<Rightarrow> string \<Rightarrow> string \<Rightarrow> string list \<Rightarrow> string list \<Rightarrow> bool" where
  "healed L dek N N' plain oid ver nodes nodes' \<longleftrightarrow> length nodes' = length nodes \<and> nodes_plain nodes' \<and>
     (\<forall>j<length nodes.
        nodes' ! j = nodes ! j \<and> N (nodes ! j) (shard_key_of oid ver j) \<noteq> None \<and>
          N' (nodes ! j) (shard_key_of oid ver j) = N (nodes ! j) (shard_key_of oid ver j) \<or>
        holds L dek N' (plain ! j) (placed oid ver nodes' ! j))"

lemma decoded_same: "N' a l = N a l \<Longrightarrow> decoded M (N' a) l = decoded M (N a) l"
  by (simp add: decoded_def)

lemma unforged_kept: "writes_genuine L dek N N' plain oid ver \<Longrightarrow> unforged L dek N plain loc \<Longrightarrow> unforged L dek N' plain loc"
  unfolding unforged_def
proof (intro allI impI)
  fix e
  assume w: "writes_genuine L dek N N' plain oid ver" and u: "\<forall>e. decoded_at (lb_msgpack L) N loc = Some e \<longrightarrow>
      opened (lb_botan L) dek e = None \<or> opened (lb_botan L) dek e \<in> Some ` set plain"
    and e: "decoded_at (lb_msgpack L) N' loc = Some e"
  obtain a l where al: "split_location loc = Some (a, l)" "decoded (lb_msgpack L) (N' a) l = Some e"
    using e by (auto simp: decoded_at_def split: option.splits)
  show "opened (lb_botan L) dek e = None \<or> opened (lb_botan L) dek e \<in> Some ` set plain"
  proof (cases "N' a l = N a l")
    case True
    then show ?thesis using u al decoded_same [of N' a l N] by (simp add: decoded_at_def)
  next
    case False
    then show ?thesis using w al(2) unfolding writes_genuine_def by force
  qed
qed

lemma healed_state:
  assumes st: "object_state L N ring md oid ver nodes data dek plain"
    and w: "writes_genuine L dek N N' plain oid ver" and h: "healed L dek N N' plain oid ver nodes nodes'"
    and I: "isal_ok (lb_isal L)"
  shows "object_state L N' ring (md\<lparr>md_shard_locations := placed oid ver nodes', md_id := u, md_version := v\<rparr>)
    oid ver nodes' data dek plain"
proof -
  note o = st [unfolded object_state_def]
  have l: "length plain = length nodes" "length nodes' = length nodes"
    using o h encode_total [OF _ I] by (auto simp: healed_def)
  have "unforged L dek N' plain (placed oid ver nodes' ! j)" if j: "j < length nodes" for j
  proof (cases "holds L dek N' (plain ! j) (placed oid ver nodes' ! j)")
    case True
    then show ?thesis using j l by (auto simp: holds_def unforged_def)
  next
    case False
    then have "placed oid ver nodes' ! j = placed oid ver nodes ! j" using h j l by (auto simp: healed_def)
    moreover have "unforged L dek N plain (placed oid ver nodes ! j)" using o j by (metis length_placed nth_mem)
    ultimately show ?thesis using unforged_kept [OF w] by simp
  qed
  then have "\<forall>loc\<in>set (placed oid ver nodes'). unforged L dek N' plain loc"
    using l by (auto simp: in_placed)
  then show ?thesis using o h l by (auto simp: object_state_def healed_def)
qed

context shard_service
begin

text \<open>
  Writing the repaired shards, and what has been written when it succeeds.\<close>

lemma repair_writes:
  fixes L :: "('c, 'key) libs"
  assumes lib: "msgpack_ok (lb_msgpack L)" "order_ok (lb_ord L)" and ok: "ok c"
    and key: "list_all plain_char oid" "list_all plain_char ver"
    and js: "distinct js" "\<forall>j\<in>set js. j < length plain"
    and pl: "distinct (map fst pl)" "\<And>a. set (pushed pl a) =
      {(shard_key_of oid ver (js ! q), StoredShard_serialize (lb_msgpack L) \<lparr>ss_manifest = mf, ss_shard = repaired ! q\<rparr>)
       |q. q < length js \<and> nodes' ! (js ! q) = a}"
    and opn: "\<And>q. q < length js \<Longrightarrow> opened (lb_botan L) dek (repaired ! q) = Some (plain ! (js ! q))"
    and ap: "apply_placement send (lb_ord L) c pl = (r, c')"
  shows "ok c' \<and> writes_genuine L dek (shards c) (shards c') plain oid ver \<and>
    (\<forall>a l. (\<forall>j\<in>set js. l \<noteq> shard_key_of oid ver j) \<longrightarrow> shards c' a l = shards c a l) \<and>
    (r = Inr () \<longrightarrow> (\<forall>j\<in>set js. \<exists>e. decoded (lb_msgpack L) (shards c' (nodes' ! j)) (shard_key_of oid ver j) = Some e \<and>
       opened (lb_botan L) dek e = Some (plain ! j)))"
proof -
  let ?M = "lb_msgpack L" and ?ser = "\<lambda>e. StoredShard_serialize (lb_msgpack L) \<lparr>ss_manifest = mf, ss_shard = e\<rparr>"
  have ent: "es = pushed pl a" if "(a, es) \<in> set pl" for a es using entries_pushed [OF pl(1) that] .
  have pln: "\<forall>(a, es)\<in>set pl. \<forall>l\<in>fst ` set es. plain_location l"
  proof clarify
    fix a es l b assume "(a, es) \<in> set pl" "(l, b) \<in> set es"
    then have "(l, b) \<in> set (pushed pl a)" using ent by simp
    then show "plain_location (fst (l, b))" using plain_key [OF key] by (auto simp: pl(2))
  qed
  note mb = apply_placement_maybe [OF lib(2) pl(1) ok pln ap]
  have dec: "decoded ?M (shards c' a) l = Some (repaired ! q)" if "shards c' a l = Some (?ser (repaired ! q))" for a l q
    using that lib(1) by (simp add: decoded_def)
  have ch: "shards c' a l = shards c a l \<or> (\<exists>q<length js. l = shard_key_of oid ver (js ! q) \<and>
      shards c' a l = Some (?ser (repaired ! q)))" for a l
  proof -
    consider "shards c' a l = shards c a l" | b where "(l, b) \<in> set (pushed pl a)" "shards c' a l = Some b" using mb by blast
    then show ?thesis by cases (auto simp: pl(2))
  qed
  have w: "writes_genuine L dek (shards c) (shards c') plain oid ver"
    unfolding writes_genuine_def
  proof (intro allI)
    fix a l
    consider "shards c' a l = shards c a l" | q where "q < length js" "l = shard_key_of oid ver (js ! q)"
      "shards c' a l = Some (?ser (repaired ! q))" using ch by blast
    then show "shards c' a l = shards c a l \<or> (\<exists>j<length plain. l = shard_key_of oid ver j \<and>
        (\<exists>e. decoded ?M (shards c' a) l = Some e \<and> opened (lb_botan L) dek e = Some (plain ! j)))"
    proof cases
      case 2
      then show ?thesis using dec [OF 2(3)] opn [OF 2(1)] js(2) by (metis nth_mem)
    qed blast
  qed
  have fr: "shards c' a l = shards c a l" if "\<forall>j\<in>set js. l \<noteq> shard_key_of oid ver j" for a l
    using ch [of a l] that by (metis nth_mem)
  have "\<exists>e. decoded ?M (shards c' (nodes' ! j)) (shard_key_of oid ver j) = Some e \<and> opened (lb_botan L) dek e = Some (plain ! j)"
    if r: "r = Inr ()" and j: "j \<in> set js" for j
  proof -
    obtain q where q: "q < length js" "j = js ! q" using j by (auto simp: in_set_conv_nth)
    have "map_of (rev (pushed pl (nodes' ! j))) (shard_key_of oid ver j) = Some (?ser (repaired ! q))"
    proof (rule map_of_rev_unique)
      show "(shard_key_of oid ver j, ?ser (repaired ! q)) \<in> set (pushed pl (nodes' ! j))" using q by (auto simp: pl(2))
      show "b' = ?ser (repaired ! q)" if "(shard_key_of oid ver j, b') \<in> set (pushed pl (nodes' ! j))" for b'
        using that js(1) q by (auto simp: pl(2) shard_key_of_inj nth_eq_iff_index_eq)
    qed
    then have "shards c' (nodes' ! j) (shard_key_of oid ver j) = Some (?ser (repaired ! q))"
      using apply_placement_value [OF lib(2) pl(1) ok pln ap [unfolded r]] by (simp add: map_add_def)
    then show ?thesis using dec opn q by metis
  qed
  then show ?thesis using mb w fr by blast
qed

lemma repair_fetches_genuine:
  assumes lib: "isal_ok (lb_isal L)" "order_ok (lb_ord L)" and ok: "ok c1"
    and st: "object_state L (shards c1) ring md oid ver nodes data dek plain"
    and len: "length bs = length nodes" "length nodes \<le> 255"
    and f: "fetch_encrypted_shards send (lb_msgpack L) (lb_ord L) c1
      (surviving_location_map (md_shard_locations md) (map word_of_nat (indices_where bs))) = (ss, c2)"
  shows "ok c2 \<and> shards c2 = shards c1 \<and>
    (\<forall>e\<in>set ss. opened (lb_botan L) dek e = None \<or> opened (lb_botan L) dek e \<in> Some ` set plain)"
proof -
  note o = st [unfolded object_state_def]
  let ?locs = "md_shard_locations md" and ?sv = "map word_of_nat (indices_where bs) :: 32 word list"
  let ?ls = "map (\<lambda>i. ?locs ! unat i) ?sv"
  have u: "unat (word_of_nat i :: 32 word) = i" if "i < length bs" for i
    using that len by (simp add: unsigned_of_nat take_bit_nat_eq_self)
  have sub: "set ?ls \<subseteq> set ?locs" using u o len by (auto simp: in_placed)
  have pl: "\<forall>loc\<in>set ?locs. location_plain loc \<and> split_location loc \<noteq> None" using o placed_plain by metis
  have "parse_shard_locations ?ls = Inr (surviving_location_map ?locs ?sv)"
    using pl sub by (intro surviving_map_parses) auto
  from fetch_listed [OF lib(2) ok _ this f] pl sub o show ?thesis unfolding unforged_def by blast
qed

lemma repair_body_spec:
  fixes L :: "('c, 'key) libs"
  assumes lib: "lb_send L = send" "isal_ok (lb_isal L)" "gcm_ok (lb_botan L)" "msgpack_ok (lb_msgpack L)" "order_ok (lb_ord L)"
    and ok: "ok c" and st: "object_state L (shards c) ring md oid ver nodes data dek plain"
    and reg: "nodes_plain (map nr_address (t_nodes tn))"
    and body: "repair_body L rnd c ring tn t oid md = (r, failed, c', t')"
  shows "ok c' \<and> writes_genuine L dek (shards c) (shards c') plain oid ver \<and>
    (t' = t \<and> (\<forall>b. r = Inr (True, b) \<longrightarrow> shards c' = shards c \<and> (\<forall>j<length nodes. shards c (nodes ! j) (shard_key_of oid ver j) \<noteq> None)) \<or>
     (\<exists>nodes' rr. healed L dek (shards c) (shards c') plain oid ver nodes nodes' \<and>
        conditional_put (lb_pg L) (lb_msgpack L) t (md\<lparr>md_shard_locations := placed oid ver nodes'\<rparr>) (md_version md) = (rr, t') \<and>
        (\<forall>b. r = Inr (True, b) \<longrightarrow> rr = Inr True)))"
proof -
  note o = st [unfolded object_state_def]
  let ?locs = "md_shard_locations md" and ?k = "unat (data_shards (md_erasure md))"
  have early: ?thesis if "ok c'" "shards c' = shards c" "t' = t"
    "\<forall>b. r = Inr (True, b) \<longrightarrow> (\<forall>j<length nodes. shards c (nodes ! j) (shard_key_of oid ver j) \<noteq> None)"
    using that by (simp add: writes_genuine_def)
  have "length plain = total_shards (md_erasure md) \<and> spec_ok (md_erasure md)" using o encode_total [OF _ lib(2)] by blast
  then have n: "length nodes \<le> 255" "nodes \<noteq> []" "length plain = length nodes"
    using o by (auto simp: spec_ok_def total_shards_def)
  have pl: "\<forall>loc\<in>set ?locs. location_plain loc" using o placed_plain by metis
  obtain ms sv c1 where p: "probe_loop send c 0 ?locs [] [] = ((ms, sv), c1)" by (metis prod.exhaust)
  obtain bs where 1: "shards c1 = shards c" "ok c1" and bs: "length bs = length nodes" "ms = missing_of 0 bs"
    "sv = missing_of 0 (map Not bs)" "\<forall>j<length nodes. bs ! j \<longrightarrow> stored_at (shards c) (?locs ! j)"
    using probe_loop_spec [OF ok pl p] o by (auto simp: list_all2_conv_all_nth)
  define js where "js = indices_where (map Not bs)"
  have js: "ms = map word_of_nat js" "sv = map word_of_nat (indices_where bs)" "distinct js"
    "\<forall>j\<in>set js. j < length nodes" "\<And>j. j < length nodes \<Longrightarrow> j \<notin> set js \<longleftrightarrow> bs ! j"
    using bs by (auto simp: js_def missing_of_where comp_def)
  have stored: "shards c (nodes ! j) (shard_key_of oid ver j) \<noteq> None" if "j < length nodes" "bs ! j" for j
    using bs(4) that o by (auto simp: stored_at_def)
  note body' = body [unfolded repair_body_def lib(1) p prod.case Let_def]
  show ?thesis
  proof (cases "ms = [] \<or> length sv < ?k")
    case True
    have "\<forall>j<length nodes. bs ! j" if "ms = []" using that js by auto
    then show ?thesis using body' 1 stored True by (intro early) (auto split: if_splits)
  next
    case False
    have rd: "recover_dek (lb_botan L) (lb_ord L) (md_encrypted_dek md) (md_kek_id md) ring = Inr dek" using o by blast
    obtain ss c2 where f: "fetch_encrypted_shards send (lb_msgpack L) (lb_ord L) c1 (surviving_location_map ?locs sv) = (ss, c2)"
      by fastforce
    have st1: "object_state L (shards c1) ring md oid ver nodes data dek plain" using st 1(1) by simp
    note g = repair_fetches_genuine [OF lib(2,5) 1(2) st1 bs(1) n(1) f [unfolded js(2)]]
    note body2 = body' [unfolded rd f sum.case prod.case]
    show ?thesis
    proof (cases "bind_res (repair_reconstruct L (rd_nonces rnd) dek md ms ss) (\<lambda>repaired.
           bind_res (list_nodes (lb_pg L) tn) (\<lambda>eligible. Inr (repaired, eligible)))")
      case (Inl e)
      then show ?thesis using body2 False g 1 by (intro early) auto
    next
      case (Inr x)
      obtain repaired elig where x: "repair_reconstruct L (rd_nonces rnd) dek md ms ss = Inr repaired"
        "list_nodes (lb_pg L) tn = Inr elig" "x = (repaired, elig)" using Inr by auto
      obtain healthy c3 where h: "healthy_nodes send c2 elig = (healthy, c3)" by fastforce
      have hs: "ok c3" "shards c3 = shards c2" "set healthy \<subseteq> set elig"
        using healthy_nodes_spec [OF conjunct1 [OF g] h] subseq_set by auto
      have 3: "shards c3 = shards c" using hs(2) g 1(1) by simp
      note body3 = body2 [unfolded Inr x(3) h sum.case prod.case]
      show ?thesis
      proof (cases "repair_plan L rnd oid md ms sv elig healthy repaired")
        case (Inl e)
        then show ?thesis using body3 False hs(1) 3 by (intro early) auto
      next
        case (Inr y)
        obtain pl updated where y: "y = (pl, updated)" by (cases y)
        have op: "map (opened (lb_botan L) dek) repaired = map (\<lambda>i. Some (plain ! i)) js"
        proof (rule reconstruct_missing [OF lib(2,3)])
          show "repair_reconstruct L (rd_nonces rnd) dek md (map word_of_nat js) ss = Inr repaired" using x(1) js(1) by simp
        qed (use o g js in auto)
        have lr: "length repaired = length js" using arg_cong [OF op, of length] by simp
        have opq: "opened (lb_botan L) dek (repaired ! q) = Some (plain ! (js ! q))" if "q < length js" for q
          using arg_cong [OF op, of "\<lambda>xs. xs ! q"] that lr by simp
        have hp: "nodes_plain healthy"
          using hs(3) reg list_nodes_registered [OF x(2)] unfolding nodes_plain_def by fastforce
        from o have o': "key_parts_ok oid ver" "list_all plain_char oid" "list_all plain_char ver" "nodes_plain nodes"
          "md_shard_locations md = placed oid ver nodes" by blast+
        obtain nodes' where N: "updated = placed oid ver nodes'" "length nodes' = length nodes" "nodes_plain nodes'"
          "\<forall>i. i \<notin> set js \<longrightarrow> nodes' ! i = nodes ! i" "distinct (map fst pl)"
          "\<forall>a. set (pushed pl a) = {(shard_key_of oid ver (js ! q), StoredShard_serialize (lb_msgpack L)
            \<lparr>ss_manifest = repaired_manifest oid ver md (rd_now rnd), ss_shard = repaired ! q\<rparr>) |q. q < length js \<and> nodes' ! (js ! q) = a}"
          using repair_plan_spec [OF o'(1-4) n(2,1) o'(5) js(3,4) hp Inr [unfolded y js(1)] lr] by blast
        obtain ra c4 where ap: "apply_placement send (lb_ord L) c3 pl = (ra, c4)" by fastforce
        have jp: "\<forall>j\<in>set js. j < length plain" using js(4) n(3) by simp
        note W = repair_writes [OF lib(4,5) hs(1) o'(2,3) js(3) jp N(5) N(6) [rule_format] opq ap, unfolded 3]
        note body4 = body3 [unfolded Inr y ap sum.case prod.case]
        show ?thesis
        proof (cases ra)
          case (Inl e)
          then show ?thesis using body4 False W by auto
        next
          case (Inr v)
          have hd: "healed L dek (shards c) (shards c4) plain oid ver nodes nodes'"
            unfolding healed_def
          proof (intro conjI allI impI N(2,3))
            fix j assume j: "j < length nodes"
            show "nodes' ! j = nodes ! j \<and> shards c (nodes ! j) (shard_key_of oid ver j) \<noteq> None \<and>
                shards c4 (nodes ! j) (shard_key_of oid ver j) = shards c (nodes ! j) (shard_key_of oid ver j) \<or>
              holds L dek (shards c4) (plain ! j) (placed oid ver nodes' ! j)"
            proof (cases "j \<in> set js")
              case True
              then show ?thesis using W Inr j N(2,3) by (auto simp: holds_def decoded_at_def)
            next
              case False
              then have b: "bs ! j" and k: "\<forall>j'\<in>set js. shard_key_of oid ver j \<noteq> shard_key_of oid ver j'"
                using js(5) j by (auto simp: shard_key_of_inj)
              have "shards c4 (nodes ! j) (shard_key_of oid ver j) = shards c (nodes ! j) (shard_key_of oid ver j)"
                using W k by blast
              then show ?thesis using stored [OF j b] N(4) False by blast
            qed
          qed
          obtain rr t1 where cp: "conditional_put (lb_pg L) (lb_msgpack L) t (md\<lparr>md_shard_locations := updated\<rparr>) (md_version md) = (rr, t1)"
            by fastforce
          have "c' = c4" "t' = t1" "\<forall>b. r = Inr (True, b) \<longrightarrow> rr = Inr True"
            using body4 False Inr cp by (auto split: sum.splits)
          then show ?thesis using W hd cp N(1) by blast
        qed
      qed
    qed
  qed
qed

end

end
