(* ===== verification/Reference_Node.thy ===== *)
theory Reference_Node
  imports Storage_Node Shard_Transport
begin

text \<open>
  Concrete libraries that meet what the development assumes of LMDB, of the JSON library and of
  the target parser: an association list with LMDB's key limits, a prefix code for JSON values,
  and a parser that splits off the location. They show that the hypotheses can hold and serve the
  witnesses.
\<close>

section \<open>LMDB: an association list\<close>

lemma map_of_filter_key: "x \<noteq> k \<Longrightarrow> map_of (filter (\<lambda>y. fst y \<noteq> k) d) x = map_of d x"
  by (induction d) auto

definition MDB_BAD_VALSIZE :: int where
  "MDB_BAD_VALSIZE = - 30781"

type_synonym ref_db = "(string \<times> bytes) list"

definition ref_keys :: "ref_db \<Rightarrow> string list" where
  "ref_keys d = remdups (map fst d)"

fun key_after :: "string list \<Rightarrow> string \<Rightarrow> string option" where
  "key_after [] k = None"
| "key_after [x] k = None"
| "key_after (x # y # ks) k = (if x = k then Some y else key_after (y # ks) k)"

definition ref_key_ok :: "string \<Rightarrow> bool" where
  "ref_key_ok k \<longleftrightarrow> k \<noteq> [] \<and> length k \<le> 511"

definition ref_lmdb :: "ref_db lmdb" where
  "ref_lmdb = \<lparr>
     mdb_env_create = 0, mdb_env_set_mapsize = 0, mdb_env_open = 0,
     mdb_txn_begin = (\<lambda>_. 0), mdb_dbi_open = (\<lambda>_. 0),
     mdb_put = (\<lambda>d k v. if ref_key_ok k then (0, um_assign d k v) else (MDB_BAD_VALSIZE, d)),
     mdb_get = (\<lambda>d k. if \<not> ref_key_ok k then (MDB_BAD_VALSIZE, [])
                      else case map_of d k of None \<Rightarrow> (MDB_NOTFOUND, []) | Some v \<Rightarrow> (0, v)),
     mdb_del = (\<lambda>d k. if \<not> ref_key_ok k then (MDB_BAD_VALSIZE, d)
                      else if map_of d k = None then (MDB_NOTFOUND, d)
                      else (0, filter (\<lambda>x. fst x \<noteq> k) d)),
     mdb_txn_commit = (\<lambda>_. 0), mdb_cursor_open = (\<lambda>_. 0),
     mdb_cursor_first = (\<lambda>d. case filter ref_key_ok (ref_keys d) of [] \<Rightarrow> (MDB_NOTFOUND, []) | k # ks \<Rightarrow> (0, k)),
     mdb_cursor_next = (\<lambda>d k. case key_after (filter ref_key_ok (ref_keys d)) k of
                           None \<Rightarrow> (MDB_NOTFOUND, []) | Some k' \<Rightarrow> (0, k')),
     mdb_strerror = (\<lambda>rc. if rc = MDB_NOTFOUND then ''MDB_NOTFOUND: No matching key/data pair found''
                         else ''MDB_BAD_VALSIZE: Unsupported size of key/DB name/data'')\<rparr>"

lemma kv_ref: "kv ref_lmdb d = (\<lambda>k. if ref_key_ok k then map_of d k else None)"
  by (auto simp: kv_def ref_lmdb_def fun_eq_iff MDB_BAD_VALSIZE_def MDB_NOTFOUND_def split: option.splits)

lemma key_after_nth:
  "distinct ks \<Longrightarrow> i < length ks \<Longrightarrow> key_after ks (ks ! i) = (if Suc i < length ks then Some (ks ! Suc i) else None)"
proof (induction ks "ks ! i" arbitrary: i rule: key_after.induct)
  case (3 x y ks)
  then show ?case by (cases i) (auto simp: nth_Cons split: nat.splits)
qed auto

lemma ref_cursor: "cursor_visits ref_lmdb d (filter ref_key_ok (ref_keys d))"
proof -
  have "distinct (filter ref_key_ok (ref_keys d))" by (simp add: ref_keys_def)
  then show ?thesis
    unfolding cursor_visits_def
    by (auto simp: ref_lmdb_def key_after_nth hd_conv_nth split: list.splits)
qed

theorem lmdb_ok_ref: "lmdb_ok ref_lmdb"
  unfolding lmdb_ok_def
proof (intro conjI allI impI)
  fix d k v d'
  show "mdb_put ref_lmdb d k v = (0, d') \<Longrightarrow> kv ref_lmdb d' = (kv ref_lmdb d)(k \<mapsto> v)"
    by (auto simp: kv_ref fun_eq_iff) (auto simp: ref_lmdb_def MDB_BAD_VALSIZE_def split: if_splits)
  show "mdb_del ref_lmdb d k = (0, d') \<Longrightarrow> kv ref_lmdb d' = (kv ref_lmdb d)(k := None)"
    by (auto simp: kv_ref fun_eq_iff)
      (auto simp: ref_lmdb_def MDB_BAD_VALSIZE_def MDB_NOTFOUND_def map_of_filter_key map_of_eq_None_iff split: if_splits)
next
  fix d
  have "set (filter ref_key_ok (ref_keys d)) = dom (kv ref_lmdb d)"
    by (auto simp: kv_ref ref_keys_def dom_def map_of_eq_None_iff [symmetric] split: if_splits)
      (metis map_of_eq_None_iff not_Some_eq image_iff fst_conv)+
  then show "\<exists>ks. distinct ks \<and> set ks = dom (kv ref_lmdb d) \<and> cursor_visits ref_lmdb d ks"
    using ref_cursor [of d] by (intro exI [of _ "filter ref_key_ok (ref_keys d)"]) (auto simp: ref_keys_def)
qed

lemma begin_txn_ref [simp]: "begin_txn ref_lmdb d = Inr ()"
  by (simp add: begin_txn_def open_database_def check_lmdb_def ref_lmdb_def)

section \<open>JSON: a prefix code\<close>

fun code_string :: "string \<Rightarrow> string" where
  "code_string [] = '';''"
| "code_string (c # s) = CHR ''c'' # c # code_string s"

fun read_string :: "string \<Rightarrow> (string \<times> string) option" where
  "read_string (m # r) =
     (if m = CHR '';'' then Some ([], r)
      else case r of [] \<Rightarrow> None
        | c # r' \<Rightarrow> map_option (\<lambda>(s, q). (c # s, q)) (read_string r'))"
| "read_string [] = None"

fun code_json :: "json \<Rightarrow> string" where
  "code_json JNull = ''n''"
| "code_json (JBool b) = (if b then ''t'' else ''f'')"
| "code_json (JInt n) = (if n < 0 then ''-'' else ''+'') @ code_string (to_string (nat \<bar>n\<bar>))"
| "code_json (JFloat s) = ''r'' @ code_string s"
| "code_json (JStr s) = ''s'' @ code_string s"
| "code_json (JArr js) = ''['' @ concat (map code_json js) @ '']''"
| "code_json (JObj ms) = ''{'' @ concat (map (\<lambda>(k, v). code_string k @ code_json v) ms) @ ''}''"

fun read_json :: "nat \<Rightarrow> string \<Rightarrow> (json \<times> string) option"
  and read_items :: "nat \<Rightarrow> string \<Rightarrow> (json list \<times> string) option"
  and read_members :: "nat \<Rightarrow> string \<Rightarrow> ((string \<times> json) list \<times> string) option" where
  "read_json (Suc n) (c # r) =
     (if c = CHR ''n'' then Some (JNull, r)
      else if c = CHR ''t'' then Some (JBool True, r)
      else if c = CHR ''f'' then Some (JBool False, r)
      else if c = CHR ''+'' then map_option (\<lambda>(s, q). (JInt (int (digits_value s)), q)) (read_string r)
      else if c = CHR ''-'' then map_option (\<lambda>(s, q). (JInt (- int (digits_value s)), q)) (read_string r)
      else if c = CHR ''r'' then map_option (\<lambda>(s, q). (JFloat s, q)) (read_string r)
      else if c = CHR ''s'' then map_option (\<lambda>(s, q). (JStr s, q)) (read_string r)
      else if c = CHR ''['' then map_option (\<lambda>(js, q). (JArr js, q)) (read_items n r)
      else if c = CHR ''{'' then map_option (\<lambda>(ms, q). (JObj ms, q)) (read_members n r)
      else None)"
| "read_json _ _ = None"
| "read_items (Suc n) (c # r) =
     (if c = CHR '']'' then Some ([], r)
      else case read_json n (c # r) of None \<Rightarrow> None
        | Some (j, q) \<Rightarrow> map_option (\<lambda>(js, q). (j # js, q)) (read_items n q))"
| "read_items _ _ = None"
| "read_members (Suc n) (c # r) =
     (if c = CHR ''}'' then Some ([], r)
      else case read_string (c # r) of None \<Rightarrow> None
        | Some (k, q) \<Rightarrow> (case read_json n q of None \<Rightarrow> None
          | Some (j, q') \<Rightarrow> map_option (\<lambda>(ms, q). ((k, j) # ms, q)) (read_members n q')))"
| "read_members _ _ = None"

definition ref_json :: json_lib where
  "ref_json = \<lparr>json_dump = (\<lambda>j. Some (code_json j)),
     json_parse = (\<lambda>s. case read_json (Suc (length s)) s of Some (j, []) \<Rightarrow> Some j | _ \<Rightarrow> None)\<rparr>"

lemma read_code_string [simp]: "read_string (code_string s @ q) = Some (s, q)"
  by (induction s rule: code_string.induct) auto

lemma code_json_ne [simp]: "code_json j \<noteq> []"
  by (cases j) auto

lemma code_string_hd: "\<exists>c r. code_string s = c # r \<and> c \<noteq> CHR ''}''"
  by (cases s) auto

lemma code_json_hd: "\<exists>c r. code_json j = c # r \<and> c \<noteq> CHR '']''"
  by (cases j) auto

lemma read_items_code:
  assumes "\<And>j n q. j \<in> set js \<Longrightarrow> length (code_json j) \<le> n \<Longrightarrow> read_json n (code_json j @ q) = Some (j, q)"
  shows "length (concat (map code_json js)) < n \<Longrightarrow>
    read_items n (concat (map code_json js) @ CHR '']'' # q) = Some (js, q)"
  using assms
proof (induction js arbitrary: n)
  case Nil
  then show ?case by (cases n) auto
next
  case (Cons j js)
  obtain m where m: "n = Suc m" using Cons.prems(1) by (cases n) auto
  obtain c r where cr: "code_json j = c # r" "c \<noteq> CHR '']''" using code_json_hd by blast
  have "read_json m (code_json j @ concat (map code_json js) @ CHR '']'' # q) =
      Some (j, concat (map code_json js) @ CHR '']'' # q)"
    using Cons.prems m by (intro Cons.prems(2)) auto
  moreover have "read_items m (concat (map code_json js) @ CHR '']'' # q) = Some (js, q)"
    using Cons.prems m cr(1) by (intro Cons.IH) auto
  ultimately show ?case using cr by (simp add: m)
qed

lemma read_members_code:
  assumes "\<And>k j n q. (k, j) \<in> set ms \<Longrightarrow> length (code_json j) \<le> n \<Longrightarrow> read_json n (code_json j @ q) = Some (j, q)"
  shows "length (concat (map (\<lambda>(k, v). code_string k @ code_json v) ms)) < n \<Longrightarrow>
    read_members n (concat (map (\<lambda>(k, v). code_string k @ code_json v) ms) @ CHR ''}'' # q) = Some (ms, q)"
  using assms
proof (induction ms arbitrary: n)
  case Nil
  then show ?case by (cases n) auto
next
  case (Cons x ms)
  obtain k j where x: "x = (k, j)" by (cases x)
  let ?t = "concat (map (\<lambda>(k, v). code_string k @ code_json v) ms) @ CHR ''}'' # q"
  obtain m where m: "n = Suc m" using Cons.prems(1) by (cases n) auto
  obtain c r where cr: "code_string k = c # r" "c \<noteq> CHR ''}''" using code_string_hd by blast
  have "read_json m (code_json j @ ?t) = Some (j, ?t)"
    using Cons.prems m x by (intro Cons.prems(2)) auto
  moreover have "read_members m ?t = Some (ms, q)"
    using Cons.prems m x cr(1) by (intro Cons.IH) auto
  moreover have "read_string (c # r @ code_json j @ ?t) = Some (k, code_json j @ ?t)"
    using read_code_string [of k "code_json j @ ?t"] cr(1) by simp
  ultimately show ?case using cr by (simp add: m x)
qed

lemma read_code_json: "length (code_json j) \<le> n \<Longrightarrow> read_json n (code_json j @ q) = Some (j, q)"
proof (induction j arbitrary: n q)
  case (JArr js)
  then obtain m where m: "n = Suc m" by (cases n) auto
  have "read_items m (concat (map code_json js) @ CHR '']'' # q) = Some (js, q)"
    using JArr m by (intro read_items_code) auto
  then show ?case by (simp add: m)
next
  case (JObj ms)
  then obtain m where m: "n = Suc m" by (cases n) auto
  have "read_members m (concat (map (\<lambda>(k, v). code_string k @ code_json v) ms) @ CHR ''}'' # q) = Some (ms, q)"
    using JObj m by (intro read_members_code) fastforce+
  then show ?case by (simp add: m)
next
  case (JInt i)
  then obtain m where m: "n = Suc m" by (cases n) (auto split: if_splits)
  then show ?case by simp
next
  case (JFloat s)
  then show ?case by (cases n) auto
next
  case (JStr s)
  then show ?case by (cases n) auto
qed (auto simp: Suc_le_eq gr0_conv_Suc split: if_splits)

theorem json_ok_ref: "json_ok ref_json"
proof -
  have "read_json (Suc (length (code_json j))) (code_json j) = Some (j, [])" for j
    using read_code_json [of j "Suc (length (code_json j))" "[]"] by simp
  then show ?thesis by (simp add: json_ok_def ref_json_def)
qed

section \<open>Request targets\<close>

definition ref_targets :: "string \<Rightarrow> string \<times> (string \<times> string) list" where
  "ref_targets t = (if take 17 t = ''/shards?location='' then (''/shards'', [(''location'', drop 17 t)]) else (t, []))"

lemma ref_targets_shard [simp]: "ref_targets (shard_target l) = (''/shards'', [(''location'', l)])"
  by (simp add: ref_targets_def shard_target_def)

lemma ref_targets_other [simp]:
  "ref_targets ''/health'' = (''/health'', [])" "ref_targets ''/shards/list'' = (''/shards/list'', [])"
  by (simp_all add: ref_targets_def)

section \<open>Serialization: records as JSON arrays\<close>

lemma char_of_byte_of_char [simp]: "char_of_byte (byte_of_char c) = c"
proof -
  have "char_code c < 256" by (simp add: char_code_def)
  then show ?thesis by (simp add: char_of_byte_def byte_of_char_def unsigned_of_nat take_bit_nat_eq_self)
    (simp add: char_code_def)
qed

lemma string_of_bytes_of_string [simp]: "string_of_bytes (bytes_of_string s) = s"
  by (simp add: bytes_of_string_def string_of_bytes_def comp_def)

definition pack_json :: "json \<Rightarrow> bytes" where
  "pack_json j = bytes_of_string (code_json j)"

definition unpack_json :: "bytes \<Rightarrow> json option" where
  "unpack_json b = json_parse ref_json (string_of_bytes b)"

lemma unpack_pack_json [simp]: "unpack_json (pack_json j) = Some j"
  using json_ok_ref by (simp add: unpack_json_def pack_json_def json_ok_def ref_json_def)

lemma pack_json_ne [simp]: "pack_json j \<noteq> []"
  by (simp add: pack_json_def bytes_of_string_def)

abbreviation jw :: "'a::len word \<Rightarrow> json" where
  "jw w \<equiv> JInt (uint w)"

fun json_of_spec :: "erasure_spec \<Rightarrow> json" where
  "json_of_spec e = JArr [jw (data_shards e), jw (parity_shards e), jw (shard_size e)]"

fun spec_of_json :: "json \<Rightarrow> erasure_spec option" where
  "spec_of_json (JArr [JInt k, JInt m, JInt s]) =
     Some \<lparr>data_shards = word_of_int k, parity_shards = word_of_int m, shard_size = word_of_int s\<rparr>"
| "spec_of_json _ = None"

fun json_of_enc :: "encrypted_shard \<Rightarrow> json" where
  "json_of_enc e = JArr [jw (es_index e), JStr (string_of_bytes (es_nonce e)), JStr (string_of_bytes (es_ciphertext e))]"

fun enc_of_json :: "json \<Rightarrow> encrypted_shard option" where
  "enc_of_json (JArr [JInt i, JStr n, JStr c]) =
     Some \<lparr>es_index = word_of_int i, es_nonce = bytes_of_string n, es_ciphertext = bytes_of_string c\<rparr>"
| "enc_of_json _ = None"

definition json_of_manifest :: "shard_manifest \<Rightarrow> json" where
  "json_of_manifest m = JArr [JStr (sm_object_id m), JStr (sm_version m), jw (sm_size m), JStr (sm_checksum m),
     json_of_spec (sm_erasure m), JStr (string_of_bytes (sm_encrypted_dek m)), JStr (sm_kek_id m), jw (sm_written_at m)]"

fun json_int :: "json \<Rightarrow> int option" where
  "json_int (JInt n) = Some n"
| "json_int _ = None"

definition manifest_of_items :: "json list \<Rightarrow> shard_manifest option" where
  "manifest_of_items js =
     Option.bind (json_string (js ! 0)) (\<lambda>oid. Option.bind (json_string (js ! 1)) (\<lambda>v.
     Option.bind (json_int (js ! 2)) (\<lambda>sz. Option.bind (json_string (js ! 3)) (\<lambda>ck.
     Option.bind (spec_of_json (js ! 4)) (\<lambda>e. Option.bind (json_string (js ! 5)) (\<lambda>dek.
     Option.bind (json_string (js ! 6)) (\<lambda>kek. Option.bind (json_int (js ! 7)) (\<lambda>w.
       Some \<lparr>sm_object_id = oid, sm_version = v, sm_size = word_of_int sz, sm_checksum = ck,
         sm_erasure = e, sm_encrypted_dek = bytes_of_string dek, sm_kek_id = kek,
         sm_written_at = word_of_int w\<rparr>))))))))"

fun manifest_of_json :: "json \<Rightarrow> shard_manifest option" where
  "manifest_of_json (JArr js) = (if length js = 8 then manifest_of_items js else None)"
| "manifest_of_json _ = None"

definition json_of_stored :: "stored_shard \<Rightarrow> json" where
  "json_of_stored s = JArr [json_of_manifest (ss_manifest s), json_of_enc (ss_shard s)]"

fun stored_of_json :: "json \<Rightarrow> stored_shard option" where
  "stored_of_json (JArr [m, e]) = (case (manifest_of_json m, enc_of_json e) of
     (Some m, Some e) \<Rightarrow> Some \<lparr>ss_manifest = m, ss_shard = e\<rparr> | _ \<Rightarrow> None)"
| "stored_of_json _ = None"

definition ref_msgpack :: msgpack where
  "ref_msgpack = \<lparr>
     pack_spec = (\<lambda>e. pack_json (json_of_spec e)),
     unpack_spec = (\<lambda>b. Option.bind (unpack_json b) spec_of_json),
     pack_enc = (\<lambda>e. pack_json (json_of_enc e)),
     unpack_enc = (\<lambda>b. Option.bind (unpack_json b) enc_of_json),
     pack_stored = (\<lambda>s. pack_json (json_of_stored s)),
     unpack_stored = (\<lambda>b. Option.bind (unpack_json b) stored_of_json)\<rparr>"

lemma spec_json_roundtrip [simp]: "spec_of_json (json_of_spec e) = Some e"
  by simp

lemma enc_json_roundtrip [simp]: "enc_of_json (json_of_enc e) = Some e"
  by simp

declare json_of_spec.simps [simp del] json_of_enc.simps [simp del]

lemma manifest_json_roundtrip [simp]: "manifest_of_json (json_of_manifest m) = Some m"
  by (simp add: json_of_manifest_def manifest_of_items_def)

lemma stored_json_roundtrip [simp]: "stored_of_json (json_of_stored s) = Some s"
  by (simp add: json_of_stored_def)

theorem msgpack_ok_ref: "msgpack_ok ref_msgpack"
proof -
  have "stored_of_json (json_of_enc e) = None" for e by (simp add: json_of_enc.simps)
  then show ?thesis by (simp add: msgpack_ok_def ref_msgpack_def)
qed

end
