(* ===== verification/Transport_Properties.thy ===== *)
theory Transport_Properties
  imports Cluster Reference_Node
begin

text \<open>
  What the transport guarantees over the cluster of node servers, and the witnesses of the
  storage-node and transport properties on the reference libraries.
\<close>

section \<open>Witnesses of the storage-node properties\<close>

lemma node_put_atomic_witness:
  "kv ref_lmdb (snd (node_put ref_lmdb [] [''a'', ''b''] [[1], [2]])) =
     (Map.empty(''a'' \<mapsto> [1]))(''b'' \<mapsto> [2])"
proof -
  have p: "node_put ref_lmdb [] [''a'', ''b''] [[1], [2]] = (Inr (), [(''a'', [1]), (''b'', [2])])"
    by code_simp
  have e: "kv ref_lmdb [] = Map.empty" by (simp add: kv_ref fun_eq_iff)
  show ?thesis using node_put_atomic [OF lmdb_ok_ref p] by (simp add: p e)
qed

lemma node_get_values_witness:
  "[Some [1], None] = map (kv ref_lmdb [(''a'', [1])]) [''a'', ''b'']"
proof -
  have "node_get ref_lmdb [(''a'', [1])] [''a'', ''b''] = Inr [Some [1], None]" by code_simp
  then show ?thesis by (rule node_get_values)
qed

lemma node_remove_atomic_witness:
  "[Some [1], None] = removed_values (kv ref_lmdb [(''a'', [1])]) [''a'', ''a''] \<and>
   kv ref_lmdb [] = (\<lambda>k. if k \<in> set [''a'', ''a''] then None else kv ref_lmdb [(''a'', [1])] k)"
proof -
  have "node_remove ref_lmdb [(''a'', [1])] [''a'', ''a''] = (Inr [Some [1], None], [])" by code_simp
  from node_remove_atomic [OF lmdb_ok_ref this] show ?thesis by simp
qed

lemma node_list_complete_witness:
  "\<exists>ks. node_list_locations ref_lmdb [(''a'', [1]), (''b'', [2])] = Some (Inr ks) \<and> distinct ks \<and>
     set ks = dom (kv ref_lmdb [(''a'', [1]), (''b'', [2])])"
  by (rule node_list_complete [OF lmdb_ok_ref]) (simp, simp add: ref_lmdb_def)

section \<open>Properties\<close>

text \<open>
  C26: When applying a placement returns, every shard of it is stored on its node under its key,
  and the nodes hold nothing else they did not hold before. This is over every schedule of lost
  requests and replies.
\<close>

theorem apply_placement_stores:
  assumes "lmdb_ok L" and "json_ok J" and "targets_ok T" and "order_ok ord" and "distinct (map fst p)"
    and "\<forall>(a, entries)\<in>set p. \<forall>(l, b)\<in>set entries. plain_location l"
    and "apply_placement (cluster_send L J T) ord c p = (Inr (), c')"
  shows "cluster_shards L c' a = cluster_shards L c a ++ map_of (rev (pushed p a))"
proof -
  have "cluster_ok L J T c" using assms by (simp add: cluster_ok_def)
  moreover have "\<forall>(a, es)\<in>set p. \<forall>l\<in>fst ` set es. plain_location l" using assms(6) by fastforce
  ultimately show ?thesis using cluster.apply_placement_value [OF assms(4,5) _ _ assms(7)] by blast
qed

text \<open>
  Applying a placement, successful or not, touches no shard outside the placement, and what it
  changes holds exactly the bytes placed there: a write that fails half way leaves every other
  object as it was and no half-written shard.
\<close>

theorem apply_placement_frame:
  assumes "lmdb_ok L" and "json_ok J" and "targets_ok T" and "order_ok ord" and "distinct (map fst p)"
    and "\<forall>(a, entries)\<in>set p. \<forall>(l, b)\<in>set entries. plain_location l"
    and "apply_placement (cluster_send L J T) ord c p = (r, c')"
  shows "cluster_shards L c' a l = cluster_shards L c a l \<or>
    (\<exists>b. (l, b) \<in> set (pushed p a) \<and> cluster_shards L c' a l = Some b)"
proof -
  have "cluster_ok L J T c" using assms by (simp add: cluster_ok_def)
  moreover have "\<forall>(a, es)\<in>set p. \<forall>l\<in>fst ` set es. plain_location l" using assms(6) by fastforce
  ultimately show ?thesis using cluster.apply_placement_maybe [OF assms(4,5) _ _ assms(7)] by blast
qed

text \<open>
  C27: Fetching changes no node, returns only shards the nodes hold at the locations asked for,
  no location more often than it is listed, and misses nothing a reachable node can decode: an
  unreachable node, a missing or a garbled shard never makes it fail.
\<close>

theorem fetch_sound_and_complete:
  assumes "lmdb_ok L" and "json_ok J" and "targets_ok T" and "order_ok ord" and "distinct (map fst m)"
    and "\<forall>(a, ls)\<in>set m. \<forall>l\<in>set ls. plain_location l"
    and "fetch_encrypted_shards (cluster_send L J T) M ord c m = (shards, c')"
  shows "cluster_shards L c' = cluster_shards L c \<and>
    subseq shards (decoded_map M (cluster_shards L c) (um_iter ord m)) \<and>
    (\<forall>(a, ls)\<in>set m. cluster_up L c a \<and> is_ok (get_node_client a) \<longrightarrow>
       (\<forall>l\<in>set ls. \<forall>s. decoded M (cluster_shards L c a) l = Some s \<longrightarrow> s \<in> set shards))"
proof -
  have ok: "cluster_ok L J T c" using assms by (simp add: cluster_ok_def)
  show ?thesis
    using cluster.fetch_encrypted_shards_spec [OF assms(4,5) ok assms(6,7)]
    by (fastforce simp: set_decoded_list subset_iff)
qed

text \<open>
  Best-effort removal deletes nothing but the listed shards, each at its own node.
\<close>

theorem remove_from_nodes_frame:
  assumes "lmdb_ok L" and "json_ok J" and "targets_ok T" and "order_ok ord" and "distinct (map fst m)"
    and "\<forall>(a, ls)\<in>set m. \<forall>l\<in>set ls. plain_location l"
  shows "cluster_shards L (remove_from_nodes (cluster_send L J T) ord c m) a l =
      (if l \<in> set (pushed m a) \<and> cluster_shards L (remove_from_nodes (cluster_send L J T) ord c m) a l = None
       then None else cluster_shards L c a l)"
proof -
  have ok: "cluster_ok L J T c" using assms by (simp add: cluster_ok_def)
  show ?thesis
    using cluster.remove_from_nodes_spec [OF assms(4,5) ok assms(6) refl] by (metis (no_types, lifting))
qed

section \<open>Witnesses\<close>

definition two_nodes :: "ref_db cluster" where
  "two_nodes = \<lparr>cl_nodes = [''n:1'' \<mapsto> [], ''m:2'' \<mapsto> [(''x'', [9])]], cl_link = (\<lambda>t a. Delivered), cl_clock = 0\<rparr>"

abbreviation ref_send :: "ref_db cluster send" where
  "ref_send \<equiv> cluster_send ref_lmdb ref_json ref_targets"

lemma targets_ok_ref: "targets_ok ref_targets"
  by (simp add: targets_ok_def)

definition small_placement :: placement_map where
  "small_placement = [(''n:1'', [(''o/1/0'', [1])]), (''m:2'', [(''o/1/1'', [2])])]"

lemma small_placement_plain:
  "\<forall>(a, entries)\<in>set small_placement. \<forall>(l, b)\<in>set entries. plain_location l"
proof -
  have "plain_location ''o/1/0''" "plain_location ''o/1/1''" by code_simp+
  then show ?thesis by (simp add: small_placement_def)
qed

lemma small_placement_applied:
  "fst (apply_placement ref_send (\<lambda>ks. ks) two_nodes small_placement) = Inr ()"
  by code_simp

lemma apply_placement_stores_witness:
  "cluster_shards ref_lmdb (snd (apply_placement ref_send rev two_nodes small_placement)) ''n:1'' ''o/1/0'' = Some [1]"
proof -
  have f: "fst (apply_placement ref_send rev two_nodes small_placement) = Inr ()" by code_simp
  have "cluster_shards ref_lmdb (snd (apply_placement ref_send rev two_nodes small_placement)) ''n:1'' =
      cluster_shards ref_lmdb two_nodes ''n:1'' ++ map_of (rev (pushed small_placement ''n:1''))"
    by (rule apply_placement_stores [OF lmdb_ok_ref json_ok_ref targets_ok_ref order_ok_rev _ small_placement_plain])
      (simp add: small_placement_def, simp flip: f)
  then show ?thesis by (simp add: small_placement_def pushed_def)
qed

lemma apply_placement_frame_witness:
  "cluster_shards ref_lmdb (snd (apply_placement ref_send rev two_nodes small_placement)) ''m:2'' ''x'' = Some [9]"
proof -
  have "cluster_shards ref_lmdb (snd (apply_placement ref_send rev two_nodes small_placement)) ''m:2'' ''x'' =
      cluster_shards ref_lmdb two_nodes ''m:2'' ''x'' \<or>
      (\<exists>b. (''x'', b) \<in> set (pushed small_placement ''m:2'') \<and>
        cluster_shards ref_lmdb (snd (apply_placement ref_send rev two_nodes small_placement)) ''m:2'' ''x'' = Some b)"
    by (rule apply_placement_frame [OF lmdb_ok_ref json_ok_ref targets_ok_ref order_ok_rev _ small_placement_plain
          surjective_pairing]) (simp add: small_placement_def)
  then show ?thesis
    by (auto simp: small_placement_def pushed_def cluster_shards_def two_nodes_def kv_ref ref_key_ok_def)
qed

lemma fetch_sound_and_complete_witness:
  "cluster_shards ref_lmdb (snd (fetch_encrypted_shards ref_send ref_msgpack rev two_nodes [(''m:2'', [''x''])])) =
   cluster_shards ref_lmdb two_nodes"
proof -
  have "\<forall>(a, ls)\<in>set [(''m:2'', [''x''])]. \<forall>l\<in>set ls. plain_location l"
    by (simp add: plain_location_def plain_char_def char_code_def)
  from fetch_sound_and_complete [OF lmdb_ok_ref json_ok_ref targets_ok_ref order_ok_rev _ this surjective_pairing]
  show ?thesis by simp
qed

lemma remove_from_nodes_frame_witness:
  "cluster_shards ref_lmdb (remove_from_nodes ref_send rev two_nodes [(''m:2'', [''y''])]) ''m:2'' ''x'' = Some [9]"
proof -
  have "\<forall>(a, ls)\<in>set [(''m:2'', [''y''])]. \<forall>l\<in>set ls. plain_location l"
    by (simp add: plain_location_def plain_char_def char_code_def)
  then have "cluster_shards ref_lmdb (remove_from_nodes ref_send rev two_nodes [(''m:2'', [''y''])]) ''m:2'' ''x'' =
      (if ''x'' \<in> set (pushed [(''m:2'', [''y''])] ''m:2'') \<and>
          cluster_shards ref_lmdb (remove_from_nodes ref_send rev two_nodes [(''m:2'', [''y''])]) ''m:2'' ''x'' = None
       then None else cluster_shards ref_lmdb two_nodes ''m:2'' ''x'')"
    by (intro remove_from_nodes_frame [OF lmdb_ok_ref json_ok_ref targets_ok_ref order_ok_rev]) auto
  then show ?thesis by (simp add: pushed_def cluster_shards_def two_nodes_def kv_ref ref_key_ok_def)
qed

end
