(* ===== verification/Metadata_Properties.thy ===== *)
theory Metadata_Properties
  imports Metadata_Store Reference_Node
begin

text \<open>
  What the catalog guarantees, over every way statements and commits can fail, with witnesses on
  a concrete PostgreSQL (\<open>ref_pg\<close>) and the reference serialization.
\<close>

section \<open>A concrete PostgreSQL\<close>

definition lower_hex :: "char \<Rightarrow> char" where
  "lower_hex c = (if c = CHR ''A'' then CHR ''a'' else if c = CHR ''B'' then CHR ''b''
     else if c = CHR ''C'' then CHR ''c'' else if c = CHR ''D'' then CHR ''d''
     else if c = CHR ''E'' then CHR ''e'' else if c = CHR ''F'' then CHR ''f'' else c)"

definition ref_uuid :: "string \<Rightarrow> string option" where
  "ref_uuid s = (if length s = 36 \<and> list_all (\<lambda>c. lower_hex c \<in> set ''-0123456789abcdef'') s
     then Some (map lower_hex s) else None)"

definition ref_pg :: postgres where
  "ref_pg = \<lparr>pg_uuid = ref_uuid, pg_text_ok = (\<lambda>s. CHR 0x00 \<notin> set s), pg_fails = (\<lambda>s t. False),
     pg_commit = (\<lambda>t. Committed)\<rparr>"

lemma lower_hex_idem [simp]: "lower_hex (lower_hex c) = lower_hex c"
  by (simp add: lower_hex_def)

lemma postgres_ok_ref: "postgres_ok ref_pg"
  by (auto simp: postgres_ok_def ref_pg_def ref_uuid_def list_all_iff split: if_splits)

lemma reads_ok_ref [simp]: "reads_ok ref_pg t"
  by (simp add: reads_ok_def ref_pg_def)

section \<open>Properties\<close>

inductive catalog_step :: "postgres \<Rightarrow> msgpack \<Rightarrow> tables \<Rightarrow> tables \<Rightarrow> bool" for P M where
  step_write: "store_write P M t t' \<Longrightarrow> catalog_step P M t t'"
| step_remove: "MetadataStore_remove P t oid = (r, t') \<Longrightarrow> catalog_step P M t t'"
| step_register: "register_node P now t a = (r, t') \<Longrightarrow> catalog_step P M t t'"
| step_unregister: "unregister_node P t a = (r, t') \<Longrightarrow> catalog_step P M t t'"

text \<open>
  C24: Whatever operations run, in whatever order and however they fail, the catalog keeps its
  constraints: one row per id, in canonical form and with a version in range, every location
  belonging to an object and no index twice, no node registered twice.
\<close>

theorem catalog_invariant:
  assumes "postgres_ok P" and "(catalog_step P M)\<^sup>*\<^sup>* init_schema t"
  shows "tables_ok P t"
  using assms(2)
proof (induction rule: rtranclp_induct)
  case base
  show ?case by (simp add: tables_ok_def init_schema_def)
next
  case (step t1 t2)
  from step.hyps(2) show ?case
  proof cases
    case step_write
    then show ?thesis by (rule store_write_ok [OF assms(1) step.IH])
  next
    case (step_remove oid r)
    then show ?thesis using remove_transaction_spec [OF step.IH] step.IH
      by (auto simp: MetadataStore_remove_def split: sum.splits prod.splits dest!: commit_tables)
  next
    case (step_register now a r)
    then show ?thesis by (rule register_node_ok [OF step.IH])
  next
    case (step_unregister a r)
    then show ?thesis by (rule unregister_node_ok [OF step.IH])
  qed
qed

text \<open>
  A successful \<open>put\<close> is read back: whatever spelling of the UUID is used, \<open>get\<close> returns the
  metadata that was put, with the canonical id and the next version, 1 for a new object.
\<close>

theorem put_get_metadata:
  assumes "tables_ok P t" and "msgpack_ok M" and "postgres_ok P"
    and "MetadataStore_put P M t md = (Inr (), t')" and "reads_ok P t'"
    and "pg_uuid P (md_id md) = Some u" and "pg_uuid P oid = Some u"
  shows "MetadataStore_get P M t' oid = Inr (Some (md\<lparr>md_id := u, md_version := next_version t u\<rparr>))"
  using assms by (rule get_after_put)

text \<open>
  \<open>put\<close> is all or nothing: afterwards the catalog is unchanged, or it differs in that one
  object, whose row and complete list of locations are the new ones. The node registry is untouched.
\<close>

theorem put_all_or_nothing:
  assumes "tables_ok P t" and "MetadataStore_put P M t md = (r, t')"
  shows "t' = t \<or> (\<exists>u. pg_uuid P (md_id md) = Some u \<and> t_nodes t' = t_nodes t \<and>
    catalog t' = (catalog t)(u \<mapsto> (row_of M md u (next_version t u), md_shard_locations md)))"
  using put_cases [OF assms] by (auto simp: catalog_replaced) (simp add: replaced_def)

text \<open>
  The conditional put commits exactly on a version match: \<open>true\<close> means the object had the
  expected version and now has the new contents and the next version, \<open>false\<close> that it had another
  version or none and nothing changed, an exception that at most that one update happened.
\<close>

theorem conditional_put_fenced:
  assumes "tables_ok P t" and "conditional_put P M t md expected = (r, t')"
  shows "case r of
      Inr True \<Rightarrow> (\<exists>u. pg_uuid P (md_id md) = Some u \<and> version_at t u = Some expected \<and>
        catalog t' = (catalog t)(u \<mapsto> (row_of M md u (expected + 1), md_shard_locations md)))
    | Inr False \<Rightarrow> t' = t \<and> (\<exists>u. pg_uuid P (md_id md) = Some u \<and> version_at t u \<noteq> Some expected)
    | Inl e \<Rightarrow> t' = t \<or> (\<exists>u. pg_uuid P (md_id md) = Some u \<and> version_at t u = Some expected \<and>
        catalog t' = (catalog t)(u \<mapsto> (row_of M md u (expected + 1), md_shard_locations md)))"
proof (cases r)
  case (Inl e)
  then show ?thesis using conditional_put_cases [OF assms] by (auto simp: catalog_replaced)
next
  case (Inr b)
  then have "conditional_put_transaction P M t md expected = Inr (b, t')"
    using assms(2) by (auto simp: conditional_put_def commit_Inr split: sum.splits prod.splits)
  from conditional_put_transaction_spec [OF assms(1) this] show ?thesis
    by (cases b) (auto simp: Inr version_at_def catalog_replaced)
qed

text \<open>
  The insert used by the rebuild never clobbers: with a row for that id present nothing
  changes and the result is not \<open>true\<close>; \<open>true\<close> means a fresh row with version 1.
\<close>

theorem insert_if_absent_no_clobber:
  assumes "tables_ok P t" and "insert_if_absent P M t md = (r, t')"
  shows "(\<forall>u x. pg_uuid P (md_id md) = Some u \<and> catalog t u = Some x \<longrightarrow> t' = t \<and> r \<noteq> Inr True) \<and>
    (r = Inr True \<longrightarrow> (\<exists>u. pg_uuid P (md_id md) = Some u \<and>
       catalog t' = (catalog t)(u \<mapsto> (row_of M md u 1, md_shard_locations md))))"
proof (intro conjI allI impI)
  fix u x
  assume u: "pg_uuid P (md_id md) = Some u \<and> catalog t u = Some x"
  then have o: "object_at t u \<noteq> None" by (auto simp: catalog_def)
  then have "t' = t" using insert_if_absent_cases [OF assms] u by (auto simp: version_at_def)
  moreover have "r \<noteq> Inr True"
  proof
    assume "r = Inr True"
    then have "insert_if_absent_transaction P M t md = Inr (True, t')"
      using assms(2) by (auto simp: insert_if_absent_def commit_Inr split: sum.splits prod.splits)
    from insert_if_absent_transaction_spec [OF assms(1) this] show False using u o by auto
  qed
  ultimately show "t' = t" "r \<noteq> Inr True" by auto
next
  assume "r = Inr True"
  then have "insert_if_absent_transaction P M t md = Inr (True, t')"
    using assms(2) by (auto simp: insert_if_absent_def commit_Inr split: sum.splits prod.splits)
  from insert_if_absent_transaction_spec [OF assms(1) this]
  show "\<exists>u. pg_uuid P (md_id md) = Some u \<and> catalog t' = (catalog t)(u \<mapsto> (row_of M md u 1, md_shard_locations md))"
    by (auto simp: catalog_replaced)
qed

text \<open>
  Removing an object removes its row and all its locations and nothing else, and reports
  whether there was one.
\<close>

theorem remove_metadata_exact:
  assumes "tables_ok P t" and "MetadataStore_remove P t oid = (Inr removed, t')"
  shows "\<exists>u. pg_uuid P oid = Some u \<and> (removed \<longleftrightarrow> catalog t u \<noteq> None) \<and> catalog t' = (catalog t)(u := None) \<and>
    (\<forall>l\<in>set (t_locations t'). lr_object_id l \<noteq> u)"
proof -
  obtain n where n: "sql_remove P t oid = Inr (n, t')" "removed = (0 < n)"
    using assms(2) by (auto simp: MetadataStore_remove_def commit_Inr split: sum.splits prod.splits)
  obtain u where u: "pg_uuid P oid = Some u" "0 < n \<longleftrightarrow> object_at t u \<noteq> None" "catalog t' = (catalog t)(u := None)"
    using remove_transaction_spec [OF assms(1) n(1)] by blast
  have "\<forall>l\<in>set (t_locations t'). lr_object_id l \<noteq> u" using n(1) u(1) by (auto simp: sql_remove_def with_uuid_Inr)
  then show ?thesis using u n(2) by (auto simp: catalog_def)
qed

text \<open>
  C38: The single joined query of \<open>list\<close>, folded row by row, gives every object once, in id order,
  each exactly as \<open>get\<close> gives it.
\<close>

theorem list_agrees_with_get:
  assumes "tables_ok P t" and "reads_ok P t" and "MetadataStore_list P M t = Inr mds"
  shows "map md_id mds = map or_id (sort_key or_id (t_objects t)) \<and>
    (\<forall>md\<in>set mds. MetadataStore_get P M t (md_id md) = Inr (Some md))"
proof -
  let ?rs = "sort_key or_id (t_objects t)"
  have l: "list_all2 (\<lambda>r md. bind_res (row_to_object_metadata M r)
     (\<lambda>md. Inr (md\<lparr>md_shard_locations := locations_at t (or_id r)\<rparr>)) = Inr md) ?rs mds"
    by (rule list_catalog [OF assms(1,3)])
  then have "list_all2 (\<lambda>r md. md_id md = or_id r) ?rs mds"
    by (rule list_all2_mono) (auto dest: row_to_id)
  then have ids: "map md_id mds = map or_id ?rs" by (induction rule: list_all2_induct) auto
  have "MetadataStore_get P M t (md_id md) = Inr (Some md)" if md: "md \<in> set mds" for md
  proof -
    obtain i where i: "i < length mds" "md = mds ! i" using md by (metis in_set_conv_nth)
    define r where "r = ?rs ! i"
    have "i < length ?rs" using list_all2_lengthD [OF l] i(1) by simp
    then have "r \<in> set ?rs" unfolding r_def by (rule nth_mem)
    then have r: "r \<in> set (t_objects t)" by simp
    have b: "bind_res (row_to_object_metadata M r) (\<lambda>md. Inr (md\<lparr>md_shard_locations := locations_at t (or_id r)\<rparr>)) = Inr md"
      using list_all2_nthD2 [OF l i(1)] by (simp add: r_def i(2))
    then have id: "md_id md = or_id r" by (auto dest: row_to_id)
    have o: "object_at t (or_id r) = Some r"
      using find_row [OF _ r] assms(1) by (simp add: object_at_def tables_ok_def)
    then have u: "pg_uuid P (or_id r) = Some (or_id r)" using object_at_ok [OF assms(1)] by blast
    show ?thesis using get_catalog [OF assms(1) u assms(2), of M] b
      by (auto simp: id o catalog_def)
  qed
  with ids show ?thesis by blast
qed

text \<open>
  C25: A commit that was fenced on a version cannot be repeated: after one conditional put with
  an expected version succeeded, every later one for that object with the same expected version
  fails, whatever puts, conditional puts and inserts happen in between.
\<close>

theorem conditional_put_once:
  assumes "postgres_ok P" and "tables_ok P t" and "conditional_put P M t md v = (Inr True, t1)"
    and "(store_write P M)\<^sup>*\<^sup>* t1 t2" and "pg_uuid P (md_id md') = pg_uuid P (md_id md)"
  shows "fst (conditional_put P M t2 md' v) \<noteq> Inr True"
  using fence.stale_cas_fails [of P t M md v t1 t2 md'] assms by blast

definition oid0 :: string where
  "oid0 = ''00000000-0000-0000-0000-00000000000a''"

definition md0 :: object_metadata where
  "md0 = \<lparr>md_id = oid0, md_size = 3, md_checksum = ''c0'',
     md_erasure = \<lparr>data_shards = 2, parity_shards = 1, shard_size = 2\<rparr>,
     md_shard_locations = [''n:1/o/7/0'', ''n:1/o/7/1''], md_encrypted_dek = [1], md_kek_id = ''k'', md_version = 0\<rparr>"

abbreviation md_other :: object_metadata where
  "md_other \<equiv> md0\<lparr>md_checksum := ''c1'', md_encrypted_dek := [2]\<rparr>"

abbreviation run_put :: "tables \<Rightarrow> object_metadata \<Rightarrow> tables" where
  "run_put t md \<equiv> snd (MetadataStore_put ref_pg ref_msgpack t md)"

text \<open>
  The fence does not survive a removal: a version that was read, removed and put again is
  accepted, although the object is another one. The version starts over at 1.
\<close>

theorem version_fence_aba:
  "let t1 = run_put init_schema md0;
       t2 = run_put (snd (MetadataStore_remove ref_pg t1 oid0)) md_other;
       (r, t3) = conditional_put ref_pg ref_msgpack t2 md0 1
   in version_at t1 oid0 = Some 1 \<and> map_option or_checksum (object_at t2 oid0) = Some ''c1'' \<and>
      r = Inr True \<and> map_option or_checksum (object_at t3 oid0) = Some ''c0''"
  by code_simp

text \<open>
  \<open>get\<close> reads the row and the locations in two statements of a read-committed transaction:
  a put that commits in between makes it return the old key and checksum with the new locations,
  a combination no writer ever stored.
\<close>

theorem get_torn_read:
  "let t1 = run_put init_schema md0;
       t2 = run_put t1 (md_other\<lparr>md_shard_locations := [''m:2/o/8/0'', ''m:2/o/8/1'']\<rparr>)
   in MetadataStore_get_between ref_pg ref_msgpack t1 t2 oid0 =
        Inr (Some (md0\<lparr>md_version := 1, md_shard_locations := [''m:2/o/8/0'', ''m:2/o/8/1'']\<rparr>))"
  by code_simp

section \<open>Witnesses\<close>

lemma tables_ok_empty: "tables_ok P init_schema"
  by (simp add: tables_ok_def init_schema_def)

definition tables1 :: tables where
  "tables1 = run_put init_schema md0"

lemma put_md0: "MetadataStore_put ref_pg ref_msgpack init_schema md0 = (Inr (), tables1)"
  unfolding tables1_def by code_simp

lemma tables_ok1: "tables_ok ref_pg tables1"
  by (rule store_write_ok [OF postgres_ok_ref tables_ok_empty write_put [OF put_md0]])

lemma oid0_uuid: "pg_uuid ref_pg oid0 = Some oid0" "md_id md0 = oid0"
  by code_simp+

lemma catalog_invariant_witness: "tables_ok ref_pg tables1"
proof -
  have "catalog_step ref_pg ref_msgpack init_schema tables1"
    by (rule step_write [OF write_put [OF put_md0]])
  then show ?thesis by (intro catalog_invariant [OF postgres_ok_ref, of ref_msgpack]) blast
qed

lemma put_get_metadata_witness:
  "MetadataStore_get ref_pg ref_msgpack tables1 ''00000000-0000-0000-0000-00000000000A'' =
     Inr (Some (md0\<lparr>md_id := oid0, md_version := next_version init_schema oid0\<rparr>))"
proof -
  have "pg_uuid ref_pg ''00000000-0000-0000-0000-00000000000A'' = Some oid0" by code_simp
  then show ?thesis
    using put_get_metadata [OF tables_ok_empty msgpack_ok_ref postgres_ok_ref put_md0 reads_ok_ref, of oid0] oid0_uuid
    by simp
qed

lemma put_all_or_nothing_witness:
  "tables1 = init_schema \<or> (\<exists>u. pg_uuid ref_pg (md_id md0) = Some u \<and> t_nodes tables1 = t_nodes init_schema \<and>
    catalog tables1 = (catalog init_schema)(u \<mapsto>
      (row_of ref_msgpack md0 u (next_version init_schema u), md_shard_locations md0)))"
  by (rule put_all_or_nothing [OF tables_ok_empty put_md0])

lemma conditional_put_fenced_witness:
  "\<exists>u. pg_uuid ref_pg (md_id md_other) = Some u \<and> version_at tables1 u = Some 1 \<and>
     catalog (snd (conditional_put ref_pg ref_msgpack tables1 md_other 1)) =
       (catalog tables1)(u \<mapsto> (row_of ref_msgpack md_other u (1 + 1), md_shard_locations md_other))"
proof -
  have f: "fst (conditional_put ref_pg ref_msgpack tables1 md_other 1) = Inr True"
    unfolding tables1_def by code_simp
  show ?thesis using conditional_put_fenced [OF tables_ok1 surjective_pairing, of ref_msgpack md_other 1]
    unfolding f by simp
qed

lemma insert_if_absent_no_clobber_witness:
  "snd (insert_if_absent ref_pg ref_msgpack tables1 md_other) = tables1"
proof -
  have "object_at tables1 oid0 \<noteq> None" unfolding tables1_def by code_simp
  then obtain x where "catalog tables1 oid0 = Some x" by (auto simp: catalog_def)
  then show ?thesis
    using insert_if_absent_no_clobber [OF tables_ok1 surjective_pairing, of md_other ref_msgpack] oid0_uuid by simp
qed

lemma remove_metadata_exact_witness:
  "\<exists>u. pg_uuid ref_pg oid0 = Some u \<and> (True \<longleftrightarrow> catalog tables1 u \<noteq> None) \<and>
     catalog init_schema = (catalog tables1)(u := None) \<and> (\<forall>l\<in>set (t_locations init_schema). lr_object_id l \<noteq> u)"
proof -
  have "MetadataStore_remove ref_pg tables1 oid0 = (Inr True, init_schema)" unfolding tables1_def by code_simp
  then show ?thesis by (rule remove_metadata_exact [OF tables_ok1])
qed

lemma list_agrees_with_get_witness:
  "MetadataStore_get ref_pg ref_msgpack tables1 oid0 = Inr (Some (md0\<lparr>md_version := 1\<rparr>)) \<and>
   [oid0] = map or_id (sort_key or_id (t_objects tables1))"
proof -
  have "MetadataStore_list ref_pg ref_msgpack tables1 = Inr [md0\<lparr>md_version := 1\<rparr>]"
    unfolding tables1_def by code_simp
  from list_agrees_with_get [OF tables_ok1 reads_ok_ref this] show ?thesis by (simp add: oid0_uuid)
qed

lemma conditional_put_once_witness:
  "fst (conditional_put ref_pg ref_msgpack
     (snd (conditional_put ref_pg ref_msgpack tables1 md_other 1)) md0 1) \<noteq> Inr True"
proof -
  have f: "fst (conditional_put ref_pg ref_msgpack tables1 md_other 1) = Inr True"
    unfolding tables1_def by code_simp
  have "conditional_put ref_pg ref_msgpack tables1 md_other 1 =
      (Inr True, snd (conditional_put ref_pg ref_msgpack tables1 md_other 1))"
    using f by (metis prod.collapse)
  then show ?thesis
    by (rule conditional_put_once [OF postgres_ok_ref tables_ok1 _ rtranclp.rtrancl_refl]) simp
qed

end
