(* ===== verification/Crypto_Properties.thy ===== *)
theory Crypto_Properties
  imports Crypto Reference_Node
begin

text \<open>
  What the encryption layer and the key file guarantee, with witnesses on a reference cipher
  (\<open>ref_botan\<close>: an unencrypted text with a keyed 16-byte tag).
\<close>

section \<open>Reference libraries\<close>

definition ref_tag :: "bytes \<Rightarrow> bytes \<Rightarrow> bytes \<Rightarrow> bytes" where
  "ref_tag k n a = take 16 (a @ n @ k @ replicate 16 0)"

definition ref_botan :: "nat botan" where
  "ref_botan = \<lparr>
     sha256 = (\<lambda>b. take 32 (b @ replicate 32 0)), nonce_length = 12,
     gcm_encrypt = (\<lambda>k n a p. Some (p @ ref_tag k n a)),
     gcm_decrypt = (\<lambda>k n a c. if 16 \<le> length c \<and> drop (length c - 16) c = ref_tag k n a
                             then Plaintext (take (length c - 16) c) else Integrity_Failure),
     encapsulated_key_length = (\<lambda>k. 4),
     kem_encrypt = (\<lambda>k seed. let e = take 4 (seed @ replicate 4 0) in Some (e, e @ replicate 28 (of_nat k))),
     kem_decrypt = (\<lambda>k e. Some (e @ replicate 28 (of_nat k))),
     pem_encode = to_string, pem_load = (\<lambda>s. Some (Some (digits_value s)))\<rparr>"

lemma length_ref_tag [simp]: "length (ref_tag k n a) = 16"
  by (simp add: ref_tag_def)

lemma gcm_ok_ref: "gcm_ok ref_botan"
  unfolding gcm_ok_def
proof (intro conjI allI impI)
  fix k n a p c
  show "gcm_decrypt ref_botan k n a c = Plaintext p" "length c = length p + 16"
    if "gcm_encrypt ref_botan k n a p = Some c" using that by (auto simp: ref_botan_def)
  show "gcm_encrypt ref_botan k n a p = Some c" if "gcm_decrypt ref_botan k n a c = Plaintext p"
    using that by (auto simp: ref_botan_def split: if_splits) (metis append_take_drop_id)
qed

lemma kem_ok_ref: "kem_ok ref_botan"
  by (auto simp: kem_ok_def ref_botan_def Let_def)

lemma pem_ok_ref: "pem_ok ref_botan"
  by (simp add: pem_ok_def ref_botan_def)

definition ref_os :: os where
  "ref_os = \<lparr>os_parent = (\<lambda>p. []), os_can_mkdir = (\<lambda>d. True), os_can_open = (\<lambda>fs p. True), os_write = (\<lambda>s. s)\<rparr>"

definition empty_fs :: file_system where
  "empty_fs = \<lparr>fs_file = (\<lambda>p. None), fs_dir = (\<lambda>d. False), fs_perms = (\<lambda>p. 0)\<rparr>"

section \<open>Properties\<close>

text \<open>
  C31: Shards decrypt to what was encrypted, with their indices and in order, whether or not
  decryption is best effort.
\<close>

theorem decrypt_encrypt_shards:
  assumes "gcm_ok B" and "encrypt_shards B nonces 0 shards key = Inr es"
  shows "decrypt_shards B es key best_effort = Inr shards"
  using assms by (rule decrypt_encrypt_loop)

text \<open>
  C32: Best-effort decryption never fails, and every shard it returns is authentic: its bytes,
  encrypted under the key with that shard's nonce and the returned index as associated data, give
  exactly the stored ciphertext. A shard whose index was altered passes only if it verifies as such.
\<close>

theorem decrypt_best_effort_authentic:
  assumes "gcm_ok B"
  shows "\<exists>ps. decrypt_shards B es key True = Inr ps \<and> subseq (map ps_index ps) (map es_index es) \<and>
    (\<forall>p\<in>set ps. \<exists>e\<in>set es. es_index e = ps_index p \<and>
       gcm_encrypt B key (es_nonce e) (index_aad (ps_index p)) (ps_bytes p) = Some (es_ciphertext e))"
proof (intro exI conjI ballI)
  show "decrypt_shards B es key True = Inr (List.map_filter (opened B key) es)" by (rule decrypt_best_effort)
  show "subseq (map ps_index (List.map_filter (opened B key) es)) (map es_index es)"
    by (induction es) (auto simp: List.map_filter_simps opened_def split: gcm_result.splits)
  fix p
  assume "p \<in> set (List.map_filter (opened B key) es)"
  then obtain e where "e \<in> set es" "opened B key e = Some p" by (auto simp: List.map_filter_def)
  then show "\<exists>e\<in>set es. es_index e = ps_index p \<and>
      gcm_encrypt B key (es_nonce e) (index_aad (ps_index p)) (ps_bytes p) = Some (es_ciphertext e)"
    using gcm_tidy [OF assms] by (fastforce simp: opened_def split: gcm_result.splits)
qed

text \<open>
  A wrapped data key unwraps under the same key-encryption key.
\<close>

theorem decrypt_encrypt_dek:
  assumes "gcm_ok B" and "kem_ok B" and "length nonce = nonce_length B" and "length dek = 32"
    and "encrypt_dek B seed nonce dek kek = Inr wrapped"
  shows "decrypt_dek B wrapped kek = Inr dek"
  using assms by (rule decrypt_dek_wrapped)

text \<open>
  C33: A saved key ring loads back: the same keys under the same ids, the same active id, in a
  file only its owner can read, provided the text reached the disk.
\<close>

theorem kek_file_roundtrip:
  assumes "pem_ok B" and "json_ok J" and "order_ok ord" and "distinct (map fst keys)"
    and "active_id \<in> fst ` set keys" and "\<forall>s. os_write S s = s"
    and "save_kek_file B J S ord fs path keys active_id = (Inr (), fs')"
  shows "\<exists>keys'. load_kek_file B J fs' path = Inr (keys', active_id) \<and> map_of keys' = map_of keys \<and>
    fs_perms fs' path = 384"
proof -
  let ?ring = "um_iter ord keys"
  obtain content where t: "json_dump J (kek_json B ord keys active_id) = Some content"
    "fs_file fs' path = Some content" "fs_perms fs' path = 384"
    using assms(6,7) by (auto simp: save_kek_file_def Let_def split: if_splits option.splits)
  have p: "json_parse J content = Some (kek_json B ord keys active_id)" using assms(2) t(1) by (simp add: json_ok_def)
  have r: "set ?ring = set keys" "distinct (map fst ?ring)" using um_iter_set [OF assms(3,4)] by auto
  have m: "map_of ?ring = map_of keys" using r assms(4) by (intro map_of_eqI) auto
  have "load_keys B (map (\<lambda>(i, key). JObj [(''id'', JStr i), (''pem'', JStr (pem_encode B key))]) ?ring) [] = Inr ([] @ ?ring)"
    using r(2) by (intro load_keys_saved [OF assms(1)]) simp
  moreover have "map_of ?ring active_id \<noteq> None" unfolding m using assms(5) by (simp add: map_of_eq_None_iff)
  ultimately have "load_kek_file B J fs' path = Inr (?ring, active_id)"
    by (simp add: load_kek_file_def t(2) p kek_json_def)
  with m t(3) show ?thesis by blast
qed

text \<open>
  The stream is never checked: when the text does not reach the disk, saving the key ring
  still reports success, and the ring cannot be loaded again.
\<close>

theorem kek_file_silent_loss:
  "let (r, fs) = save_kek_file ref_botan ref_json (ref_os\<lparr>os_write := \<lambda>s. []\<rparr>) (\<lambda>ks. ks) empty_fs ''kek'' [(''k'', 5)] ''k''
   in r = Inr () \<and> \<not> is_ok (load_kek_file ref_botan ref_json fs ''kek'')"
  by code_simp

section \<open>Witnesses\<close>

definition shards2 :: "plain_shard list" where
  "shards2 = [\<lparr>ps_index = 0, ps_bytes = [1]\<rparr>, \<lparr>ps_index = 1, ps_bytes = [2]\<rparr>]"

definition cipher2 :: "encrypted_shard list" where
  "cipher2 = [\<lparr>es_index = 0, es_nonce = [7], es_ciphertext = [1] @ ref_tag [9] [7] (index_aad 0)\<rparr>,
     \<lparr>es_index = 1, es_nonce = [7], es_ciphertext = [2] @ ref_tag [9] [7] (index_aad 1)\<rparr>]"

lemma decrypt_encrypt_shards_witness: "decrypt_shards ref_botan cipher2 [9] False = Inr shards2"
proof -
  have "encrypt_shards ref_botan (\<lambda>i. [7]) 0 shards2 [9] = Inr cipher2"
    by (simp add: shards2_def cipher2_def ref_botan_def)
  then show ?thesis by (rule decrypt_encrypt_shards [OF gcm_ok_ref])
qed

lemma decrypt_best_effort_authentic_witness:
  "\<exists>ps. decrypt_shards ref_botan cipher2 [9] True = Inr ps \<and> subseq (map ps_index ps) (map es_index cipher2) \<and>
    (\<forall>p\<in>set ps. \<exists>e\<in>set cipher2. es_index e = ps_index p \<and>
       gcm_encrypt ref_botan [9] (es_nonce e) (index_aad (ps_index p)) (ps_bytes p) = Some (es_ciphertext e))"
  by (rule decrypt_best_effort_authentic [OF gcm_ok_ref])

lemma decrypt_encrypt_dek_witness:
  "decrypt_dek ref_botan (projr (encrypt_dek ref_botan [] (replicate 12 3) (replicate 32 8) 5)) 5 = Inr (replicate 32 8)"
proof -
  have "encrypt_dek ref_botan [] (replicate 12 3) (replicate 32 8) 5 =
      Inr (projr (encrypt_dek ref_botan [] (replicate 12 3) (replicate 32 8) 5))"
    by (simp add: encrypt_dek_def ref_botan_def Let_def)
  then show ?thesis
    by (rule decrypt_encrypt_dek [OF gcm_ok_ref kem_ok_ref, rotated 2]) (simp_all add: ref_botan_def)
qed

lemma kek_file_roundtrip_witness:
  "\<exists>keys'. load_kek_file ref_botan ref_json
      (snd (save_kek_file ref_botan ref_json ref_os rev empty_fs ''kek'' [(''j'', 4), (''k'', 5)] ''k'')) ''kek'' = Inr (keys', ''k'') \<and>
    map_of keys' = map_of [(''j'', 4), (''k'', 5)] \<and>
    fs_perms (snd (save_kek_file ref_botan ref_json ref_os rev empty_fs ''kek'' [(''j'', 4), (''k'', 5)] ''k'')) ''kek'' = 384"
proof -
  have f: "fst (save_kek_file ref_botan ref_json ref_os rev empty_fs ''kek'' [(''j'', 4), (''k'', 5)] ''k'') = Inr ()"
    by code_simp
  show ?thesis
    by (rule kek_file_roundtrip [OF pem_ok_ref json_ok_ref order_ok_rev _ _ _
          surjective_pairing [of "save_kek_file ref_botan ref_json ref_os rev empty_fs ''kek'' [(''j'', 4), (''k'', 5)] ''k''", unfolded f]])
      (simp_all add: ref_os_def)
qed

end
