(* ===== verification/Client_Properties.thy ===== *)
theory Client_Properties
  imports Client_Lemmas Transport_Properties Metadata_Properties Crypto_Properties
begin

text \<open>
  What the storage client guarantees end to end, over the cluster of node servers, the catalog and
  the key ring.
\<close>

section \<open>Assumptions on the environment\<close>

text \<open>
  The libraries of a client behave as documented, its network is the cluster of node servers
  over \<open>D\<close> (LMDB) and \<open>T\<close> (request targets), and its maps are iterated in some order.
\<close>

definition libs_ok :: "('db cluster, 'key) libs \<Rightarrow> 'db lmdb \<Rightarrow> target_parser \<Rightarrow> bool" where
  "libs_ok L D T \<longleftrightarrow> lb_send L = cluster_send D (lb_json L) T \<and> lmdb_ok D \<and> json_ok (lb_json L) \<and> targets_ok T \<and>
     isal_ok (lb_isal L) \<and> gcm_ok (lb_botan L) \<and> kem_ok (lb_botan L) \<and> pem_ok (lb_botan L) \<and>
     msgpack_ok (lb_msgpack L) \<and> postgres_ok (lb_pg L) \<and> order_ok (lb_ord L)"

definition draws_ok :: "('c, 'key) libs \<Rightarrow> put_draws \<Rightarrow> bool" where
  "draws_ok L rnd \<longleftrightarrow> length (pd_dek rnd) = 32 \<and> length (pd_wrap_nonce rnd) = nonce_length (lb_botan L)"

text \<open>Registered addresses have no slash: the first slash of a location ends the address.\<close>

definition addresses_ok :: "tables \<Rightarrow> bool" where
  "addresses_ok t \<longleftrightarrow> (\<forall>n\<in>set (t_nodes t). CHR ''/'' \<notin> set (nr_address n) \<and> is_ok (get_node_client (nr_address n)))"

text \<open>
  \<open>survives s s' a l\<close>: what node \<open>a\<close> stored at \<open>l\<close> in state \<open>s\<close> is still there and reachable in \<open>s'\<close>.
\<close>

definition survives ::
    "'db lmdb \<Rightarrow> ('db cluster, 'key) client \<Rightarrow> ('db cluster, 'key) client \<Rightarrow> string \<Rightarrow> string \<Rightarrow> bool" where
  "survives D s s' a l \<longleftrightarrow> cluster_up D (sc_cluster s') a \<and>
     cluster_shards D (sc_cluster s') a l = cluster_shards D (sc_cluster s) a l"

text \<open>
  The shards in \<open>Up\<close> survive and are enough to decode. Of the others, the ones that changed and still
  parse do not open under the object's data key.
\<close>

definition enough_survive ::
    "('db cluster, 'key) libs \<Rightarrow> 'db lmdb \<Rightarrow> put_draws \<Rightarrow> erasure_spec \<Rightarrow> string list \<Rightarrow> string list \<Rightarrow>
     ('db cluster, 'key) client \<Rightarrow> ('db cluster, 'key) client \<Rightarrow> nat set \<Rightarrow> bool" where
  "enough_survive L D rnd spec nodes keys s1 s2 Up \<longleftrightarrow>
     Up \<subseteq> {..<total_shards spec} \<and> unat (data_shards spec) \<le> card Up \<and>
     (isal_invertible (lb_isal L) (total_shards spec) (unat (data_shards spec)) \<or> {..<unat (data_shards spec)} \<subseteq> Up) \<and>
     (\<forall>i\<in>Up. survives D s1 s2 (nodes ! i) (keys ! i)) \<and>
     (\<forall>i<total_shards spec. \<forall>e.
        cluster_shards D (sc_cluster s2) (nodes ! i) (keys ! i) \<noteq> cluster_shards D (sc_cluster s1) (nodes ! i) (keys ! i) \<and>
        decoded (lb_msgpack L) (cluster_shards D (sc_cluster s2) (nodes ! i)) (keys ! i) = Some e \<longrightarrow>
        opened (lb_botan L) (pd_dek rnd) e = None)"

lemma libs_ok_cluster: "libs_ok L D T \<Longrightarrow> cluster_ok D (lb_json L) T c"
  by (simp add: libs_ok_def cluster_ok_def)

section \<open>put and get\<close>

lemma put_get_durable:
  assumes "libs_ok L D T" and "draws_ok L rnd" and "tables_ok (lb_pg L) (sc_catalog s)"
    and "addresses_ok (sc_catalog s)" and "list_all plain_char object_id"
    and "StorageClient_put L rnd s object_id data spec = (Inr (), s1)"
    and "reads_ok (lb_pg L) (sc_catalog s1)"
  shows "\<exists>nodes keys. length nodes = total_shards spec \<and> distinct nodes \<and> length keys = total_shards spec \<and> distinct keys \<and>
    set nodes \<subseteq> nr_address ` set (t_nodes (sc_catalog s)) \<and>
    (\<forall>i<total_shards spec. cluster_shards D (sc_cluster s1) (nodes ! i) (keys ! i) \<noteq> None) \<and>
    (\<forall>s2 timing Up. sc_catalog s2 = sc_catalog s1 \<and> map_of (sc_ring s2) (sc_active s) = map_of (sc_ring s) (sc_active s) \<and>
       enough_survive L D rnd spec nodes keys s1 s2 Up
       \<longrightarrow> fst (StorageClient_get L timing s2 object_id) = Inr data)"
proof -
  note lib = assms(1) [unfolded libs_ok_def]
  have lsend: "lb_send L = cluster_send D (lb_json L) T" using lib by blast
  have lI: "isal_ok (lb_isal L)" and lG: "gcm_ok (lb_botan L)" and lK: "kem_ok (lb_botan L)"
    and lM: "msgpack_ok (lb_msgpack L)" and lP: "postgres_ok (lb_pg L)" and lO: "order_ok (lb_ord L)" using lib by blast+
  obtain elig p nodes where P: "list_nodes (lb_pg L) (sc_catalog s) = Inr elig"
    "put_prepare L rnd (sc_ring s) (sc_active s) object_id data spec = Inr p"
    "length (pr_serialized p) = total_shards spec" "length nodes = total_shards spec" "distinct nodes"
    "set nodes \<subseteq> set elig" "key_parts_ok object_id (pr_version p)"
    "\<forall>i<total_shards spec. cluster_shards D (sc_cluster s1) (nodes ! i) (shard_key_of object_id (pr_version p) i) =
       Some (pr_serialized p ! i)"
    "MetadataStore_put (lb_pg L) (lb_msgpack L) (sc_catalog s) (put_metadata object_id data spec p
      (map (\<lambda>i. location_of (nodes ! i) object_id (pr_version p) i) [0..<total_shards spec])) = (Inr (), sc_catalog s1)"
    using cluster.put_spec [OF lsend lI lO libs_ok_cluster [OF assms(1)] assms(5,6)] by blast
  let ?keys = "map (shard_key_of object_id (pr_version p)) [0..<total_shards spec]"
  have noslash: "\<forall>a\<in>set nodes. CHR ''/'' \<notin> set a" "\<forall>a\<in>set nodes. is_ok (get_node_client a)"
    using P(6) list_nodes_registered [OF P(1)] assms(4) by (auto simp: addresses_ok_def)
  have dk: "distinct ?keys" by (simp add: distinct_map inj_on_def shard_key_of_inj)
  have tx: "put_transaction (lb_pg L) (lb_msgpack L) (sc_catalog s) (put_metadata object_id data spec p
      (map (\<lambda>i. location_of (nodes ! i) object_id (pr_version p) i) [0..<total_shards spec])) = Inr (sc_catalog s1)"
    using P(9) by (auto simp: MetadataStore_put_def commit_Inr split: sum.splits)
  obtain u where u: "pg_uuid (lb_pg L) object_id = Some u"
    using put_transaction_spec [OF assms(3) tx] by (auto simp: put_metadata_def)
  have md: "MetadataStore_get (lb_pg L) (lb_msgpack L) (sc_catalog s1) object_id =
      Inr (Some ((put_metadata object_id data spec p (map (\<lambda>i. location_of (nodes ! i) object_id (pr_version p) i)
        [0..<total_shards spec]))\<lparr>md_id := u, md_version := next_version (sc_catalog s) u\<rparr>))"
    using u by (intro get_after_put [OF assms(3) lM lP P(9) assms(7)]) (simp_all add: put_metadata_def)
  have oid: "object_id \<noteq> []" using P(7) by (simp add: key_parts_ok_def)
  show ?thesis
  proof (rule exI [of _ nodes], rule exI [of _ ?keys], intro conjI allI impI)
    fix s2 timing Up
    assume h: "sc_catalog s2 = sc_catalog s1 \<and> map_of (sc_ring s2) (sc_active s) = map_of (sc_ring s) (sc_active s) \<and>
       enough_survive L D rnd spec nodes ?keys s1 s2 Up"
    note h = h [unfolded enough_survive_def]
    have key: "?keys ! i = shard_key_of object_id (pr_version p) i" if "i < total_shards spec" for i using that by simp
    have "\<exists>s'. StorageClient_get L timing s2 object_id = (Inr data, s') \<and> sc_catalog s' = sc_catalog s2 \<and>
        cluster_shards D (sc_cluster s') = cluster_shards D (sc_cluster s2)"
    proof (rule cluster.get_spec [OF lsend lI lG lK lM lO P(2) _ _ P(4) noslash(1) assms(5) oid _ _
          libs_ok_cluster [OF assms(1)]])
      show "MetadataStore_get (lb_pg L) (lb_msgpack L) (sc_catalog s2) object_id =
        Inr (Some ((put_metadata object_id data spec p (map (\<lambda>i. location_of (nodes ! i) object_id (pr_version p) i)
          [0..<total_shards spec]))\<lparr>md_id := u, md_version := next_version (sc_catalog s) u\<rparr>))" using md h by simp
      show "i < total_shards spec \<and> cluster_up D (sc_cluster s2) (nodes ! i) \<and> is_ok (get_node_client (nodes ! i)) \<and>
          cluster_shards D (sc_cluster s2) (nodes ! i) (shard_key_of object_id (pr_version p) i) = Some (pr_serialized p ! i)"
        if i: "i \<in> Up" for i
      proof -
        have n: "i < total_shards spec" using h i by blast
        have "survives D s1 s2 (nodes ! i) (?keys ! i)" using h i by blast
        then show ?thesis using n P(4,8) noslash(2) by (simp add: survives_def key)
      qed
      show "opened (lb_botan L) (pd_dek rnd) e = None"
        if i: "i < total_shards spec"
          "cluster_shards D (sc_cluster s2) (nodes ! i) (shard_key_of object_id (pr_version p) i) \<noteq> Some (pr_serialized p ! i)"
          "decoded (lb_msgpack L) (cluster_shards D (sc_cluster s2) (nodes ! i)) (shard_key_of object_id (pr_version p) i) = Some e"
        for i e
      proof -
        have "cluster_shards D (sc_cluster s2) (nodes ! i) (?keys ! i) \<noteq>
            cluster_shards D (sc_cluster s1) (nodes ! i) (?keys ! i)"
          using i P(8) by (auto simp: key)
        then show ?thesis using h i(1,3) key [OF i(1)] by metis
      qed
    qed (use h assms(2) in \<open>auto simp: draws_ok_def\<close>)
    then show "fst (StorageClient_get L timing s2 object_id) = Inr data" by auto
  next
    fix i assume "i < total_shards spec"
    then show "cluster_shards D (sc_cluster s1) (nodes ! i) (?keys ! i) \<noteq> None" using P(8) by simp
  qed (use P dk list_nodes_registered [OF P(1)] in simp_all)
qed

text \<open>
  C1: End-to-end durability. After a successful \<open>put\<close> there are \<open>k + m\<close> different registered
  nodes and different keys, one per shard, with something stored at each, such that every later \<open>get\<close> returns exactly the bytes that were put, as long as
  the catalog entry and the wrapping key are still there and at least \<open>k\<close> of the shards survive on
  reachable nodes. The other shards may be lost, unreachable or damaged: of a damaged one it is
  only assumed that it does not open under the object's key. The survivors must be decodable, which
  any \<open>k\<close> of them are only if the square submatrices of the generator are invertible
  (\<open>isal_invertible\<close>); without that, the \<open>k\<close> data shards must be among them.
\<close>

theorem put_then_get:
  assumes "libs_ok L D T" and "draws_ok L rnd" and "tables_ok (lb_pg L) (sc_catalog s)"
    and "addresses_ok (sc_catalog s)" and "list_all plain_char object_id"
    and "StorageClient_put L rnd s object_id data spec = (Inr (), s1)"
    and "reads_ok (lb_pg L) (sc_catalog s1)"
  shows "\<exists>nodes keys. length nodes = total_shards spec \<and> distinct nodes \<and> length keys = total_shards spec \<and> distinct keys \<and>
    set nodes \<subseteq> nr_address ` set (t_nodes (sc_catalog s)) \<and>
    (\<forall>i<total_shards spec. cluster_shards D (sc_cluster s1) (nodes ! i) (keys ! i) \<noteq> None) \<and>
    (\<forall>s2 timing Up. sc_catalog s2 = sc_catalog s1 \<and> map_of (sc_ring s2) (sc_active s) = map_of (sc_ring s) (sc_active s) \<and>
       enough_survive L D rnd spec nodes keys s1 s2 Up
       \<longrightarrow> fst (StorageClient_get L timing s2 object_id) = Inr data)"
  using assms by (rule put_get_durable)

section \<open>health and remove\<close>

text \<open>
  C29: A health report changes nothing and says exactly what could be seen. There is a set of shards,
  all of them stored, among them every stored shard whose node can be asked, such that the report
  gives their number as available and the other indices as missing, calls the object healthy exactly
  if they are at least \<open>k\<close>, and fully replicated exactly if they are \<open>k + m\<close>. So the report never
  overstates what is stored, and when every node can be asked it is exact.
\<close>

theorem health_sound:
  assumes "libs_ok L D T" and "MetadataStore_get (lb_pg L) (lb_msgpack L) (sc_catalog s) object_id = Inr (Some md)"
    and "\<forall>loc\<in>set (md_shard_locations md). location_plain loc" and "length (md_shard_locations md) < 2 ^ 32"
    and "StorageClient_health L s object_id = (Inr h, s')"
  defines "locs \<equiv> md_shard_locations md" and "k \<equiv> data_shards (md_erasure md)" and "m \<equiv> parity_shards (md_erasure md)"
  defines "stored \<equiv> {i. i < length locs \<and> stored_at (cluster_shards D (sc_cluster s)) (locs ! i)}"
    and "askable_shards \<equiv> {i. i < length locs \<and> askable (cluster_up D (sc_cluster s)) (locs ! i)}"
  shows "sc_catalog s' = sc_catalog s \<and> sc_ring s' = sc_ring s \<and>
    cluster_shards D (sc_cluster s') = cluster_shards D (sc_cluster s) \<and>
    (\<exists>seen. stored \<inter> askable_shards \<subseteq> seen \<and> seen \<subseteq> stored \<and>
       unat (oh_available_shards h) = card seen \<and>
       oh_missing_indices h = map word_of_nat (filter (\<lambda>i. i \<notin> seen) [0..<length locs]) \<and>
       (oh_healthy h \<longleftrightarrow> unat k \<le> card seen) \<and> (oh_fully_replicated h \<longleftrightarrow> card seen = unat (k + m))) \<and>
    oh_object_id h = object_id \<and> oh_total_shards h = k + m \<and> oh_required_shards h = k \<and>
    (oh_healthy h \<longrightarrow> unat k \<le> card stored) \<and>
    ((\<forall>loc\<in>set locs. askable (cluster_up D (sc_cluster s)) loc) \<longrightarrow>
      unat (oh_available_shards h) = card stored \<and>
      oh_missing_indices h = map word_of_nat (filter (\<lambda>i. i \<notin> stored) [0..<length locs]))"
proof -
  let ?N = "cluster_shards D (sc_cluster s)"
  obtain av ms c where l: "health_loop (lb_send L) (sc_cluster s) 0 locs 0 [] = ((av, ms), c)" by (metis prod.exhaust)
  have h: "h = \<lparr>oh_object_id = object_id, oh_total_shards = k + m,
      oh_available_shards = av, oh_required_shards = k, oh_missing_indices = ms,
      oh_healthy = (k \<le> av), oh_fully_replicated = (av = k + m)\<rparr>"
    "s' = s\<lparr>sc_cluster := c\<rparr>"
    using assms(2,5) l by (auto simp: StorageClient_health_def Let_def locs_def k_def m_def split: if_splits)
  have "lb_send L = cluster_send D (lb_json L) T" using assms(1) by (simp add: libs_ok_def)
  from cluster.health_loop_spec [OF libs_ok_cluster [OF assms(1)] assms(3) [folded locs_def] l [unfolded this]]
  obtain bs where c: "cluster_shards D c = ?N" and len: "length bs = length locs"
    and av: "av = 0 + word_of_nat (length (filter (\<lambda>b. b) bs))" and ms: "ms = [] @ missing_of 0 bs"
    and b: "list_all2 (\<lambda>b loc. b \<longrightarrow> stored_at ?N loc) bs locs"
      "list_all2 (\<lambda>b loc. askable (cluster_up D (sc_cluster s)) loc \<longrightarrow> b = stored_at ?N loc) bs locs"
    by blast
  let ?seen = "{i. i < length locs \<and> bs ! i}"
  have sub: "stored \<inter> askable_shards \<subseteq> ?seen" "?seen \<subseteq> stored"
    using b len by (auto simp: list_all2_conv_all_nth stored_def askable_shards_def)
  have fin: "finite stored" by (simp add: stored_def)
  have cnt: "length (filter (\<lambda>b. b) bs) = card ?seen"
    using length_filter_conv_card [of "\<lambda>b. b" bs] len by simp
  have "length (filter (\<lambda>b. b) bs) < 2 ^ 32" using assms(4) len length_filter_le [of "\<lambda>b. b" bs] by (simp add: locs_def)
  then have u: "unat av = card ?seen" using cnt by (simp add: av unsigned_of_nat take_bit_nat_eq_self)
  have "ms = map word_of_nat (filter (\<lambda>i. \<not> bs ! i) [0..<length locs])" by (simp add: ms missing_of_indices len)
  moreover have "filter (\<lambda>i. \<not> bs ! i) [0..<length locs] = filter (\<lambda>i. i \<notin> ?seen) [0..<length locs]"
    by (intro filter_cong) auto
  ultimately have mis: "ms = map word_of_nat (filter (\<lambda>i. i \<notin> ?seen) [0..<length locs])" by simp
  have flags: "oh_healthy h \<longleftrightarrow> unat k \<le> card ?seen" "oh_fully_replicated h \<longleftrightarrow> card ?seen = unat (k + m)"
    using u by (auto simp: h(1) word_le_nat_alt word_unat_eq_iff)
  have le: "card ?seen \<le> card stored" using card_mono [OF fin sub(2)] .
  have ex: "?seen = stored" if "\<forall>loc\<in>set locs. askable (cluster_up D (sc_cluster s)) loc"
    using sub that by (auto simp: stored_def askable_shards_def)
  have "\<exists>seen. stored \<inter> askable_shards \<subseteq> seen \<and> seen \<subseteq> stored \<and> unat av = card seen \<and>
      ms = map word_of_nat (filter (\<lambda>i. i \<notin> seen) [0..<length locs]) \<and>
      (oh_healthy h \<longleftrightarrow> unat k \<le> card seen) \<and> (oh_fully_replicated h \<longleftrightarrow> card seen = unat (k + m))"
    by (rule exI [of _ ?seen]) (use sub u mis flags in simp)
  moreover have "oh_healthy h \<longrightarrow> unat k \<le> card stored" using flags(1) le by simp
  moreover have "unat av = card stored \<and> ms = map word_of_nat (filter (\<lambda>i. i \<notin> stored) [0..<length locs])"
    if "\<forall>loc\<in>set locs. askable (cluster_up D (sc_cluster s)) loc" using u mis unfolding ex [OF that] by simp
  ultimately show ?thesis using c by (simp add: h)
qed

lemma remove_shards:
  assumes lib: "libs_ok L D T" and m: "parse_shard_locations locs = Inr m" and p: "\<forall>loc\<in>set locs. location_plain loc"
  shows "cluster_shards D (remove_from_nodes (lb_send L) (lb_ord L) c m) a l = cluster_shards D c a l \<or>
    cluster_shards D (remove_from_nodes (lb_send L) (lb_ord L) c m) a l = None \<and>
    (\<exists>loc\<in>set locs. split_location loc = Some (a, l))"
proof -
  have l: "lb_send L = cluster_send D (lb_json L) T" "order_ok (lb_ord L)" using lib by (simp_all add: libs_ok_def)
  note pm = parse_locations_Inr [OF m]
  have pp: "set (pushed m a) = {l. \<exists>loc\<in>set locs. split_location loc = Some (a, l)}" for a using pm by blast
  have pl: "\<forall>(a, ls)\<in>set m. \<forall>l\<in>set ls. plain_location l"
  proof clarify
    fix a ls l assume "(a, ls) \<in> set m" "l \<in> set ls"
    then have "l \<in> set (pushed m a)" using entries_pushed [of m a ls] pm by simp
    then show "plain_location l" using pm p by (force simp: location_plain_def)
  qed
  have "cluster_shards D (remove_from_nodes (lb_send L) (lb_ord L) c m) a l = cluster_shards D c a l \<or>
      l \<in> set (pushed m a) \<and> cluster_shards D (remove_from_nodes (lb_send L) (lb_ord L) c m) a l = None"
    unfolding l(1) using cluster.remove_from_nodes_spec [OF l(2) _ libs_ok_cluster [OF lib] pl refl] pm by blast
  then show ?thesis unfolding pp mem_Collect_eq by blast
qed

text \<open>
  C28: Removing an object takes its entry out of the catalog, keeps every other entry, and
  deletes nothing but the shards at the object's own locations, whatever the nodes answer.
\<close>

theorem remove_exact:
  assumes "libs_ok L D T" and "tables_ok (lb_pg L) (sc_catalog s)"
    and "MetadataStore_get (lb_pg L) (lb_msgpack L) (sc_catalog s) object_id = Inr (Some md)"
    and "\<forall>loc\<in>set (md_shard_locations md). location_plain loc"
    and "StorageClient_remove L s object_id = (Inr removed, s')"
  shows "\<exists>u. pg_uuid (lb_pg L) object_id = Some u \<and> catalog (sc_catalog s') = (catalog (sc_catalog s))(u := None) \<and>
    (removed \<longleftrightarrow> catalog (sc_catalog s) u \<noteq> None) \<and>
    (\<forall>a l. cluster_shards D (sc_cluster s') a l = cluster_shards D (sc_cluster s) a l \<or>
       cluster_shards D (sc_cluster s') a l = None \<and>
       (\<exists>loc\<in>set (md_shard_locations md). split_location loc = Some (a, l)))"
proof -
  let ?locs = "md_shard_locations md"
  have lib: "lb_send L = cluster_send D (lb_json L) T" "order_ok (lb_ord L)" using assms(1) by (simp_all add: libs_ok_def)
  obtain m where m: "parse_shard_locations ?locs = Inr m"
    "MetadataStore_remove (lb_pg L) (sc_catalog s) object_id = (Inr removed, sc_catalog s')"
    "sc_cluster s' = remove_from_nodes (cluster_send D (lb_json L) T) (lb_ord L) (sc_cluster s) m"
    using assms(3,5) by (auto simp: StorageClient_remove_def Let_def lib(1) split: if_splits sum.splits prod.splits)
  have c: "sc_cluster s' = remove_from_nodes (lb_send L) (lb_ord L) (sc_cluster s) m" using m(3) by (simp add: lib(1))
  have sh: "\<forall>a l. cluster_shards D (sc_cluster s') a l = cluster_shards D (sc_cluster s) a l \<or>
       cluster_shards D (sc_cluster s') a l = None \<and> (\<exists>loc\<in>set ?locs. split_location loc = Some (a, l))"
    unfolding c using remove_shards [OF assms(1) m(1) assms(4)] by blast
  obtain n where n: "sql_remove (lb_pg L) (sc_catalog s) object_id = Inr (n, sc_catalog s')" "removed = (0 < n)"
    using m(2) by (auto simp: MetadataStore_remove_def commit_Inr split: sum.splits prod.splits)
  show ?thesis using remove_transaction_spec [OF assms(2) n(1)] n(2) sh by (auto simp: catalog_def)
qed

section \<open>rotate\<close>

text \<open>
  C30: Rotation ends as soon as the generator draws an id that is not taken, makes the new key
  active and keeps every older key under its id, so that everything wrapped before stays readable.
\<close>

theorem rotate_keeps_keys:
  assumes "map_of (sc_ring s) (generateKekId (draws i)) = None"
  shows "\<exists>r s'. rotate L (Some key) draws s = Some (r, s') \<and> map_of (sc_ring s) (sc_active s') = None \<and>
    map_of (sc_ring s') = (map_of (sc_ring s))(sc_active s' \<mapsto> key) \<and>
    sc_catalog s' = sc_catalog s \<and> sc_cluster s' = sc_cluster s"
proof -
  obtain k where k: "fresh_kek_id draws (sc_ring s) 0 = Some k" "map_of (sc_ring s) k = None"
    using fresh_kek_id_ends [of "sc_ring s" draws i 0] assms by blast
  then show ?thesis
    by (auto simp: rotate_def Let_def map_of_um_emplace split: prod.splits)
qed

end
