(* ===== verification/Repair_Properties.thy ===== *)
theory Repair_Properties
  imports Repair_Lemmas Client_Properties
begin

text \<open>
  What \<open>repair\<close> guarantees: whatever happens it keeps the object readable, and when it reports
  success the object is whole again.
\<close>

lemma get_after_conditional_put:
  assumes "tables_ok P t" and "msgpack_ok M" and "postgres_ok P"
    and "conditional_put P M t md v = (r, t')" and "reads_ok P t'"
    and "pg_uuid P (md_id md) = Some u" and "pg_uuid P oid = Some u"
  shows "t' = t \<and> r \<noteq> Inr True \<or> version_at t u = Some v \<and>
    MetadataStore_get P M t' oid = Inr (Some (md\<lparr>md_id := u, md_version := v + 1\<rparr>)) \<and>
    (\<forall>w. w \<noteq> u \<longrightarrow> catalog t' w = catalog t w)"
proof (cases "t' = replaced t u (row_of M md u (v + 1)) (md_shard_locations md) \<and> version_at t u = Some v")
  case True
  have "store_write P M t t'" using assms(4) by (rule write_conditional)
  then have ok: "tables_ok P t'" by (rule store_write_ok [OF assms(3,1)])
  have c: "catalog t' = (catalog t)(u \<mapsto> (row_of M md u (v + 1), md_shard_locations md))"
    using True by (simp add: catalog_replaced)
  have "MetadataStore_get P M t' oid = Inr (Some (md\<lparr>md_id := u, md_version := v + 1\<rparr>))"
    using get_catalog [OF ok assms(7,5), of M] row_to_metadata_of [OF assms(2), of md u] by (simp add: c)
  moreover have "\<forall>w. w \<noteq> u \<longrightarrow> catalog t' w = catalog t w" by (simp add: c)
  ultimately show ?thesis using True by blast
next
  case False
  then have "t' = t" using conditional_put_cases [OF assms(1,4)] assms(6) by auto
  moreover have "r \<noteq> Inr True"
  proof
    assume "r = Inr True"
    then have "conditional_put_transaction P M t md v = Inr (True, t')"
      using assms(4) by (auto simp: conditional_put_def commit_Inr split: sum.splits prod.splits)
    from conditional_put_transaction_spec [OF assms(1) this] show False
      using False assms(6) by (auto simp: version_at_def)
  qed
  ultimately show ?thesis by blast
qed

lemma conditional_put_True:
  assumes "tables_ok P t" and "conditional_put P M t md v = (Inr True, t')"
  shows "\<exists>u. pg_uuid P (md_id md) = Some u \<and> version_at t u = Some v"
proof -
  have "conditional_put_transaction P M t md v = Inr (True, t')"
    using assms(2) by (auto simp: conditional_put_def commit_Inr split: sum.splits prod.splits)
  from conditional_put_transaction_spec [OF assms(1) this] show ?thesis by (auto simp: version_at_def)
qed

lemma get_canonical:
  assumes "tables_ok P t" and "MetadataStore_get P M t oid = Inr (Some md)"
  shows "\<exists>u. pg_uuid P oid = Some u \<and> md_id md = u \<and> pg_uuid P u = Some u \<and> version_at t u = Some (md_version md)"
proof -
  obtain u where u: "pg_uuid P oid = Some u" using get_Inr_reads [OF assms(2)] by blast
  have f: "filter (\<lambda>r. or_id r = u) (t_objects t) = (case object_at t u of None \<Rightarrow> [] | Some r \<Rightarrow> [r])"
    using filter_object_at assms(1) by (simp add: tables_ok_def)
  obtain r where r: "object_at t u = Some r" "md_id md = or_id r" "md_version md = or_version r"
    using assms(2) u
    by (auto simp: MetadataStore_get_def MetadataStore_get_between_def sql_get_object_metadata_def with_uuid_Inr f
        row_to_object_metadata_def split: list.splits if_splits option.splits)
  then show ?thesis using u object_at_Some assms(1) by (fastforce simp: version_at_def tables_ok_def)
qed

text \<open>
  What was readable from a location before stays readable where the shard is afterwards.\<close>

lemma holds_kept:
  assumes "writes_genuine L dek N N' plain oid ver" and "nodes_plain nodes" and "j < length nodes"
    and "holds L dek N (plain ! j) (location_of (nodes ! j) oid ver j)"
  shows "holds L dek N' (plain ! j) (location_of (nodes ! j) oid ver j)"
proof -
  let ?a = "nodes ! j" and ?l = "shard_key_of oid ver j"
  have d: "decoded_at M N'' (location_of ?a oid ver j) = decoded M (N'' ?a) ?l" for M N''
    using assms(2,3) by (simp add: decoded_at_def)
  show ?thesis
  proof (cases "N' ?a ?l = N ?a ?l")
    case True
    then show ?thesis using assms(4) decoded_same [of N' ?a ?l N] by (simp add: holds_def d)
  next
    case False
    then obtain i e where "?l = shard_key_of oid ver i" "decoded (lb_msgpack L) (N' ?a) ?l = Some e"
      "opened (lb_botan L) dek e = Some (plain ! i)" using assms(1) unfolding writes_genuine_def by blast
    then show ?thesis unfolding holds_def d by (metis shard_key_of_inj)
  qed
qed

lemma repair_outcome:
  assumes lib: "libs_ok L D T" and t: "addresses_ok (sc_catalog s)"
    and md: "MetadataStore_get (lb_pg L) (lb_msgpack L) (sc_catalog s) object_id = Inr (Some md)"
    and st: "object_state L (cluster_shards D (sc_cluster s)) (sc_ring s) md object_id ver nodes data dek plain"
    and r: "StorageClient_repair L rnd timing s object_id = (r, s')"
  defines "N \<equiv> cluster_shards D (sc_cluster s)" and "N' \<equiv> cluster_shards D (sc_cluster s')"
  shows "sc_ring s' = sc_ring s \<and> writes_genuine L dek N N' plain object_id ver \<and>
    (sc_catalog s' = sc_catalog s \<and> (r = Inr True \<longrightarrow> N' = N \<and> (\<forall>j<length nodes. N (nodes ! j) (shard_key_of object_id ver j) \<noteq> None)) \<or>
     (\<exists>nodes' rr. healed L dek N N' plain object_id ver nodes nodes' \<and>
        conditional_put (lb_pg L) (lb_msgpack L) (sc_catalog s) (md\<lparr>md_shard_locations := placed object_id ver nodes'\<rparr>)
          (md_version md) = (rr, sc_catalog s') \<and> (r = Inr True \<longrightarrow> rr = Inr True)))"
proof -
  have l: "lb_send L = cluster_send D (lb_json L) T" "isal_ok (lb_isal L)" "gcm_ok (lb_botan L)" "msgpack_ok (lb_msgpack L)"
    "order_ok (lb_ord L)" using lib by (simp_all add: libs_ok_def)
  have reg: "nodes_plain (map nr_address (t_nodes (sc_catalog s)))" using t by (auto simp: addresses_ok_def nodes_plain_def)
  have oid: "object_id \<noteq> []" using st by (simp add: object_state_def key_parts_ok_def)
  obtain rb failed c t' where b: "repair_body L rnd (sc_cluster s) (sc_ring s) (sc_catalog s) (sc_catalog s) object_id md = (rb, failed, c, t')"
    by (metis prod.exhaust)
  have s': "sc_cluster s' = c" "sc_catalog s' = t'" "sc_ring s' = sc_ring s" "r = Inr True \<longrightarrow> (\<exists>b. rb = Inr (True, b))"
    using r oid by (auto simp: StorageClient_repair_def repair_between_def md b split: sum.splits prod.splits)
  show ?thesis
    using cluster.repair_body_spec [OF l libs_ok_cluster [OF lib] st reg b] s' unfolding N_def N'_def by metis
qed

lemma repair_result:
  assumes lib: "libs_ok L D T" and t: "tables_ok (lb_pg L) (sc_catalog s)" "addresses_ok (sc_catalog s)"
    and md: "MetadataStore_get (lb_pg L) (lb_msgpack L) (sc_catalog s) object_id = Inr (Some md)"
    and st: "object_state L (cluster_shards D (sc_cluster s)) (sc_ring s) md object_id ver nodes data dek plain"
    and r: "StorageClient_repair L rnd timing s object_id = (r, s')" and rd: "reads_ok (lb_pg L) (sc_catalog s')"
  defines "N \<equiv> cluster_shards D (sc_cluster s)" and "N' \<equiv> cluster_shards D (sc_cluster s')"
  shows "\<exists>md' nodes'. MetadataStore_get (lb_pg L) (lb_msgpack L) (sc_catalog s') object_id = Inr (Some md') \<and>
    object_state L N' (sc_ring s') md' object_id ver nodes' data dek plain \<and>
    (\<forall>j<length nodes. holds L dek N (plain ! j) (md_shard_locations md ! j) \<longrightarrow>
       holds L dek N' (plain ! j) (md_shard_locations md' ! j)) \<and>
    writes_genuine L dek N N' plain object_id ver \<and>
    (\<forall>w. pg_uuid (lb_pg L) object_id \<noteq> Some w \<longrightarrow> catalog (sc_catalog s') w = catalog (sc_catalog s) w) \<and>
    (r = Inr True \<longrightarrow> healed L dek N N' plain object_id ver nodes nodes')"
proof -
  note o = st [unfolded object_state_def, folded N_def]
  from repair_outcome [OF lib t(2) md st r, folded N_def N'_def]
  have ring: "sc_ring s' = sc_ring s" and w: "writes_genuine L dek N N' plain object_id ver"
    and cases: "sc_catalog s' = sc_catalog s \<and> (r = Inr True \<longrightarrow> N' = N \<and> (\<forall>j<length nodes. N (nodes ! j) (shard_key_of object_id ver j) \<noteq> None)) \<or>
      (\<exists>nodes' rr. healed L dek N N' plain object_id ver nodes nodes' \<and>
        conditional_put (lb_pg L) (lb_msgpack L) (sc_catalog s) (md\<lparr>md_shard_locations := placed object_id ver nodes'\<rparr>)
          (md_version md) = (rr, sc_catalog s') \<and> (r = Inr True \<longrightarrow> rr = Inr True))" by blast+
  have kept: "?thesis" if "sc_catalog s' = sc_catalog s" "r = Inr True \<longrightarrow> healed L dek N N' plain object_id ver nodes nodes"
  proof (intro exI [of _ md] exI [of _ nodes] conjI allI impI)
    show "object_state L N' (sc_ring s') md object_id ver nodes data dek plain"
      using o unforged_kept [OF w] ring by (simp add: object_state_def)
    show "holds L dek N' (plain ! j) (md_shard_locations md ! j)"
      if "j < length nodes" "holds L dek N (plain ! j) (md_shard_locations md ! j)" for j
      using holds_kept [OF w _ that(1)] that o by simp
  qed (use md that w in simp_all)
  from cases show ?thesis
  proof (elim disjE exE conjE)
    fix nodes' rr
    assume h: "healed L dek N N' plain object_id ver nodes nodes'"
      and cp: "conditional_put (lb_pg L) (lb_msgpack L) (sc_catalog s) (md\<lparr>md_shard_locations := placed object_id ver nodes'\<rparr>)
          (md_version md) = (rr, sc_catalog s')" and rr: "r = Inr True \<longrightarrow> rr = Inr True"
    obtain u where u: "pg_uuid (lb_pg L) object_id = Some u" "md_id md = u" "pg_uuid (lb_pg L) u = Some u"
      using get_canonical [OF t(1) md] by blast
    have lib': "msgpack_ok (lb_msgpack L)" "postgres_ok (lb_pg L)" "isal_ok (lb_isal L)" using lib by (simp_all add: libs_ok_def)
    let ?md' = "md\<lparr>md_shard_locations := placed object_id ver nodes', md_id := u, md_version := md_version md + 1\<rparr>"
    consider "sc_catalog s' = sc_catalog s" "rr \<noteq> Inr True" |
      "MetadataStore_get (lb_pg L) (lb_msgpack L) (sc_catalog s') object_id = Inr (Some ?md')"
      "\<forall>w. w \<noteq> u \<longrightarrow> catalog (sc_catalog s') w = catalog (sc_catalog s) w"
      using get_after_conditional_put [OF t(1) lib'(1,2) cp rd _ u(1)] u by auto
    then show ?thesis
    proof cases
      case 1
      then show ?thesis using rr by (intro kept) auto
    next
      case 2
      show ?thesis
      proof (intro exI [of _ ?md'] exI [of _ nodes'] conjI allI impI)
        show "object_state L N' (sc_ring s') ?md' object_id ver nodes' data dek plain"
          using healed_state [OF st [folded N_def] w h lib'(3)] ring by simp
        show "holds L dek N' (plain ! j) (md_shard_locations ?md' ! j)"
          if "j < length nodes" "holds L dek N (plain ! j) (md_shard_locations md ! j)" for j
          using holds_kept [OF w _ that(1)] that o h by (auto simp: healed_def)
      qed (use 2 w u h in auto)
    qed
  qed (rule kept, auto simp: healed_def o)
qed

text \<open>
  C7: Whatever a repair returns, at whatever point it fails, even when the commit's outcome is
  unknown: the catalog's entry still describes the same object, every shard that was readable is
  readable where the entry says, everything written anywhere is a genuine shard of this object
  under its own key, and no other entry changes.
\<close>

theorem repair_keeps_object:
  assumes "libs_ok L D T" and "tables_ok (lb_pg L) (sc_catalog s)" and "addresses_ok (sc_catalog s)"
    and "MetadataStore_get (lb_pg L) (lb_msgpack L) (sc_catalog s) object_id = Inr (Some md)"
    and "object_state L (cluster_shards D (sc_cluster s)) (sc_ring s) md object_id ver nodes data dek plain"
    and "StorageClient_repair L rnd timing s object_id = (r, s')" and "reads_ok (lb_pg L) (sc_catalog s')"
  shows "\<exists>md' nodes'. MetadataStore_get (lb_pg L) (lb_msgpack L) (sc_catalog s') object_id = Inr (Some md') \<and>
    object_state L (cluster_shards D (sc_cluster s')) (sc_ring s') md' object_id ver nodes' data dek plain \<and>
    (\<forall>j<length nodes. holds L dek (cluster_shards D (sc_cluster s)) (plain ! j) (md_shard_locations md ! j) \<longrightarrow>
       holds L dek (cluster_shards D (sc_cluster s')) (plain ! j) (md_shard_locations md' ! j)) \<and>
    writes_genuine L dek (cluster_shards D (sc_cluster s)) (cluster_shards D (sc_cluster s')) plain object_id ver \<and>
    (\<forall>w. pg_uuid (lb_pg L) object_id \<noteq> Some w \<longrightarrow> catalog (sc_catalog s') w = catalog (sc_catalog s) w)"
  using repair_result [OF assms] by blast

text \<open>
  C6: When a repair reports success, the object is whole: each of its shards either answered the
  probe and is untouched where it was, or has been rebuilt and can be read from the location the
  catalog now gives.
\<close>

theorem repair_heals:
  assumes "libs_ok L D T" and "tables_ok (lb_pg L) (sc_catalog s)" and "addresses_ok (sc_catalog s)"
    and "MetadataStore_get (lb_pg L) (lb_msgpack L) (sc_catalog s) object_id = Inr (Some md)"
    and "object_state L (cluster_shards D (sc_cluster s)) (sc_ring s) md object_id ver nodes data dek plain"
    and "StorageClient_repair L rnd timing s object_id = (Inr True, s')" and "reads_ok (lb_pg L) (sc_catalog s')"
  shows "\<exists>md' nodes'. MetadataStore_get (lb_pg L) (lb_msgpack L) (sc_catalog s') object_id = Inr (Some md') \<and>
    object_state L (cluster_shards D (sc_cluster s')) (sc_ring s') md' object_id ver nodes' data dek plain \<and>
    healed L dek (cluster_shards D (sc_cluster s)) (cluster_shards D (sc_cluster s')) plain object_id ver nodes nodes'"
  using repair_result [OF assms] by blast

text \<open>
  C11: Repair is fenced: if the object's version changed between the read and the commit, nothing is
  committed and repair does not report a repair; the catalog stays as the other client left it.
\<close>

theorem repair_fenced:
  assumes "object_id \<noteq> []" and "tables_ok (lb_pg L) (sc_catalog s)" and "tables_ok (lb_pg L) t"
    and "MetadataStore_get (lb_pg L) (lb_msgpack L) (sc_catalog s) object_id = Inr (Some md)"
    and "pg_uuid (lb_pg L) object_id = Some u" and "version_at t u \<noteq> Some (md_version md)"
    and "repair_between L rnd timing s nodes_t t object_id = (r, s')"
  shows "sc_catalog s' = t \<and>
    (r = Inr True \<longrightarrow> fst (fst (probe_loop (lb_send L) (sc_cluster s) 0 (md_shard_locations md) [] [])) = [])"
proof -
  have nv: "\<not> (\<exists>w. pg_uuid (lb_pg L) (md_id md) = Some w \<and> version_at t w = Some (md_version md))"
    using get_canonical [OF assms(2,4)] assms(5,6) by auto
  have cp: "t' = t \<and> r \<noteq> Inr True"
    if p: "conditional_put (lb_pg L) (lb_msgpack L) t (md\<lparr>md_shard_locations := ls\<rparr>) (md_version md) = (r, t')" for ls r t'
  proof
    show "t' = t" using conditional_put_cases [OF assms(3) p] nv by auto
    show "r \<noteq> Inr True" using conditional_put_True [OF assms(3)] p nv by fastforce
  qed
  show ?thesis
    using assms(7,1)
    by (auto simp: repair_between_def assms(4) repair_body_def Let_def
        split: sum.splits prod.splits if_splits dest: cp)
qed

end
