(* ===== verification/Rebalance.thy ===== *)
theory Rebalance
  imports Repair
begin

text \<open>
  \<^verbatim>\<open>StorageClient::rebalance_object\<close> and \<^verbatim>\<open>StorageClient::rebalance\<close>: move shards towards the rendezvous
  placement, copying before the fenced commit, within the given budgets. As for \<open>repair\<close>, other
  clients may change the catalog between its accesses. Counts of type \<open>size_t\<close> are natural numbers:
  they count objects and shards held in memory.
\<close>

datatype rebalance_status =
  Balanced | Moved | DryRun | SkippedDegraded | SkippedUnsafe | SkippedConflict | SkippedNotFound | Errored

record rebalance_policy =
  rp_dry_run :: bool
  rp_max_moves :: nat

record rebalance_scope =
  sp_object_ids :: "string list"
  sp_max_objects :: nat
  sp_max_moves :: nat
  sp_dry_run :: bool

record rebalance_object_result =
  ro_object_id :: string
  ro_status :: rebalance_status
  ro_shards_total :: nat
  ro_shards_misplaced :: nat
  ro_shards_moved :: nat
  ro_detail :: string

record rebalance_report =
  rr_objects_scanned :: nat
  rr_objects_balanced :: nat
  rr_objects_moved :: nat
  rr_objects_skipped_degraded :: nat
  rr_objects_skipped_unsafe :: nat
  rr_objects_skipped_conflict :: nat
  rr_objects_not_found :: nat
  rr_objects_errored :: nat
  rr_shards_moved :: nat
  rr_dry_run :: bool
  rr_results :: "rebalance_object_result list"

section \<open>One object\<close>

text \<open>Step 4: the current node and key of each shard, or why the object is skipped as degraded.\<close>

fun current_placement :: "'c send \<Rightarrow> 'c \<Rightarrow> string list \<Rightarrow> (string + (string \<times> string) list) \<times> 'c" where
  "current_placement send c [] = (Inr [], c)"
| "current_placement send c (loc # rest) =
     (case split_location loc of
        None \<Rightarrow> (Inl ''malformed shard location'', c)
      | Some (node, key) \<Rightarrow>
          (case probe_shard send c node key of
             (False, c1) \<Rightarrow> (Inl ''shard missing or unreachable; repair first'', c1)
           | (True, c1) \<Rightarrow> (case current_placement send c1 rest of
               (Inl detail, c2) \<Rightarrow> (Inl detail, c2)
             | (Inr current, c2) \<Rightarrow> (Inr ((node, key) # current), c2))))"

record planned_move =
  mv_index :: nat
  mv_from :: string
  mv_to :: string
  mv_key :: string

definition misplaced_shards :: "string list \<Rightarrow> (string \<times> string) list \<Rightarrow> nat list" where
  "misplaced_shards intended current = filter (\<lambda>i. fst (current ! i) \<noteq> intended ! i) [0..<length current]"

definition plan_moves :: "string list \<Rightarrow> string list \<Rightarrow> (string \<times> string) list \<Rightarrow> nat \<Rightarrow> planned_move list" where
  "plan_moves intended healthy current max_moves =
     (let planned = map (\<lambda>i. \<lparr>mv_index = i, mv_from = fst (current ! i), mv_to = intended ! i, mv_key = snd (current ! i)\<rparr>)
            (filter (\<lambda>i. intended ! i \<in> set healthy) (misplaced_shards intended current))
      in if 0 < max_moves \<and> max_moves < length planned then take max_moves planned else planned)"

text \<open>Step 6: a shard that cannot be read is left out.\<close>

fun fetch_moves ::
    "'c send \<Rightarrow> 'c \<Rightarrow> planned_move list \<Rightarrow> placement_map \<Rightarrow> (placement_map \<times> planned_move list) \<times> 'c" where
  "fetch_moves send c [] m = ((m, []), c)"
| "fetch_moves send c (mv # rest) m =
     (case fetch_raw_shard send c (mv_from mv) (mv_key mv) of
        (None, c1) \<Rightarrow> fetch_moves send c1 rest m
      | (Some payload, c1) \<Rightarrow>
          (case fetch_moves send c1 rest (um_push m (mv_to mv) (mv_key mv, payload)) of
             ((m', fetched), c2) \<Rightarrow> ((m', mv # fetched), c2)))"

definition moved_locations :: "planned_move list \<Rightarrow> string list \<Rightarrow> string list" where
  "moved_locations moves locations = fold (\<lambda>mv ls. ls[mv_index mv := mv_to mv @ ''/'' @ mv_key mv]) moves locations"

definition object_result ::
    "string \<Rightarrow> nat \<Rightarrow> nat \<Rightarrow> rebalance_status \<Rightarrow> nat \<Rightarrow> string \<Rightarrow> rebalance_object_result" where
  "object_result object_id n misplaced status moved detail =
     \<lparr>ro_object_id = object_id, ro_status = status, ro_shards_total = n, ro_shards_misplaced = misplaced,
      ro_shards_moved = moved, ro_detail = detail\<rparr>"

text \<open>From the plan to the commit (steps 5 to 8).\<close>

definition rebalance_moves ::
    "('c, 'key) libs \<Rightarrow> rebalance_policy \<Rightarrow> 'c \<Rightarrow> tables \<Rightarrow> string \<Rightarrow> object_metadata \<Rightarrow> string list \<Rightarrow> string list \<Rightarrow>
     (string \<times> string) list \<Rightarrow> rebalance_object_result res \<times> 'c \<times> tables" where
  "rebalance_moves L policy c t object_id md intended healthy current =
     (let n = length current;
          misplaced = length (misplaced_shards intended current);
          planned = plan_moves intended healthy current (rp_max_moves policy);
          result = object_result object_id n misplaced
      in
      if misplaced = 0 then (Inr (result Balanced 0 ''already on intended placement''), c, t)
      else if planned = [] then (Inr (result Balanced 0 ''misplaced shards present but no eligible move now''), c, t)
      else if rp_dry_run policy then (Inr (result DryRun 0 (to_string (length planned) @ '' shard(s) would move'')), c, t)
      else (case fetch_moves (lb_send L) c planned [] of
        ((move_placement, fetched), c1) \<Rightarrow>
        if fetched = [] then (Inr (result SkippedDegraded 0 ''failed to read source shards''), c1, t)
        else (case apply_placement (lb_send L) (lb_ord L) c1 move_placement of
          (Inl e, c2) \<Rightarrow> (Inl e, c2, t)
        | (Inr _, c2) \<Rightarrow>
          (case conditional_put (lb_pg L) (lb_msgpack L) t
                  (md\<lparr>md_shard_locations := moved_locations fetched (md_shard_locations md)\<rparr>) (md_version md) of
            (Inl e, t') \<Rightarrow> (Inl e, c2, t')
          | (Inr False, t') \<Rightarrow> (Inr (result SkippedConflict 0 ''metadata version changed concurrently''), c2, t')
          | (Inr True, t') \<Rightarrow> (Inr (result Moved (length fetched)
              (''relocated '' @ to_string (length fetched) @ '' shard(s)'')), c2, t')))))"

definition rebalance_object_between ::
    "('c, 'key) libs \<Rightarrow> rebalance_policy \<Rightarrow> ('c, 'key) client \<Rightarrow> tables \<Rightarrow> tables \<Rightarrow> string \<Rightarrow>
     rebalance_object_result res \<times> ('c, 'key) client" where
  "rebalance_object_between L policy s nodes_t t object_id =
     (if object_id = [] then
        (Inl (InvalidArgument ''StorageClient::rebalance_object: object_id cannot be empty''), s)
      else case MetadataStore_get (lb_pg L) (lb_msgpack L) (sc_catalog s) object_id of
        Inl e \<Rightarrow> (Inl e, s)
      | Inr None \<Rightarrow> (Inr (object_result object_id 0 0 SkippedNotFound 0 ''object not found''), s\<lparr>sc_catalog := t\<rparr>)
      | Inr (Some md) \<Rightarrow>
        let n = total_shards (md_erasure md) in
        (case list_nodes (lb_pg L) nodes_t of
           Inl e \<Rightarrow> (Inl e, s\<lparr>sc_catalog := t\<rparr>)
         | Inr eligible \<Rightarrow>
           if length eligible < n then
             (Inr (object_result object_id n 0 SkippedUnsafe 0 ''fewer than k+m registered nodes''), s\<lparr>sc_catalog := t\<rparr>)
           else case healthy_nodes (lb_send L) (sc_cluster s) eligible of
             (healthy, c1) \<Rightarrow>
           if length (remdups healthy) < n then
             (Inr (object_result object_id n 0 SkippedUnsafe 0 ''fewer than k+m healthy nodes''),
              s\<lparr>sc_cluster := c1, sc_catalog := t\<rparr>)
           else if length (md_shard_locations md) \<noteq> n then
             (Inr (object_result object_id n 0 SkippedDegraded 0 ''shard location count does not match k+m''),
              s\<lparr>sc_cluster := c1, sc_catalog := t\<rparr>)
           else case hrw_intended_nodes object_id eligible n of
             Inl e \<Rightarrow> (Inl e, s\<lparr>sc_cluster := c1, sc_catalog := t\<rparr>)
           | Inr intended \<Rightarrow>
             (case current_placement (lb_send L) c1 (md_shard_locations md) of
                (Inl detail, c2) \<Rightarrow> (Inr (object_result object_id n 0 SkippedDegraded 0 detail),
                   s\<lparr>sc_cluster := c2, sc_catalog := t\<rparr>)
              | (Inr current, c2) \<Rightarrow>
                (case rebalance_moves L policy c2 t object_id md intended healthy current of
                   (r, c3, t') \<Rightarrow> (r, s\<lparr>sc_cluster := c3, sc_catalog := t'\<rparr>)))))"

definition rebalance_object ::
    "('c, 'key) libs \<Rightarrow> rebalance_policy \<Rightarrow> ('c, 'key) client \<Rightarrow> string \<Rightarrow>
     rebalance_object_result res \<times> ('c, 'key) client" where
  "rebalance_object L policy s object_id = rebalance_object_between L policy s (sc_catalog s) (sc_catalog s) object_id"

section \<open>Many objects\<close>

definition empty_report :: "bool \<Rightarrow> rebalance_report" where
  "empty_report dry_run = \<lparr>rr_objects_scanned = 0, rr_objects_balanced = 0, rr_objects_moved = 0,
     rr_objects_skipped_degraded = 0, rr_objects_skipped_unsafe = 0, rr_objects_skipped_conflict = 0,
     rr_objects_not_found = 0, rr_objects_errored = 0, rr_shards_moved = 0, rr_dry_run = dry_run, rr_results = []\<rparr>"

text \<open>The \<open>switch\<close> and \<open>results.push_back\<close>.\<close>

definition count_result :: "rebalance_report \<Rightarrow> rebalance_object_result \<Rightarrow> rebalance_report" where
  "count_result report r =
     (let report = (case ro_status r of
          Balanced \<Rightarrow> report\<lparr>rr_objects_balanced := rr_objects_balanced report + 1\<rparr>
        | Moved \<Rightarrow> report\<lparr>rr_objects_moved := rr_objects_moved report + 1,
            rr_shards_moved := rr_shards_moved report + ro_shards_moved r\<rparr>
        | SkippedDegraded \<Rightarrow> report\<lparr>rr_objects_skipped_degraded := rr_objects_skipped_degraded report + 1\<rparr>
        | SkippedUnsafe \<Rightarrow> report\<lparr>rr_objects_skipped_unsafe := rr_objects_skipped_unsafe report + 1\<rparr>
        | SkippedConflict \<Rightarrow> report\<lparr>rr_objects_skipped_conflict := rr_objects_skipped_conflict report + 1\<rparr>
        | SkippedNotFound \<Rightarrow> report\<lparr>rr_objects_not_found := rr_objects_not_found report + 1\<rparr>
        | DryRun \<Rightarrow> report
        | Errored \<Rightarrow> report)
      in report\<lparr>rr_results := rr_results report @ [r]\<rparr>)"

definition count_error :: "rebalance_report \<Rightarrow> string \<Rightarrow> exn \<Rightarrow> rebalance_report" where
  "count_error report object_id e =
     report\<lparr>rr_objects_errored := rr_objects_errored report + 1,
       rr_results := rr_results report @ [\<lparr>ro_object_id = object_id, ro_status = Errored, ro_shards_total = 0,
         ro_shards_misplaced = 0, ro_shards_moved = 0, ro_detail = ''error: '' @ exn_what e\<rparr>]\<rparr>"

text \<open>\<open>remaining\<close> only matters when the scope bounds the moves. Undefined behaviour is not caught.\<close>

fun rebalance_loop ::
    "('c, 'key) libs \<Rightarrow> rebalance_scope \<Rightarrow> ('c, 'key) client \<Rightarrow> nat \<Rightarrow> string list \<Rightarrow> rebalance_report \<Rightarrow>
     rebalance_report res \<times> ('c, 'key) client" where
  "rebalance_loop L scope s remaining [] report = (Inr report, s)"
| "rebalance_loop L scope s remaining (object_id # rest) report =
     (if 0 < sp_max_objects scope \<and> sp_max_objects scope \<le> rr_objects_scanned report then (Inr report, s)
      else if 0 < sp_max_moves scope \<and> remaining = 0 then (Inr report, s)
      else
        let report = report\<lparr>rr_objects_scanned := rr_objects_scanned report + 1\<rparr>;
            policy = \<lparr>rp_dry_run = sp_dry_run scope, rp_max_moves = (if 0 < sp_max_moves scope then remaining else 0)\<rparr>
        in case rebalance_object L policy s object_id of
             (Inl UndefinedBehaviour, s1) \<Rightarrow> (Inl UndefinedBehaviour, s1)
           | (Inl e, s1) \<Rightarrow> rebalance_loop L scope s1 remaining rest (count_error report object_id e)
           | (Inr r, s1) \<Rightarrow>
               rebalance_loop L scope s1
                 (if ro_status r = Moved \<and> 0 < sp_max_moves scope then remaining - min remaining (ro_shards_moved r) else remaining)
                 rest (count_result report r))"

definition rebalance ::
    "('c, 'key) libs \<Rightarrow> rebalance_scope \<Rightarrow> ('c, 'key) client \<Rightarrow> rebalance_report res \<times> ('c, 'key) client" where
  "rebalance L scope s =
     (case (if sp_object_ids scope \<noteq> [] then Inr (sp_object_ids scope)
            else bind_res (MetadataStore_list (lb_pg L) (lb_msgpack L) (sc_catalog s)) (\<lambda>mds. Inr (map md_id mds))) of
        Inl e \<Rightarrow> (Inl e, s)
      | Inr object_ids \<Rightarrow> rebalance_loop L scope s (sp_max_moves scope) object_ids (empty_report (sp_dry_run scope)))"

end
