(* ===== verification/Rebalance_Lemmas.thy ===== *)
theory Rebalance_Lemmas
  imports Repair_Properties Rebalance
begin

text \<open>
  What each step of \<open>rebalance_object\<close> does to the nodes and to the catalog.
\<close>

section \<open>The placement read from the catalog\<close>

definition well_placed :: "object_metadata \<Rightarrow> string \<Rightarrow> string \<Rightarrow> string list \<Rightarrow> bool" where
  "well_placed md oid ver nodes \<longleftrightarrow> key_parts_ok oid ver \<and> list_all plain_char oid \<and> list_all plain_char ver \<and>
     nodes_plain nodes \<and> md_shard_locations md = placed oid ver nodes"

definition current_of :: "string \<Rightarrow> string \<Rightarrow> string list \<Rightarrow> (string \<times> string) list" where
  "current_of oid ver nodes = map (\<lambda>i. (nodes ! i, shard_key_of oid ver i)) [0..<length nodes]"

lemma length_current_of [simp]: "length (current_of oid ver nodes) = length nodes"
  by (simp add: current_of_def)

lemma nth_current_of [simp]: "i < length nodes \<Longrightarrow> current_of oid ver nodes ! i = (nodes ! i, shard_key_of oid ver i)"
  by (simp add: current_of_def)

context shard_service
begin

lemma current_placement_spec:
  "ok c \<Longrightarrow> \<forall>loc\<in>set locs. location_plain loc \<Longrightarrow> current_placement send c locs = (r, c') \<Longrightarrow>
   ok c' \<and> shards c' = shards c \<and>
   (\<forall>current. r = Inr current \<longrightarrow> map Some current = map split_location locs \<and> (\<forall>(a, l)\<in>set current. shards c a l \<noteq> None))"
proof (induction locs arbitrary: c r c')
  case (Cons loc locs)
  show ?case
  proof (cases "split_location loc")
    case (Some x)
    obtain a l where x: "x = (a, l)" by (cases x)
    obtain b c1 where p: "probe_shard send c a l = (b, c1)" by fastforce
    have "plain_location l" using Cons.prems(2) Some x by (simp add: location_plain_def)
    note ps = probe_shard_spec [OF Cons.prems(1) this p]
    obtain r1 c2 where q: "current_placement send c1 locs = (r1, c2)" by fastforce
    have pl: "\<forall>loc\<in>set locs. location_plain loc" using Cons.prems(2) by simp
    note i = Cons.IH [OF conjunct1 [OF ps] pl q]
    show ?thesis using Cons.prems(3) Some x p q ps i by (auto split: sum.splits bool.splits)
  qed (use Cons.prems in auto)
qed auto

lemma current_placement_placed:
  assumes "ok c" and w: "well_placed md oid ver nodes"
    and "current_placement send c (md_shard_locations md) = (Inr current, c')"
  shows "ok c' \<and> shards c' = shards c \<and> current = current_of oid ver nodes"
proof -
  note w' = w [unfolded well_placed_def]
  have "\<forall>loc\<in>set (md_shard_locations md). location_plain loc" using w' placed_plain by metis
  note s = current_placement_spec [OF assms(1) this assms(3)]
  then have "map Some current = map split_location (placed oid ver nodes)" using w' by simp
  also have "\<dots> = map Some (current_of oid ver nodes)"
    using w' by (auto simp: placed_def current_of_def)
  finally have "current = current_of oid ver nodes" by (metis inj_Some map_injective)
  then show ?thesis using s by blast
qed

lemma fetch_moves_spec:
  "ok c \<Longrightarrow> \<forall>mv\<in>set ms. plain_location (mv_key mv) \<Longrightarrow> distinct (map fst m) \<Longrightarrow>
   fetch_moves send c ms m = ((m', fetched), c') \<Longrightarrow>
   ok c' \<and> shards c' = shards c \<and> subseq fetched ms \<and> distinct (map fst m') \<and>
   (\<forall>mv\<in>set fetched. shards c (mv_from mv) (mv_key mv) \<noteq> None) \<and>
   (\<forall>a. set (pushed m' a) = set (pushed m a) \<union>
      {(mv_key mv, the (shards c (mv_from mv) (mv_key mv))) |mv. mv \<in> set fetched \<and> mv_to mv = a})"
proof (induction ms arbitrary: c m m' fetched)
  case (Cons mv ms)
  obtain p c1 where f: "fetch_raw_shard send c (mv_from mv) (mv_key mv) = (p, c1)" by fastforce
  have "plain_location (mv_key mv)" using Cons.prems(2) by simp
  note fs = fetch_raw_shard_spec [OF Cons.prems(1) this f]
  have pl: "\<forall>mv\<in>set ms. plain_location (mv_key mv)" using Cons.prems(2) by simp
  show ?case
  proof (cases p)
    case None
    then have "fetch_moves send c1 ms m = ((m', fetched), c')" using Cons.prems(4) f by simp
    from Cons.IH [OF conjunct1 [OF fs] pl Cons.prems(3) this] show ?thesis using fs by auto
  next
    case (Some b)
    let ?m = "um_push m (mv_to mv) (mv_key mv, b)"
    obtain g where g: "fetch_moves send c1 ms ?m = ((m', g), c')" "fetched = mv # g"
      using Cons.prems(4) f Some by (auto split: prod.splits)
    have d: "distinct (map fst ?m)" using Cons.prems(3) by simp
    note i = Cons.IH [OF conjunct1 [OF fs] pl d g(1)]
    have b: "shards c (mv_from mv) (mv_key mv) = Some b" using fs Some by auto
    have "set (pushed m' a) = set (pushed m a) \<union>
      {(mv_key x, the (shards c (mv_from x) (mv_key x))) |x. x \<in> set fetched \<and> mv_to x = a}" for a
    proof -
      have "set (pushed m' a) = set (pushed ?m a) \<union>
          {(mv_key x, the (shards c (mv_from x) (mv_key x))) |x. x \<in> set g \<and> mv_to x = a}" using i fs by simp
      then show ?thesis unfolding g(2) using b by auto
    qed
    then show ?thesis using i fs b g(2) by simp
  qed
qed auto

end

section \<open>Moved shards\<close>

definition move_of :: "string \<Rightarrow> string \<Rightarrow> string list \<Rightarrow> string list \<Rightarrow> nat \<Rightarrow> planned_move" where
  "move_of oid ver nodes intended i =
     \<lparr>mv_index = i, mv_from = nodes ! i, mv_to = intended ! i, mv_key = shard_key_of oid ver i\<rparr>"

lemma move_of_sels [simp]:
  "mv_index (move_of oid ver nodes intended i) = i" "mv_from (move_of oid ver nodes intended i) = nodes ! i"
  "mv_to (move_of oid ver nodes intended i) = intended ! i" "mv_key (move_of oid ver nodes intended i) = shard_key_of oid ver i"
  by (simp_all add: move_of_def)

lemma misplaced_of [simp]:
  "misplaced_shards intended (current_of oid ver nodes) = filter (\<lambda>i. nodes ! i \<noteq> intended ! i) [0..<length nodes]"
  by (auto simp: misplaced_shards_def intro!: filter_cong)

lemma plan_moves_of:
  obtains js where "plan_moves intended healthy (current_of oid ver nodes) mx = map (move_of oid ver nodes intended) js"
    and "distinct js" and "\<forall>j\<in>set js. j < length nodes \<and> nodes ! j \<noteq> intended ! j \<and> intended ! j \<in> set healthy"
proof -
  define ks where "ks = filter (\<lambda>i. intended ! i \<in> set healthy) (misplaced_shards intended (current_of oid ver nodes))"
  define js where "js = (if 0 < mx \<and> mx < length ks then take mx ks else ks)"
  have sub: "set js \<subseteq> set ks" using set_take_subset [of mx ks] by (simp add: js_def)
  have k: "\<forall>i\<in>set ks. i < length nodes \<and> nodes ! i \<noteq> intended ! i \<and> intended ! i \<in> set healthy" by (auto simp: ks_def)
  have mk: "map (\<lambda>i. \<lparr>mv_index = i, mv_from = fst (current_of oid ver nodes ! i), mv_to = intended ! i,
      mv_key = snd (current_of oid ver nodes ! i)\<rparr>) ks = map (move_of oid ver nodes intended) ks"
    using k by (intro map_cong) (auto simp: move_of_def)
  have "plan_moves intended healthy (current_of oid ver nodes) mx =
     (let planned = map (move_of oid ver nodes intended) ks in if 0 < mx \<and> mx < length planned then take mx planned else planned)"
    unfolding plan_moves_def ks_def [symmetric] mk ..
  then have "plan_moves intended healthy (current_of oid ver nodes) mx = map (move_of oid ver nodes intended) js"
    by (simp add: js_def take_map)
  moreover have "distinct js" by (simp add: js_def ks_def)
  ultimately show thesis using that [of js] sub k by blast
qed

lemma moved_locations_of:
  "\<forall>j\<in>set js. j < length nodes \<Longrightarrow>
   moved_locations (map (move_of oid ver nodes0 intended) js) (placed oid ver nodes) =
     placed oid ver (moved js (map ((!) intended) js) nodes)"
proof (induction js arbitrary: nodes)
  case (Cons j js)
  have "(placed oid ver nodes)[j := intended ! j @ ''/'' @ shard_key_of oid ver j] = placed oid ver (nodes[j := intended ! j])"
    using Cons.prems placed_update [of j nodes oid ver "intended ! j"] by (simp add: location_of_def)
  then show ?case using Cons by (simp add: moved_locations_def move_of_def)
qed (simp add: moved_locations_def)

lemma moved_cases:
  assumes "distinct js" and "\<forall>j\<in>set js. j < length nodes"
  shows "moved js (map ((!) intended) js) nodes ! i = (if i \<in> set js then intended ! i else nodes ! i)"
proof (cases "i \<in> set js")
  case True
  then obtain q where "q < length js" "i = js ! q" by (auto simp: in_set_conv_nth)
  then show ?thesis using moved_nth [OF _ assms, of "map ((!) intended) js" q] by simp
qed (simp add: moved_other)

text \<open>
  Moving to the intended nodes takes exactly the moved shards off the misplaced ones.\<close>

lemma misplaced_after:
  assumes "distinct js" and "\<forall>j\<in>set js. j < length nodes \<and> nodes ! j \<noteq> intended ! j"
  shows "card {j. j < length nodes \<and> moved js (map ((!) intended) js) nodes ! j \<noteq> intended ! j} + length js =
    card {j. j < length nodes \<and> nodes ! j \<noteq> intended ! j}"
proof -
  have js: "\<forall>j\<in>set js. j < length nodes" using assms by blast
  let ?A = "{j. j < length nodes \<and> nodes ! j \<noteq> intended ! j}"
  have "{j. j < length nodes \<and> moved js (map ((!) intended) js) nodes ! j \<noteq> intended ! j} = ?A - set js"
    by (auto simp: moved_cases [OF assms(1) js])
  moreover have "set js \<subseteq> ?A" using assms(2) by auto
  ultimately show ?thesis
    using card_Diff_subset [of "set js" ?A] card_mono [of ?A "set js"] distinct_card [OF assms(1)] by simp
qed

section \<open>One object's moves\<close>

text \<open>Everything written is a copy, under its own key, of what the object's location held.\<close>

definition copied :: "string \<Rightarrow> string \<Rightarrow> string list \<Rightarrow> (string \<Rightarrow> string \<Rightarrow> bytes option) \<Rightarrow> (string \<Rightarrow> string \<Rightarrow> bytes option) \<Rightarrow> bool" where
  "copied oid ver nodes N N' \<longleftrightarrow> (\<forall>a l. N' a l = N a l \<or> (\<exists>j<length nodes. l = shard_key_of oid ver j \<and> N' a l = N (nodes ! j) l))"

lemma copied_refl [simp]: "copied oid ver nodes N N"
  by (simp add: copied_def)

lemma copied_old:
  assumes "copied oid ver nodes N N'" and "j < length nodes"
  shows "N' (nodes ! j) (shard_key_of oid ver j) = N (nodes ! j) (shard_key_of oid ver j)"
proof -
  let ?a = "nodes ! j" and ?l = "shard_key_of oid ver j"
  consider "N' ?a ?l = N ?a ?l" | i where "i < length nodes" "?l = shard_key_of oid ver i" "N' ?a ?l = N (nodes ! i) ?l"
    using assms unfolding copied_def by blast
  then show ?thesis by cases (auto simp: shard_key_of_inj)
qed

text \<open>
  How the moves of one object end: nothing was committed, or the shards \<open>js\<close> have been copied to
  their intended nodes and the commit was attempted.
\<close>

definition moves_outcome ::
    "('c, 'key) libs \<Rightarrow> (string \<Rightarrow> string \<Rightarrow> bytes option) \<Rightarrow> (string \<Rightarrow> string \<Rightarrow> bytes option) \<Rightarrow> tables \<Rightarrow> tables \<Rightarrow>
     object_metadata \<Rightarrow> string \<Rightarrow> string \<Rightarrow> string list \<Rightarrow> string list \<Rightarrow> rebalance_object_result res \<Rightarrow> bool" where
  "moves_outcome L N N' t t' md oid ver nodes intended r \<longleftrightarrow>
     t' = t \<and> (\<forall>x. r = Inr x \<longrightarrow> ro_status x \<noteq> Moved) \<or>
     (\<exists>js rr. let nodes' = moved js (map ((!) intended) js) nodes in
        js \<noteq> [] \<and> distinct js \<and> (\<forall>j\<in>set js. j < length nodes \<and> nodes ! j \<noteq> intended ! j) \<and>
        (\<forall>j<length nodes. N' (nodes' ! j) (shard_key_of oid ver j) = N (nodes ! j) (shard_key_of oid ver j)) \<and>
        conditional_put (lb_pg L) (lb_msgpack L) t (md\<lparr>md_shard_locations := placed oid ver nodes'\<rparr>) (md_version md) = (rr, t') \<and>
        (\<forall>x. r = Inr x \<and> ro_status x = Moved \<longrightarrow> rr = Inr True \<and> ro_shards_moved x = length js))"

lemma object_result_status [simp]: "ro_status (object_result oid n misplaced status k detail) = status"
  by (simp add: object_result_def)

context shard_service
begin

lemma moves_written:
  assumes lib: "order_ok ord" and ok: "ok c" and key: "list_all plain_char oid" "list_all plain_char ver"
    and js: "distinct js" "\<forall>j\<in>set js. j < length nodes" "\<forall>j\<in>set js. shards c (nodes ! j) (shard_key_of oid ver j) \<noteq> None"
    and pl: "distinct (map fst pl)" "\<And>a. set (pushed pl a) =
      {(shard_key_of oid ver j, the (shards c (nodes ! j) (shard_key_of oid ver j))) |j. j \<in> set js \<and> intended ! j = a}"
    and ap: "apply_placement send ord c pl = (r, c')"
  shows "ok c' \<and> copied oid ver nodes (shards c) (shards c') \<and>
    (r = Inr () \<longrightarrow> (\<forall>j\<in>set js. shards c' (intended ! j) (shard_key_of oid ver j) = shards c (nodes ! j) (shard_key_of oid ver j)))"
proof -
  have pln: "\<forall>(a, es)\<in>set pl. \<forall>l\<in>fst ` set es. plain_location l"
  proof clarify
    fix a es l b assume "(a, es) \<in> set pl" "(l, b) \<in> set es"
    then have "(l, b) \<in> set (pushed pl a)" using entries_pushed [OF pl(1)] by metis
    then show "plain_location (fst (l, b))" using plain_key [OF key] by (auto simp: pl(2))
  qed
  note mb = apply_placement_maybe [OF lib pl(1) ok pln ap]
  have src: "shards c (nodes ! j) (shard_key_of oid ver j) = Some (the (shards c (nodes ! j) (shard_key_of oid ver j)))"
    if "j \<in> set js" for j using js(3) that by auto
  have "copied oid ver nodes (shards c) (shards c')"
    unfolding copied_def
  proof (intro allI)
    fix a l
    consider "shards c' a l = shards c a l" | b where "(l, b) \<in> set (pushed pl a)" "shards c' a l = Some b" using mb by blast
    then show "shards c' a l = shards c a l \<or> (\<exists>j<length nodes. l = shard_key_of oid ver j \<and> shards c' a l = shards c (nodes ! j) l)"
    proof cases
      case 2
      then obtain j where "j \<in> set js" "l = shard_key_of oid ver j" "b = the (shards c (nodes ! j) (shard_key_of oid ver j))"
        by (auto simp: pl(2))
      then show ?thesis using src js(2) 2(2) by metis
    qed blast
  qed
  moreover have "shards c' (intended ! j) (shard_key_of oid ver j) = shards c (nodes ! j) (shard_key_of oid ver j)"
    if r: "r = Inr ()" and j: "j \<in> set js" for j
  proof -
    let ?b = "the (shards c (nodes ! j) (shard_key_of oid ver j))"
    have "map_of (rev (pushed pl (intended ! j))) (shard_key_of oid ver j) = Some ?b"
      by (rule map_of_rev_unique) (use j in \<open>auto simp: pl(2) shard_key_of_inj\<close>)
    then show ?thesis
      using apply_placement_value [OF lib pl(1) ok pln ap [unfolded r]] src [OF j] by (metis map_add_find_right)
  qed
  ultimately show ?thesis using mb by blast
qed

lemma rebalance_moves_spec:
  fixes L :: "('c, 'key) libs"
  assumes lib: "lb_send L = send" "order_ok (lb_ord L)" and ok: "ok c" and w: "well_placed md oid ver nodes"
    and m: "rebalance_moves L policy c t object_id md intended healthy (current_of oid ver nodes) = (r, c', t')"
  shows "ok c' \<and> copied oid ver nodes (shards c) (shards c') \<and>
    (rp_dry_run policy \<longrightarrow> shards c' = shards c \<and> t' = t) \<and>
    moves_outcome L (shards c) (shards c') t t' md oid ver nodes intended r"
proof -
  note w' = w [unfolded well_placed_def]
  let ?cur = "current_of oid ver nodes" and ?mv = "move_of oid ver nodes intended"
  define planned where "planned = plan_moves intended healthy ?cur (rp_max_moves policy)"
  define mis where "mis = length (misplaced_shards intended ?cur)"
  note m' = m [unfolded rebalance_moves_def Let_def, folded planned_def mis_def]
  obtain ks where ks: "planned = map ?mv ks" "distinct ks"
    "\<forall>j\<in>set ks. j < length nodes \<and> nodes ! j \<noteq> intended ! j \<and> intended ! j \<in> set healthy"
    using plan_moves_of [of intended healthy oid ver nodes "rp_max_moves policy"] unfolding planned_def by metis
  show ?thesis
  proof (cases "mis = 0 \<or> planned = [] \<or> rp_dry_run policy")
    case True
    then show ?thesis using m' ok by (auto simp: moves_outcome_def split: if_splits)
  next
    case False
    obtain pl fetched c1 where f: "fetch_moves send c planned [] = ((pl, fetched), c1)" by (metis prod.exhaust)
    have pk: "\<forall>mv\<in>set planned. plain_location (mv_key mv)" using plain_key w' by (auto simp: ks(1) move_of_def)
    have d0: "distinct (map fst ([] :: placement_map))" by simp
    note F = fetch_moves_spec [OF ok pk d0 f]
    then have "subseq fetched (map ?mv ks)" using ks(1) by simp
    then obtain I where I: "fetched = nths (map ?mv ks) I" unfolding subseq_conv_nths by blast
    define js where "js = nths ks I"
    have js: "fetched = map ?mv js" "subseq js ks" using I by (auto simp: js_def nths_map subseq_conv_nths)
    have sub: "set js \<subseteq> set ks" using js(2) subseq_set by blast
    have dj: "distinct js" using ks(2) by (simp add: js_def distinct_nthsI)
    have jn: "\<forall>j\<in>set js. j < length nodes" using sub ks(3) by blast
    note m2 = m' [unfolded lib(1) f prod.case]
    show ?thesis
    proof (cases "fetched = []")
      case True
      then show ?thesis using m2 False F by (auto simp: moves_outcome_def)
    next
      case nonempty: False
      obtain ra c2 where ap: "apply_placement send (lb_ord L) c1 pl = (ra, c2)" by fastforce
      have src: "\<forall>j\<in>set js. shards c1 (nodes ! j) (shard_key_of oid ver j) \<noteq> None"
        using F by (auto simp: js(1) move_of_def)
      have pu: "set (pushed pl a) =
          {(shard_key_of oid ver j, the (shards c1 (nodes ! j) (shard_key_of oid ver j))) |j. j \<in> set js \<and> intended ! j = a}" for a
      proof -
        have "{(mv_key mv, the (shards c (mv_from mv) (mv_key mv))) |mv. mv \<in> ?mv ` set js \<and> mv_to mv = a} =
          {(mv_key (?mv j), the (shards c (mv_from (?mv j)) (mv_key (?mv j)))) |j. j \<in> set js \<and> mv_to (?mv j) = a}" by blast
        then show ?thesis using F by (simp add: js(1))
      qed
      have plk: "list_all plain_char oid" "list_all plain_char ver" using w' by blast+
      have ok1: "ok c1" and d1: "distinct (map fst pl)" and s1: "shards c1 = shards c" using F by blast+
      note W = moves_written [OF lib(2) ok1 plk dj jn src d1 pu ap, unfolded s1]
      note m3 = m2 [unfolded ap prod.case]
      show ?thesis
      proof (cases ra)
        case (Inl e)
        then show ?thesis using m3 False nonempty W by (auto simp: moves_outcome_def)
      next
        case (Inr v)
        define nodes' where "nodes' = moved js (map ((!) intended) js) nodes"
        obtain rr t1 where cp: "conditional_put (lb_pg L) (lb_msgpack L) t
            (md\<lparr>md_shard_locations := placed oid ver nodes'\<rparr>) (md_version md) = (rr, t1)" by fastforce
        have locs: "moved_locations fetched (md_shard_locations md) = placed oid ver nodes'"
          using moved_locations_of [OF jn] w' by (simp add: js(1) nodes'_def)
        have at: "shards c2 (nodes' ! j) (shard_key_of oid ver j) = shards c (nodes ! j) (shard_key_of oid ver j)"
          if "j < length nodes" for j
          using W Inr that copied_old [of oid ver nodes "shards c" "shards c2" j]
          by (auto simp: nodes'_def moved_cases [OF dj jn])
        have lf: "length fetched = length js" by (simp add: js(1))
        have res: "c' = c2" "t' = t1" "\<forall>x. r = Inr x \<and> ro_status x = Moved \<longrightarrow> rr = Inr True \<and> ro_shards_moved x = length js"
          using m3 [unfolded locs cp Inr prod.case sum.case] False nonempty lf
          by (auto simp: object_result_def split: sum.splits bool.splits)
        have "moves_outcome L (shards c) (shards c') t t' md oid ver nodes intended r"
          unfolding moves_outcome_def Let_def
          by (rule disjI2, rule exI [of _ js], rule exI [of _ rr], intro conjI)
            (use nonempty js(1) dj sub ks(3) at res cp in \<open>auto simp: nodes'_def\<close>)
        then show ?thesis using W res(1) False by blast
      qed
    qed
  qed
qed

end

section \<open>One object\<close>

context shard_service
begin

lemma rebalance_object_spec:
  fixes L :: "('c, 'key) libs"
  assumes lib: "lb_send L = send" "order_ok (lb_ord L)" and ok: "ok (sc_cluster s)" and w: "well_placed md oid ver nodes"
    and md: "MetadataStore_get (lb_pg L) (lb_msgpack L) (sc_catalog s) object_id = Inr (Some md)" "object_id \<noteq> []"
    and r: "rebalance_object_between L policy s nodes_t t object_id = (r, s')"
  shows "ok (sc_cluster s') \<and> sc_ring s' = sc_ring s \<and> copied oid ver nodes (shards (sc_cluster s)) (shards (sc_cluster s')) \<and>
    (rp_dry_run policy \<longrightarrow> shards (sc_cluster s') = shards (sc_cluster s) \<and> sc_catalog s' = t) \<and>
    (sc_catalog s' = t \<and> (\<forall>x. r = Inr x \<longrightarrow> ro_status x \<noteq> Moved) \<or>
     (\<exists>eligible intended. list_nodes (lb_pg L) nodes_t = Inr eligible \<and>
        hrw_intended_nodes object_id eligible (length nodes) = Inr intended \<and>
        moves_outcome L (shards (sc_cluster s)) (shards (sc_cluster s')) t (sc_catalog s') md oid ver nodes intended r))"
proof -
  note w' = w [unfolded well_placed_def]
  let ?c = "sc_cluster s" and ?n = "total_shards (md_erasure md)" and ?locs = "md_shard_locations md"
  note r' = r [unfolded rebalance_object_between_def md(1) Let_def sum.case option.case if_not_P [OF md(2)]]
  show ?thesis
  proof (cases "list_nodes (lb_pg L) nodes_t")
    case (Inl e)
    then show ?thesis using r' ok by auto
  next
    case (Inr eligible)
    obtain healthy c1 where h: "healthy_nodes send ?c eligible = (healthy, c1)" by fastforce
    note H = healthy_nodes_spec [OF ok h]
    note r1 = r' [unfolded Inr lib(1) h sum.case prod.case]
    show ?thesis
    proof (cases "length eligible < ?n \<or> length (remdups healthy) < ?n \<or> length ?locs \<noteq> ?n")
      case True
      then show ?thesis using r1 ok H by (auto split: if_splits)
    next
      case False
      note r2 = r1 [unfolded if_not_P [OF conjunct1 [OF False [unfolded de_Morgan_disj]]]]
      show ?thesis
      proof (cases "hrw_intended_nodes object_id eligible ?n")
        case (Inl e)
        then show ?thesis using r2 False H by auto
      next
        case (Inr intended)
        obtain p c2 where p: "current_placement send c1 ?locs = (p, c2)" by fastforce
        have pl: "\<forall>loc\<in>set ?locs. location_plain loc" using w' placed_plain by metis
        note P = current_placement_spec [OF conjunct1 [OF H] pl p]
        show ?thesis
        proof (cases p)
          case (Inl e)
          then show ?thesis using r2 Inr False H P p by auto
        next
          case (Inr current)
          have cur: "current = current_of oid ver nodes"
            using current_placement_placed [OF conjunct1 [OF H] w p [unfolded Inr]] by blast
          have n: "?n = length nodes" using False w' by auto
          obtain c3 t' where m: "rebalance_moves L policy c2 t object_id md intended healthy current = (r, c3, t')"
            "s' = s\<lparr>sc_cluster := c3, sc_catalog := t'\<rparr>"
            using r2 False \<open>hrw_intended_nodes object_id eligible ?n = Inr intended\<close> p Inr by (auto split: prod.splits)
          have s2: "ok c2" "shards c2 = shards ?c" using P H by auto
          note M = rebalance_moves_spec [OF lib s2(1) w m(1) [unfolded cur], unfolded s2(2)]
          show ?thesis
            using M m(2) \<open>hrw_intended_nodes object_id eligible ?n = Inr intended\<close> \<open>list_nodes (lb_pg L) nodes_t = Inr eligible\<close> n
            by auto
        qed
      qed
    qed
  qed
qed

end

section \<open>What a result reports\<close>

definition result_within :: "rebalance_policy \<Rightarrow> string \<Rightarrow> rebalance_object_result \<Rightarrow> bool" where
  "result_within policy object_id x \<longleftrightarrow> ro_object_id x = object_id \<and> ro_status x \<noteq> Errored \<and>
     (ro_status x \<noteq> Moved \<longrightarrow> ro_shards_moved x = 0) \<and>
     (rp_dry_run policy \<longrightarrow> ro_status x \<noteq> Moved) \<and>
     (0 < rp_max_moves policy \<longrightarrow> ro_shards_moved x \<le> rp_max_moves policy)"

lemma skipped_within [simp]:
  "status \<noteq> Errored \<Longrightarrow> status \<noteq> Moved \<Longrightarrow> result_within policy oid (object_result oid n misplaced status 0 detail)"
  by (simp add: result_within_def object_result_def)

lemma fetch_moves_length: "fetch_moves send c ms m = ((m', fetched), c') \<Longrightarrow> length fetched \<le> length ms"
proof (induction ms arbitrary: c m fetched)
  case (Cons mv ms)
  then show ?case by (fastforce split: option.splits prod.splits intro: le_SucI)
qed simp

lemma plan_moves_length: "0 < mx \<Longrightarrow> length (plan_moves intended healthy current mx) \<le> mx"
  by (simp add: plan_moves_def Let_def)

lemma rebalance_moves_within:
  assumes "rebalance_moves L policy c t object_id md intended healthy current = (Inr x, c', t')"
  shows "result_within policy object_id x"
proof -
  have "result_within policy object_id (object_result object_id n k Moved (length fetched) detail)"
    if "\<not> rp_dry_run policy" "fetch_moves (lb_send L) c (plan_moves intended healthy current (rp_max_moves policy)) [] = ((m, fetched), c1)"
    for n k m fetched detail c1
    using fetch_moves_length [OF that(2)] plan_moves_length [of "rp_max_moves policy" intended healthy current] that(1)
    by (auto simp: result_within_def object_result_def)
  then show ?thesis
    using assms by (auto simp: rebalance_moves_def Let_def split: if_splits prod.splits sum.splits bool.splits)
qed

lemma rebalance_object_within:
  assumes "rebalance_object_between L policy s nodes_t t object_id = (Inr x, s')"
  shows "result_within policy object_id x"
  using assms by (auto simp: rebalance_object_between_def Let_def split: if_splits prod.splits sum.splits option.splits
      dest: rebalance_moves_within)

end
