(* ===== verification/Rebalance_Properties.thy ===== *)
theory Rebalance_Properties
  imports Rebalance_Lemmas
begin

text \<open>
  What rebalancing promises: every object of the catalog keeps its bytes through a whole pass, the
  budgets are kept, a dry run changes nothing, and each committed move brings the object closer to
  its intended placement.
\<close>

section \<open>The catalog as metadata\<close>

definition entry :: "msgpack \<Rightarrow> tables \<Rightarrow> string \<Rightarrow> object_metadata option" where
  "entry M t u = (case catalog t u of
     None \<Rightarrow> None
   | Some (r, ls) \<Rightarrow> (case row_to_object_metadata M r of Inl _ \<Rightarrow> None | Inr md \<Rightarrow> Some (md\<lparr>md_shard_locations := ls\<rparr>)))"

lemma get_entry:
  assumes "tables_ok P t" and "MetadataStore_get P M t oid = Inr (Some md)"
  shows "pg_uuid P oid = Some (md_id md) \<and> pg_uuid P (md_id md) = Some (md_id md) \<and> entry M t (md_id md) = Some md"
proof -
  obtain u where u: "pg_uuid P oid = Some u" "md_id md = u" "pg_uuid P u = Some u"
    using get_canonical [OF assms] by blast
  have f: "filter (\<lambda>r. or_id r = u) (t_objects t) = (case object_at t u of None \<Rightarrow> [] | Some r \<Rightarrow> [r])"
    using filter_object_at assms(1) by (simp add: tables_ok_def)
  obtain r md0 where "object_at t u = Some r" "row_to_object_metadata M r = Inr md0"
    "md = md0\<lparr>md_shard_locations := locations_at t u\<rparr>"
    using assms(2) u(1)
    by (auto simp: MetadataStore_get_def MetadataStore_get_between_def sql_get_object_metadata_def sql_get_locations_def
        with_uuid_Inr f locations_at_def split: list.splits if_splits option.splits)
  then show ?thesis using u by (simp add: entry_def catalog_def)
qed

lemma entry_conditional_put:
  assumes "tables_ok P t" and "msgpack_ok M" and "postgres_ok P" and "conditional_put P M t md v = (rr, t')"
    and "pg_uuid P (md_id md) = Some (md_id md)"
  shows "tables_ok P t' \<and> t_nodes t' = t_nodes t \<and>
    (t' = t \<and> rr \<noteq> Inr True \<or> entry M t' = (entry M t)(md_id md \<mapsto> md\<lparr>md_version := v + 1\<rparr>))"
proof -
  have ok: "tables_ok P t'" using store_write_ok [OF assms(3,1) write_conditional [OF assms(4)]] .
  consider "t' = t" "rr \<noteq> Inr True" | "t' = replaced t (md_id md) (row_of M md (md_id md) (v + 1)) (md_shard_locations md)"
  proof (cases "rr = Inr True")
    case True
    then have "conditional_put_transaction P M t md v = Inr (True, t')"
      using assms(4) by (auto simp: conditional_put_def commit_Inr split: sum.splits prod.splits)
    then show thesis using conditional_put_transaction_spec [OF assms(1)] assms(5) that(2) by fastforce
  next
    case False
    then show thesis using conditional_put_cases [OF assms(1,4)] assms(5) that by auto
  qed
  then show ?thesis
  proof cases
    case 2
    then have "entry M t' = (entry M t)(md_id md \<mapsto> md\<lparr>md_version := v + 1\<rparr>)"
      by (simp add: entry_def catalog_replaced fun_eq_iff row_to_metadata_of [OF assms(2)])
    then show ?thesis using ok 2 by (simp add: replaced_def)
  qed (use ok in simp)
qed

section \<open>Content\<close>

definition stored_bytes :: "(string \<Rightarrow> string \<Rightarrow> bytes option) \<Rightarrow> string \<Rightarrow> bytes option" where
  "stored_bytes N loc = (case split_location loc of None \<Rightarrow> None | Some (a, l) \<Rightarrow> N a l)"

text \<open>An entry may list other locations, holding the same bytes shard by shard, under a new version.\<close>

definition relocated ::
    "(string \<Rightarrow> string \<Rightarrow> bytes option) \<Rightarrow> (string \<Rightarrow> string \<Rightarrow> bytes option) \<Rightarrow> object_metadata \<Rightarrow> object_metadata \<Rightarrow> bool" where
  "relocated N N' md md' \<longleftrightarrow>
     md' = md\<lparr>md_shard_locations := md_shard_locations md', md_version := md_version md'\<rparr> \<and>
     list_all2 (\<lambda>loc loc'. stored_bytes N' loc' = stored_bytes N loc) (md_shard_locations md) (md_shard_locations md')"

definition same_content ::
    "msgpack \<Rightarrow> (string \<Rightarrow> string \<Rightarrow> bytes option) \<Rightarrow> (string \<Rightarrow> string \<Rightarrow> bytes option) \<Rightarrow> tables \<Rightarrow> tables \<Rightarrow> bool" where
  "same_content M N N' t t' \<longleftrightarrow> (\<forall>u. rel_option (relocated N N') (entry M t u) (entry M t' u))"

lemma relocated_refl: "(\<And>loc. loc \<in> set (md_shard_locations md) \<Longrightarrow> stored_bytes N' loc = stored_bytes N loc) \<Longrightarrow> relocated N N' md md"
  by (simp add: relocated_def list.rel_refl_strong)

lemma relocated_trans: "relocated N N' md md' \<Longrightarrow> relocated N' N'' md' md'' \<Longrightarrow> relocated N N'' md md''"
  by (cases md; cases md'; cases md'') (auto simp: relocated_def list_all2_conv_all_nth)

lemma same_content_refl [simp]: "same_content M N N t t"
  by (simp add: same_content_def option.rel_refl_strong relocated_refl)

lemma same_content_trans:
  assumes "same_content M N N' t t'" and "same_content M N' N'' t' t''"
  shows "same_content M N N'' t t''"
  unfolding same_content_def
proof
  fix u
  have "rel_option (relocated N N') (entry M t u) (entry M t' u)" "rel_option (relocated N' N'') (entry M t' u) (entry M t'' u)"
    using assms by (simp_all add: same_content_def)
  then show "rel_option (relocated N N'') (entry M t u) (entry M t'' u)"
    by (cases "entry M t u"; cases "entry M t' u"; cases "entry M t'' u") (auto intro: relocated_trans)
qed

text \<open>
  Every object's shards are stored under keys of its own: \<open>kid\<close> and \<open>kver\<close> are the object id and the
  version its keys are made of.
\<close>

definition keyed :: "msgpack \<Rightarrow> tables \<Rightarrow> (string \<Rightarrow> string) \<Rightarrow> (string \<Rightarrow> string) \<Rightarrow> bool" where
  "keyed M t kid kver \<longleftrightarrow> (\<forall>u md. entry M t u = Some md \<longrightarrow> (\<exists>nodes. well_placed md (kid u) (kver u) nodes)) \<and>
     (\<forall>u w. entry M t u \<noteq> None \<and> entry M t w \<noteq> None \<and> kid u = kid w \<and> kver u = kver w \<longrightarrow> u = w)"

lemma shard_key_parts:
  assumes "key_parts_ok oid ver" and "key_parts_ok oid' ver'" and "shard_key_of oid ver i = shard_key_of oid' ver' j"
  shows "oid = oid' \<and> ver = ver'"
proof -
  let ?w = "\<lambda>xs. takeWhile (\<lambda>d. d \<noteq> CHR ''/'') xs"
  have k: "?w (shard_key_of a b n) = a \<and> ?w (tl (dropWhile (\<lambda>d. d \<noteq> CHR ''/'') (shard_key_of a b n))) = b"
    if "key_parts_ok a b" for a b n
    using that by (simp add: key_parts_ok_def shard_key_of_def cpp_simps)
  show ?thesis using k [OF assms(1), of i] k [OF assms(2), of j] assms(3) by simp
qed


lemma keyed_update:
  assumes "keyed M t kid kver" and "entry M t u = Some md" and "entry M t' = (entry M t)(u \<mapsto> md')"
    and "well_placed md' (kid u) (kver u) nodes"
  shows "keyed M t' kid kver"
proof -
  have "entry M t' w \<noteq> None \<longleftrightarrow> entry M t w \<noteq> None" for w using assms(2,3) by simp
  moreover have "\<exists>ns. well_placed x (kid w) (kver w) ns" if "entry M t' w = Some x" for w x
    using that assms(3,4) assms(1) [unfolded keyed_def, THEN conjunct1] by (cases "w = u") auto
  ultimately show ?thesis using assms(1) unfolding keyed_def by blast
qed

text \<open>
  What stays as it is: the entries of other objects, when only one object's keys are written.\<close>

lemma stored_placed [simp]:
  "nodes_plain nodes \<Longrightarrow> i < length nodes \<Longrightarrow>
   stored_bytes N (location_of (nodes ! i) oid ver i) = N (nodes ! i) (shard_key_of oid ver i)"
  by (simp add: stored_bytes_def)

lemma other_kept:
  assumes "copied oid ver nodes N N'" and "key_parts_ok oid ver" and "well_placed md oid' ver' nodes'"
    and "oid' \<noteq> oid \<or> ver' \<noteq> ver"
  shows "relocated N N' md md"
proof (rule relocated_refl)
  fix loc assume "loc \<in> set (md_shard_locations md)"
  then obtain i where i: "i < length nodes'" "loc = location_of (nodes' ! i) oid' ver' i"
    using assms(3) by (auto simp: well_placed_def in_placed)
  have "N' (nodes' ! i) (shard_key_of oid' ver' i) = N (nodes' ! i) (shard_key_of oid' ver' i)"
    using assms shard_key_parts [OF assms(2)] unfolding copied_def well_placed_def by metis
  then show "stored_bytes N' loc = stored_bytes N loc" using i assms(3) by (simp add: well_placed_def)
qed

lemma own_kept:
  assumes "well_placed md oid ver nodes" and "length nodes' = length nodes" and "nodes_plain nodes'"
    and "\<forall>j<length nodes. N' (nodes' ! j) (shard_key_of oid ver j) = N (nodes ! j) (shard_key_of oid ver j)"
  shows "relocated N N' md (md\<lparr>md_shard_locations := placed oid ver nodes', md_version := v\<rparr>)"
  using assms by (auto simp: relocated_def well_placed_def list_all2_conv_all_nth)

lemma moved_plain:
  assumes "nodes_plain nodes" and "nodes_plain intended" and "\<forall>j\<in>set js. j < length intended"
  shows "nodes_plain (moved js (map ((!) intended) js) nodes)"
  using set_moved [of js "map ((!) intended) js" nodes] assms unfolding nodes_plain_def by fastforce

lemma rebalance_object_step:
  assumes lib: "libs_ok L D T" and t: "tables_ok (lb_pg L) (sc_catalog s)" "addresses_ok (sc_catalog s)"
    and k: "keyed (lb_msgpack L) (sc_catalog s) kid kver"
    and r: "rebalance_object L policy s object_id = (r, s')"
  defines "N \<equiv> cluster_shards D (sc_cluster s)" and "N' \<equiv> cluster_shards D (sc_cluster s')"
  shows "tables_ok (lb_pg L) (sc_catalog s') \<and> t_nodes (sc_catalog s') = t_nodes (sc_catalog s) \<and> sc_ring s' = sc_ring s \<and>
    keyed (lb_msgpack L) (sc_catalog s') kid kver \<and> same_content (lb_msgpack L) N N' (sc_catalog s) (sc_catalog s') \<and>
    (rp_dry_run policy \<longrightarrow> N' = N \<and> sc_catalog s' = sc_catalog s)"
proof (cases "MetadataStore_get (lb_pg L) (lb_msgpack L) (sc_catalog s) object_id")
  case (Inl e)
  then show ?thesis using r t k unfolding rebalance_object_def rebalance_object_between_def N_def N'_def
    by (auto split: if_splits)
next
  case (Inr m)
  let ?M = "lb_msgpack L" and ?P = "lb_pg L" and ?t = "sc_catalog s" and ?t' = "sc_catalog s'"
  show ?thesis
  proof (cases "object_id = [] \<or> m = None")
    case True
    then show ?thesis using r t k Inr unfolding rebalance_object_def rebalance_object_between_def N_def N'_def
      by (auto split: if_splits)
  next
    case False
    then obtain md where md: "MetadataStore_get ?P ?M ?t object_id = Inr (Some md)" "object_id \<noteq> []" using Inr by auto
    note e = get_entry [OF t(1) md(1)]
    let ?u = "md_id md"
    let ?oid = "kid ?u" and ?ver = "kver ?u"
    obtain nodes where w: "well_placed md ?oid ?ver nodes" using k e unfolding keyed_def by blast
    note w' = w [unfolded well_placed_def]
    have l: "lb_send L = cluster_send D (lb_json L) T" "order_ok (lb_ord L)" "msgpack_ok ?M" "postgres_ok ?P"
      using lib by (simp_all add: libs_ok_def)
    note S = cluster.rebalance_object_spec [OF l(1,2) libs_ok_cluster [OF lib] w md r [unfolded rebalance_object_def],
        folded N_def N'_def]
    have cp: "copied ?oid ?ver nodes N N'" using S by blast
    have others: "rel_option (relocated N N') (entry ?M ?t u) (entry ?M ?t u)" if "u \<noteq> ?u" for u
    proof (cases "entry ?M ?t u")
      case (Some md')
      then obtain ns where "well_placed md' (kid u) (kver u) ns" using k unfolding keyed_def by blast
      moreover have "kid u \<noteq> ?oid \<or> kver u \<noteq> ?ver" using k e Some that unfolding keyed_def by blast
      ultimately show ?thesis using other_kept [OF cp] w' Some by auto
    qed simp
    have mine: "rel_option (relocated N N') (entry ?M ?t ?u) (Some (md\<lparr>md_shard_locations := placed ?oid ?ver nodes', md_version := v\<rparr>))"
      if "length nodes' = length nodes" "nodes_plain nodes'"
        "\<forall>j<length nodes. N' (nodes' ! j) (shard_key_of ?oid ?ver j) = N (nodes ! j) (shard_key_of ?oid ?ver j)" for nodes' v
      using own_kept [OF w that] e by simp
    have "relocated N N' md md"
      by (rule relocated_refl) (use w' copied_old [OF cp] in \<open>auto simp: in_placed\<close>)
    then have unchanged: "same_content ?M N N' ?t ?t" using others e unfolding same_content_def by (metis option.rel_inject(2))
    consider "?t' = ?t" | nodes' rr where "length nodes' = length nodes" "nodes_plain nodes'"
        "\<forall>j<length nodes. N' (nodes' ! j) (shard_key_of ?oid ?ver j) = N (nodes ! j) (shard_key_of ?oid ?ver j)"
        "conditional_put ?P ?M ?t (md\<lparr>md_shard_locations := placed ?oid ?ver nodes'\<rparr>) (md_version md) = (rr, ?t')"
    proof (cases "?t' = ?t")
      case False
      obtain eligible intended where el: "list_nodes ?P ?t = Inr eligible"
        "hrw_intended_nodes object_id eligible (length nodes) = Inr intended"
        "moves_outcome L N N' ?t ?t' md ?oid ?ver nodes intended r" using S False by blast
      have ip: "nodes_plain intended" "length intended = length nodes"
        using hrw_intended_shape [OF el(2)] list_nodes_registered [OF el(1)] t(2)
        by (auto simp: nodes_plain_def addresses_ok_def)
      obtain js rr where js: "\<forall>j\<in>set js. j < length nodes"
        "\<forall>j<length nodes. N' (moved js (map ((!) intended) js) nodes ! j) (shard_key_of ?oid ?ver j) = N (nodes ! j) (shard_key_of ?oid ?ver j)"
        "conditional_put ?P ?M ?t (md\<lparr>md_shard_locations := placed ?oid ?ver (moved js (map ((!) intended) js) nodes)\<rparr>)
          (md_version md) = (rr, ?t')"
        using el(3) False unfolding moves_outcome_def Let_def by blast
      show thesis by (rule that(2) [OF _ _ js(2,3)]) (use moved_plain w' ip js(1) in auto)
    qed (rule that(1))
    then have main: "tables_ok ?P ?t' \<and> t_nodes ?t' = t_nodes ?t \<and> keyed ?M ?t' kid kver \<and> same_content ?M N N' ?t ?t'"
    proof cases
      case 1
      then show ?thesis using unchanged t k by simp
    next
      case 2
      let ?md = "md\<lparr>md_shard_locations := placed ?oid ?ver nodes'\<rparr>"
      have "pg_uuid ?P (md_id ?md) = Some (md_id ?md)" using e by simp
      note E = entry_conditional_put [OF t(1) l(3,4) 2(4) this]
      have w2: "well_placed (?md\<lparr>md_version := v\<rparr>) ?oid ?ver nodes'" for v using w' 2(2) by (simp add: well_placed_def)
      consider "?t' = ?t" | "entry ?M ?t' = (entry ?M ?t)(?u \<mapsto> ?md\<lparr>md_version := md_version md + 1\<rparr>)" using E by auto
      then show ?thesis
      proof cases
        case 1
        then show ?thesis using unchanged t k by simp
      next
        case new: 2
        have rel: "rel_option (relocated N N') (entry ?M ?t u) (entry ?M ?t' u)" for u
          using others [of u] mine [OF 2(1-3)] by (simp add: new)
        have "keyed ?M ?t' kid kver" using keyed_update [OF k _ new w2] e by blast
        then show ?thesis using E rel by (simp add: same_content_def)
      qed
    qed
    then show ?thesis using S by blast
  qed
qed

section \<open>A pass over many objects\<close>

lemma addresses_nodes: "t_nodes t' = t_nodes t \<Longrightarrow> addresses_ok t' = addresses_ok t"
  by (simp add: addresses_ok_def)

lemma rebalance_loop_keeps:
  assumes lib: "libs_ok L D T"
  shows "tables_ok (lb_pg L) (sc_catalog s) \<Longrightarrow> addresses_ok (sc_catalog s) \<Longrightarrow> keyed (lb_msgpack L) (sc_catalog s) kid kver \<Longrightarrow>
    rebalance_loop L scope s remaining ids report = (r, s') \<Longrightarrow>
    tables_ok (lb_pg L) (sc_catalog s') \<and> t_nodes (sc_catalog s') = t_nodes (sc_catalog s) \<and> sc_ring s' = sc_ring s \<and>
    keyed (lb_msgpack L) (sc_catalog s') kid kver \<and>
    same_content (lb_msgpack L) (cluster_shards D (sc_cluster s)) (cluster_shards D (sc_cluster s')) (sc_catalog s) (sc_catalog s') \<and>
    (sp_dry_run scope \<longrightarrow> cluster_shards D (sc_cluster s') = cluster_shards D (sc_cluster s) \<and> sc_catalog s' = sc_catalog s)"
proof (induction ids arbitrary: s remaining report)
  case (Cons object_id rest)
  let ?policy = "\<lparr>rp_dry_run = sp_dry_run scope, rp_max_moves = (if 0 < sp_max_moves scope then remaining else 0)\<rparr>"
  obtain ro s1 where o: "rebalance_object L ?policy s object_id = (ro, s1)" by fastforce
  note S = rebalance_object_step [OF lib Cons.prems(1-3) o]
  consider "s' = s" | "s' = s1" | remaining' report' where "rebalance_loop L scope s1 remaining' rest report' = (r, s')"
    using Cons.prems(4) o by (auto simp: Let_def split: if_splits sum.splits exn.splits)
  then show ?case
  proof cases
    case 3
    have "addresses_ok (sc_catalog s1)" using Cons.prems(2) S addresses_nodes by blast
    with S have "tables_ok (lb_pg L) (sc_catalog s') \<and> t_nodes (sc_catalog s') = t_nodes (sc_catalog s1) \<and> sc_ring s' = sc_ring s1 \<and>
      keyed (lb_msgpack L) (sc_catalog s') kid kver \<and>
      same_content (lb_msgpack L) (cluster_shards D (sc_cluster s1)) (cluster_shards D (sc_cluster s')) (sc_catalog s1) (sc_catalog s') \<and>
      (sp_dry_run scope \<longrightarrow> cluster_shards D (sc_cluster s') = cluster_shards D (sc_cluster s1) \<and> sc_catalog s' = sc_catalog s1)"
      by (intro Cons.IH [OF _ _ _ 3]) blast+
    then show ?thesis using S same_content_trans by (metis rebalance_policy.select_convs(1))
  qed (use S Cons.prems in simp_all)
qed simp

lemma rebalance_state:
  assumes "libs_ok L D T" and "tables_ok (lb_pg L) (sc_catalog s)" and "addresses_ok (sc_catalog s)"
    and "keyed (lb_msgpack L) (sc_catalog s) kid kver" and "rebalance L scope s = (r, s')"
  shows "tables_ok (lb_pg L) (sc_catalog s') \<and> t_nodes (sc_catalog s') = t_nodes (sc_catalog s) \<and> sc_ring s' = sc_ring s \<and>
    keyed (lb_msgpack L) (sc_catalog s') kid kver \<and>
    same_content (lb_msgpack L) (cluster_shards D (sc_cluster s)) (cluster_shards D (sc_cluster s')) (sc_catalog s) (sc_catalog s') \<and>
    (sp_dry_run scope \<longrightarrow> cluster_shards D (sc_cluster s') = cluster_shards D (sc_cluster s) \<and> sc_catalog s' = sc_catalog s)"
proof -
  consider "s' = s" | ids where "rebalance_loop L scope s (sp_max_moves scope) ids (empty_report (sp_dry_run scope)) = (r, s')"
    using assms(5) by (auto simp: rebalance_def split: sum.splits)
  then show ?thesis by cases (use rebalance_loop_keeps [OF assms(1-4)] assms in auto)
qed

text \<open>
  C10: A rebalancing pass over any scope, however it ends, keeps every object of the catalog: the
  same objects are listed, with the same metadata but for version and locations, and the locations
  now listed hold, shard by shard, exactly the bytes held before.
\<close>

theorem rebalance_keeps_content:
  assumes "libs_ok L D T" and "tables_ok (lb_pg L) (sc_catalog s)" and "addresses_ok (sc_catalog s)"
    and "keyed (lb_msgpack L) (sc_catalog s) kid kver" and "rebalance L scope s = (r, s')"
  shows "same_content (lb_msgpack L) (cluster_shards D (sc_cluster s)) (cluster_shards D (sc_cluster s')) (sc_catalog s) (sc_catalog s') \<and>
    (sp_dry_run scope \<longrightarrow> cluster_shards D (sc_cluster s') = cluster_shards D (sc_cluster s) \<and> sc_catalog s' = sc_catalog s)"
  using rebalance_state [OF assms] by blast

section \<open>Budgets and counts\<close>

text \<open>What the counters of a report say about its results.\<close>

definition with_status :: "rebalance_status \<Rightarrow> rebalance_object_result list \<Rightarrow> nat" where
  "with_status status results = length (filter (\<lambda>x. ro_status x = status) results)"

definition report_consistent :: "rebalance_report \<Rightarrow> bool" where
  "report_consistent report \<longleftrightarrow> rr_objects_scanned report = length (rr_results report) \<and>
     rr_shards_moved report = sum_list (map ro_shards_moved (rr_results report)) \<and>
     rr_objects_balanced report = with_status Balanced (rr_results report) \<and>
     rr_objects_moved report = with_status Moved (rr_results report) \<and>
     rr_objects_skipped_degraded report = with_status SkippedDegraded (rr_results report) \<and>
     rr_objects_skipped_unsafe report = with_status SkippedUnsafe (rr_results report) \<and>
     rr_objects_skipped_conflict report = with_status SkippedConflict (rr_results report) \<and>
     rr_objects_not_found report = with_status SkippedNotFound (rr_results report) \<and>
     rr_objects_errored report = with_status Errored (rr_results report)"

lemma with_status_append [simp]:
  "with_status st [] = 0" "with_status st (xs @ [x]) = with_status st xs + (if ro_status x = st then 1 else 0)"
  by (simp_all add: with_status_def)

lemma consistent_result:
  assumes "report_consistent report" and "result_within policy object_id x"
  shows "report_consistent (count_result (report\<lparr>rr_objects_scanned := rr_objects_scanned report + 1\<rparr>) x)"
  using assms by (cases "ro_status x") (auto simp: report_consistent_def count_result_def result_within_def)

lemma consistent_error:
  "report_consistent report \<Longrightarrow> report_consistent (count_error (report\<lparr>rr_objects_scanned := rr_objects_scanned report + 1\<rparr>) object_id e)"
  by (auto simp: report_consistent_def count_error_def)

lemma count_fields:
  "rr_results (count_result report x) = rr_results report @ [x]"
  "rr_objects_scanned (count_result report x) = rr_objects_scanned report"
  "rr_shards_moved (count_result report x) = rr_shards_moved report + (if ro_status x = Moved then ro_shards_moved x else 0)"
  "map ro_object_id (rr_results (count_error report object_id e)) = map ro_object_id (rr_results report) @ [object_id]"
  "rr_objects_scanned (count_error report object_id e) = rr_objects_scanned report"
  "rr_shards_moved (count_error report object_id e) = rr_shards_moved report"
  by (cases "ro_status x"; simp add: count_result_def count_error_def)+

lemma rebalance_loop_report:
  "report_consistent report \<Longrightarrow> rebalance_loop L scope s remaining ids report = (Inr report', s') \<Longrightarrow>
   report_consistent report' \<and>
   (\<exists>k\<le>length ids. map ro_object_id (rr_results report') = map ro_object_id (rr_results report) @ take k ids) \<and>
   (0 < sp_max_moves scope \<longrightarrow> rr_shards_moved report' \<le> rr_shards_moved report + remaining) \<and>
   (0 < sp_max_objects scope \<and> rr_objects_scanned report \<le> sp_max_objects scope \<longrightarrow> rr_objects_scanned report' \<le> sp_max_objects scope)"
proof (induction ids arbitrary: s remaining report)
  case (Cons object_id rest)
  let ?policy = "\<lparr>rp_dry_run = sp_dry_run scope, rp_max_moves = (if 0 < sp_max_moves scope then remaining else 0)\<rparr>"
  let ?report = "report\<lparr>rr_objects_scanned := rr_objects_scanned report + 1\<rparr>"
  obtain ro s1 where o: "rebalance_object L ?policy s object_id = (ro, s1)" by fastforce
  consider "report' = report" | e where "rebalance_loop L scope s1 remaining rest (count_error ?report object_id e) = (Inr report', s')"
      "\<not> (0 < sp_max_objects scope \<and> sp_max_objects scope \<le> rr_objects_scanned report)"
    | x where "ro = Inr x" "\<not> (0 < sp_max_objects scope \<and> sp_max_objects scope \<le> rr_objects_scanned report)"
      "\<not> (0 < sp_max_moves scope \<and> remaining = 0)"
      "rebalance_loop L scope s1 (if ro_status x = Moved \<and> 0 < sp_max_moves scope then remaining - min remaining (ro_shards_moved x) else remaining)
         rest (count_result ?report x) = (Inr report', s')"
    using Cons.prems(2) o by (auto simp: Let_def split: if_splits sum.splits exn.splits)
  then show ?case
  proof cases
    case 1
    then show ?thesis using Cons.prems(1) by (auto intro!: exI [of _ 0])
  next
    case 2
    from Cons.IH [OF consistent_error [OF Cons.prems(1)] 2(1)] 2(2)
    show ?thesis by (auto simp: count_fields Suc_le_eq intro: exI [of _ "Suc k" for k])
  next
    case 3
    have w: "result_within ?policy object_id x" using o 3(1) rebalance_object_within by (fastforce simp: rebalance_object_def)
    from Cons.IH [OF consistent_result [OF Cons.prems(1) w] 3(4)] 3(2,3) w
    show ?thesis by (auto simp: count_fields result_within_def Suc_le_eq split: if_splits intro: exI [of _ "Suc k" for k])
  qed
qed auto

text \<open>
  C13: The report of a pass is exact and the budgets hold: no more objects than \<open>max_objects\<close> are
  scanned, no more shards than \<open>max_moves\<close> are moved, objects are taken in the order named, each
  has one result, and every counter counts its results.
\<close>

theorem rebalance_within_budget:
  assumes "rebalance L scope s = (Inr report, s')"
  shows "report_consistent report \<and>
    (0 < sp_max_moves scope \<longrightarrow> rr_shards_moved report \<le> sp_max_moves scope) \<and>
    (0 < sp_max_objects scope \<longrightarrow> rr_objects_scanned report \<le> sp_max_objects scope) \<and>
    (sp_object_ids scope \<noteq> [] \<longrightarrow>
       map ro_object_id (rr_results report) = take (rr_objects_scanned report) (sp_object_ids scope))"
proof -
  obtain ids where ids: "sp_object_ids scope \<noteq> [] \<longrightarrow> ids = sp_object_ids scope"
    "rebalance_loop L scope s (sp_max_moves scope) ids (empty_report (sp_dry_run scope)) = (Inr report, s')"
    using assms by (auto simp: rebalance_def split: sum.splits if_splits)
  have e: "report_consistent (empty_report (sp_dry_run scope))" "rr_results (empty_report (sp_dry_run scope)) = []"
    "rr_objects_scanned (empty_report (sp_dry_run scope)) = 0" "rr_shards_moved (empty_report (sp_dry_run scope)) = 0"
    by (simp_all add: report_consistent_def empty_report_def)
  note R = rebalance_loop_report [OF e(1) ids(2), unfolded e]
  then obtain k where k: "k \<le> length ids" "map ro_object_id (rr_results report) = take k ids" by auto
  have "length (map ro_object_id (rr_results report)) = k" unfolding k(2) using k(1) by simp
  then have "rr_objects_scanned report = k" using R by (simp add: report_consistent_def)
  then show ?thesis using R k ids(1) by auto
qed

section \<open>Progress and fencing of one object\<close>

text \<open>
  C12: Moved means progress: the entry now lists, for every shard, its old node or its intended one;
  at least one shard was moved, and as many shards as reported fewer are off their intended nodes.
\<close>

theorem rebalance_object_progress:
  assumes lib: "libs_ok L D T" and t: "tables_ok (lb_pg L) (sc_catalog s)"
    and md: "MetadataStore_get (lb_pg L) (lb_msgpack L) (sc_catalog s) object_id = Inr (Some md)"
    and w: "well_placed md oid ver nodes" and r: "rebalance_object L policy s object_id = (Inr x, s')" "ro_status x = Moved"
  shows "\<exists>eligible intended nodes'. list_nodes (lb_pg L) (sc_catalog s) = Inr eligible \<and>
    hrw_intended_nodes object_id eligible (length nodes) = Inr intended \<and>
    entry (lb_msgpack L) (sc_catalog s') (md_id md) =
      Some (md\<lparr>md_shard_locations := placed oid ver nodes', md_version := md_version md + 1\<rparr>) \<and>
    length nodes' = length nodes \<and> (\<forall>j<length nodes. nodes' ! j = nodes ! j \<or> nodes' ! j = intended ! j) \<and>
    0 < ro_shards_moved x \<and>
    card {j. j < length nodes \<and> nodes' ! j \<noteq> intended ! j} + ro_shards_moved x =
      card {j. j < length nodes \<and> nodes ! j \<noteq> intended ! j}"
proof -
  have l: "lb_send L = cluster_send D (lb_json L) T" "order_ok (lb_ord L)" "msgpack_ok (lb_msgpack L)" "postgres_ok (lb_pg L)"
    using lib by (simp_all add: libs_ok_def)
  have oid: "object_id \<noteq> []" using r by (auto simp: rebalance_object_def rebalance_object_between_def)
  from cluster.rebalance_object_spec [OF l(1,2) libs_ok_cluster [OF lib] w md oid r(1) [unfolded rebalance_object_def]] r(2)
  obtain eligible intended where el: "list_nodes (lb_pg L) (sc_catalog s) = Inr eligible"
    "hrw_intended_nodes object_id eligible (length nodes) = Inr intended"
    "moves_outcome L (cluster_shards D (sc_cluster s)) (cluster_shards D (sc_cluster s')) (sc_catalog s) (sc_catalog s')
       md oid ver nodes intended (Inr x)" by auto
  obtain js rr where js: "js \<noteq> []" "distinct js" "\<forall>j\<in>set js. j < length nodes \<and> nodes ! j \<noteq> intended ! j"
    "conditional_put (lb_pg L) (lb_msgpack L) (sc_catalog s)
       (md\<lparr>md_shard_locations := placed oid ver (moved js (map ((!) intended) js) nodes)\<rparr>) (md_version md) = (rr, sc_catalog s')"
    "rr = Inr True" "ro_shards_moved x = length js"
    using el(3) r(2) unfolding moves_outcome_def Let_def by blast
  let ?nodes = "moved js (map ((!) intended) js) nodes"
  have jn: "\<forall>j\<in>set js. j < length nodes" using js(3) by blast
  have "entry (lb_msgpack L) (sc_catalog s') (md_id md) =
      Some (md\<lparr>md_shard_locations := placed oid ver ?nodes, md_version := md_version md + 1\<rparr>)"
    using entry_conditional_put [OF t l(3,4) js(4)] js(5) get_entry [OF t md] by simp
  then show ?thesis
    using el(1,2) js(1,6) misplaced_after [OF js(2,3)] moved_cases [OF js(2) jn, of intended]
    by (intro exI [of _ eligible] exI [of _ intended] exI [of _ ?nodes]) auto
qed

text \<open>
  C39: Rebalancing is fenced: if the object's version changed between the read and the commit, nothing
  is committed, the result is not a move, and the catalog stays as the other client left it.
\<close>

theorem rebalance_object_fenced:
  assumes "tables_ok (lb_pg L) (sc_catalog s)" and "tables_ok (lb_pg L) t"
    and "MetadataStore_get (lb_pg L) (lb_msgpack L) (sc_catalog s) object_id = Inr (Some md)" and "object_id \<noteq> []"
    and "pg_uuid (lb_pg L) object_id = Some u" and "version_at t u \<noteq> Some (md_version md)"
    and "rebalance_object_between L policy s nodes_t t object_id = (r, s')"
  shows "sc_catalog s' = t \<and> (\<forall>x. r = Inr x \<longrightarrow> ro_status x \<noteq> Moved \<and> ro_shards_moved x = 0)"
proof -
  have nv: "\<not> (\<exists>w. pg_uuid (lb_pg L) (md_id md) = Some w \<and> version_at t w = Some (md_version md))"
    using get_canonical [OF assms(1,3)] assms(5,6) by auto
  have cp: "t' = t \<and> rr \<noteq> Inr True"
    if p: "conditional_put (lb_pg L) (lb_msgpack L) t (md\<lparr>md_shard_locations := ls\<rparr>) (md_version md) = (rr, t')" for ls rr t'
  proof
    show "t' = t" using conditional_put_cases [OF assms(2) p] nv by auto
    show "rr \<noteq> Inr True" using conditional_put_True [OF assms(2)] p nv by fastforce
  qed
  have mv: "t' = t \<and> (\<forall>x. ro = Inr x \<longrightarrow> ro_status x \<noteq> Moved)"
    if "rebalance_moves L policy c t object_id md intended healthy current = (ro, c', t')" for c intended healthy current ro c' t'
    using that by (auto simp: rebalance_moves_def Let_def split: if_splits prod.splits sum.splits bool.splits dest: cp)
  have "sc_catalog s' = t \<and> (\<forall>x. r = Inr x \<longrightarrow> ro_status x \<noteq> Moved)"
    using assms(7,4) by (auto simp: rebalance_object_between_def assms(3) Let_def
        split: sum.splits prod.splits if_splits dest: mv)
  then show ?thesis using rebalance_object_within assms(7) by (fastforce simp: result_within_def)
qed

end
