(* ===== verification/Client_Witnesses.thy ===== *)
theory Client_Witnesses
  imports Client_Properties Reference_Isal
begin

text \<open>
  Witnesses of the client's properties: a client over the reference libraries, three storage nodes
  and one key, with one object put, and what a failed key rotation leaves behind.
\<close>

section \<open>A concrete client\<close>

definition ref_libs :: "(ref_db cluster, nat) libs" where
  "ref_libs = \<lparr>lb_isal = ref_isal, lb_botan = ref_botan, lb_msgpack = ref_msgpack, lb_json = ref_json,
     lb_pg = ref_pg, lb_os = ref_os, lb_send = ref_send, lb_ord = (\<lambda>ks. ks),
     lb_key_path = ''kek'', lb_collector = False\<rparr>"

definition three_nodes :: "ref_db cluster" where
  "three_nodes = \<lparr>cl_nodes = [''a:1'' \<mapsto> [], ''b:2'' \<mapsto> [], ''c:3'' \<mapsto> []], cl_link = (\<lambda>t a. Delivered), cl_clock = 0\<rparr>"

definition client0 :: "(ref_db cluster, nat) client" where
  "client0 = \<lparr>sc_cluster = three_nodes,
     sc_catalog = \<lparr>t_objects = [], t_locations = [],
       t_nodes = map (\<lambda>a. \<lparr>nr_address = a, nr_registered_at = 0\<rparr>) [''a:1'', ''b:2'', ''c:3'']\<rparr>,
     sc_ring = [(''old'', 5)], sc_active = ''old'', sc_fs = empty_fs, sc_metrics = []\<rparr>"

definition zero_timing :: phase_timing where
  "zero_timing = \<lparr>crypto_ms = 0, transport_ms = 0, metadata_ms = 0, total_ms = 0\<rparr>"

definition draws0 :: put_draws where
  "draws0 = \<lparr>pd_version = [1, 2], pd_dek = replicate 32 3, pd_nonces = (\<lambda>i. replicate 12 4), pd_seed = [5],
     pd_wrap_nonce = replicate 12 6, pd_now = 7, pd_timing = zero_timing\<rparr>"

abbreviation spec2 :: erasure_spec where
  "spec2 \<equiv> \<lparr>data_shards = 2, parity_shards = 1, shard_size = 2\<rparr>"

abbreviation client1 :: "(ref_db cluster, nat) client" where
  "client1 \<equiv> snd (StorageClient_put ref_libs draws0 client0 oid0 [7, 9, 200] spec2)"

abbreviation data1 :: bytes where
  "data1 \<equiv> [7, 9, 200]"

abbreviation locs1 :: "string list" where
  "locs1 \<equiv> [''c:3/00000000-0000-0000-0000-00000000000a/0102/0'', ''b:2/00000000-0000-0000-0000-00000000000a/0102/1'',
     ''a:1/00000000-0000-0000-0000-00000000000a/0102/2'']"

lemma validate1: "put_validate ref_libs (sc_catalog client0) oid0 data1 spec2 = Inr [''a:1'', ''b:2'', ''c:3'']"
  by code_simp

lemma hrw1: "hrw_intended_nodes oid0 [''a:1'', ''b:2'', ''c:3''] 3 = Inr [''c:3'', ''b:2'', ''a:1'']"
  by code_simp

lemma prepare1: "is_ok (put_prepare ref_libs draws0 (sc_ring client0) (sc_active client0) oid0 data1 spec2)"
  by code_simp

lemma place1:
  "\<exists>pl. placement_strategy oid0 ''0102'' [b0, b1, b2] [''c:3'', ''b:2'', ''a:1''] = Inr pl \<and>
     fst (apply_placement ref_send (\<lambda>ks. ks) three_nodes pl) = Inr () \<and>
     build_shard_locations (\<lambda>ks. ks) pl = Inr locs1 \<and>
     cl_link (snd (apply_placement ref_send (\<lambda>ks. ks) three_nodes pl)) t a = Delivered"
proof -
  have "(case placement_strategy oid0 ''0102'' [b0, b1, b2] [''c:3'', ''b:2'', ''a:1''] of Inl e \<Rightarrow> False
      | Inr pl \<Rightarrow> fst (apply_placement ref_send (\<lambda>ks. ks) three_nodes pl) = Inr () \<and>
          build_shard_locations (\<lambda>ks. ks) pl = Inr locs1 \<and>
          cl_link (snd (apply_placement ref_send (\<lambda>ks. ks) three_nodes pl)) t a = Delivered)"
    by code_simp
  then show ?thesis by (auto split: sum.splits)
qed

lemma catalog1:
  "fst (MetadataStore_put ref_pg ref_msgpack (sc_catalog client0) (put_metadata oid0 data1 spec2
     \<lparr>pr_version = ''0102'', pr_checksum = bytes_to_hex (checksum_sha256 ref_botan data1),
      pr_wrapped_dek = w, pr_kek_id = ''old'', pr_serialized = bs\<rparr> locs1)) = Inr ()"
  by code_simp

lemma put1_stored: "fst (StorageClient_put ref_libs draws0 client0 oid0 data1 spec2) = Inr () \<and>
    cl_link (sc_cluster client1) t a = Delivered \<and>
    (\<exists>p. MetadataStore_put ref_pg ref_msgpack (sc_catalog client0) (put_metadata oid0 data1 spec2 p locs1) = (Inr (), sc_catalog client1))"
proof -
  obtain p where p: "put_prepare ref_libs draws0 [(''old'', 5)] ''old'' oid0 data1 spec2 = Inr p"
    using prepare1 by (cases "put_prepare ref_libs draws0 [(''old'', 5)] ''old'' oid0 data1 spec2")
      (auto simp: is_ok_def client0_def)
  obtain plain es where e: "encode ref_isal data1 spec2 = Inr plain"
    "encrypt_shards ref_botan (pd_nonces draws0) 0 plain (pd_dek draws0) = Inr es"
    "pr_version p = generateVersion (pd_version draws0)" "pr_kek_id p = ''old''"
    "pr_checksum p = bytes_to_hex (checksum_sha256 ref_botan data1)" "length (pr_serialized p) = length es"
    using put_prepare_spec [OF p] by (auto simp: ref_libs_def)
  have v: "generateVersion (pd_version draws0) = ''0102''" by code_simp
  have "length (pr_serialized p) = 3"
    using encode_total [OF e(1) isal_ok_ref] arg_cong [OF encrypt_shards_index [OF e(2)], of length] e(6)
    by (simp add: total_shards_def)
  then obtain b0 b1 b2 where b: "pr_serialized p = [b0, b1, b2]" by (auto simp: numeral_3_eq_3 length_Suc_conv)
  obtain pl where pl: "placement_strategy oid0 ''0102'' [b0, b1, b2] [''c:3'', ''b:2'', ''a:1''] = Inr pl"
    "fst (apply_placement ref_send (\<lambda>ks. ks) three_nodes pl) = Inr ()"
    "build_shard_locations (\<lambda>ks. ks) pl = Inr locs1"
    "cl_link (snd (apply_placement ref_send (\<lambda>ks. ks) three_nodes pl)) t a = Delivered" using place1 by blast
  obtain c where c: "apply_placement ref_send (\<lambda>ks. ks) three_nodes pl = (Inr (), c)" "cl_link c t a = Delivered"
    using pl(2,4) by (cases "apply_placement ref_send (\<lambda>ks. ks) three_nodes pl") auto
  have q: "p = \<lparr>pr_version = ''0102'', pr_checksum = bytes_to_hex (checksum_sha256 ref_botan data1),
      pr_wrapped_dek = pr_wrapped_dek p, pr_kek_id = ''old'', pr_serialized = [b0, b1, b2]\<rparr>"
    using e(3-5) b v by simp
  obtain t' where "MetadataStore_put ref_pg ref_msgpack (sc_catalog client0) (put_metadata oid0 data1 spec2 p locs1) = (Inr (), t')"
    using catalog1 [of "pr_wrapped_dek p" "[b0, b1, b2]"] q by (metis prod.collapse)
  moreover have "sc_ring client0 = [(''old'', 5)]" "sc_active client0 = ''old''" "sc_cluster client0 = three_nodes"
    "length [b0, b1, b2] = 3" by (simp_all add: client0_def)
  moreover have "lb_send ref_libs = ref_send" "lb_ord ref_libs = (\<lambda>ks. ks)" "lb_pg ref_libs = ref_pg" "lb_msgpack ref_libs = ref_msgpack"
    by (simp_all add: ref_libs_def)
  ultimately show ?thesis
    using validate1 p hrw1 [unfolded numeral_3_eq_3] pl(1,3) c e(3) v by (auto simp: StorageClient_put_def b)
qed

lemmas put1 = conjI [OF conjunct1 [OF put1_stored] conjunct1 [OF conjunct2 [OF put1_stored]]]

lemma libs_ok_ref: "libs_ok ref_libs ref_lmdb ref_targets"
  by (simp add: libs_ok_def ref_libs_def lmdb_ok_ref json_ok_ref targets_ok_ref isal_ok_ref gcm_ok_ref kem_ok_ref
      pem_ok_ref msgpack_ok_ref postgres_ok_ref order_ok_def)

theorem put_then_get_witness: "fst (StorageClient_get ref_libs zero_timing client1 oid0) = Inr data1"
proof -
  have p: "StorageClient_put ref_libs draws0 client0 oid0 data1 spec2 = (Inr (), client1)"
    using put1 by (metis prod.collapse)
  have d: "draws_ok ref_libs draws0" by (simp add: draws_ok_def draws0_def ref_libs_def ref_botan_def)
  have t: "tables_ok (lb_pg ref_libs) (sc_catalog client0)"
    by (simp add: tables_ok_def client0_def)
  have a: "addresses_ok (sc_catalog client0)" by code_simp
  have o: "list_all plain_char oid0" by code_simp
  have r: "reads_ok (lb_pg ref_libs) (sc_catalog client1)" by (simp add: ref_libs_def)
  have n3: "total_shards spec2 = 3" "unat (data_shards spec2) = 2" by (simp_all add: total_shards_def)
  obtain nodes keys where n: "length nodes = 3"
    "\<forall>i<3. cluster_shards ref_lmdb (sc_cluster client1) (nodes ! i) (keys ! i) \<noteq> None"
    and get: "enough_survive ref_libs ref_lmdb draws0 spec2 nodes keys client1 client1 {..<3} \<Longrightarrow>
       map_of (sc_ring client1) (sc_active client0) = map_of (sc_ring client0) (sc_active client0) \<Longrightarrow>
       fst (StorageClient_get ref_libs zero_timing client1 oid0) = Inr data1"
    using put_then_get [OF libs_ok_ref d t a o p r, unfolded n3] by blast
  have s: "survives ref_lmdb client1 client1 (nodes ! i) (keys ! i)" if "i < 3" for i
    using n(2) that put1
    by (auto simp: survives_def cluster_up_def cluster_shards_def split: option.splits)
  have "enough_survive ref_libs ref_lmdb draws0 spec2 nodes keys client1 client1 {..<3}"
    using s by (simp add: enough_survive_def n3)
  then show ?thesis using put_decompose [OF p] by (intro get) auto
qed

definition client2 :: "(ref_db cluster, nat) client" where
  "client2 = client0\<lparr>sc_cluster := \<lparr>cl_nodes = [''n:1'' \<mapsto> [(''o/7/0'', [9])]], cl_link = (\<lambda>t a. Delivered), cl_clock = 0\<rparr>,
     sc_catalog := tables1\<rparr>"

abbreviation md2 :: object_metadata where
  "md2 \<equiv> md0\<lparr>md_version := 1\<rparr>"

lemma get2: "MetadataStore_get (lb_pg ref_libs) (lb_msgpack ref_libs) (sc_catalog client2) oid0 = Inr (Some md2)"
  by code_simp

theorem health_sound_witness:
  "unat (oh_available_shards (projr (fst (StorageClient_health ref_libs client2 oid0)))) =
     card {i. i < length (md_shard_locations md2) \<and> stored_at (cluster_shards ref_lmdb (sc_cluster client2)) (md_shard_locations md2 ! i)} \<and>
   oh_available_shards (projr (fst (StorageClient_health ref_libs client2 oid0))) = 1 \<and>
   \<not> oh_fully_replicated (projr (fst (StorageClient_health ref_libs client2 oid0)))"
proof -
  let ?r = "StorageClient_health ref_libs client2 oid0"
  have ok: "is_ok (fst ?r) \<and> oh_available_shards (projr (fst ?r)) = 1 \<and> \<not> oh_fully_replicated (projr (fst ?r))" by code_simp
  then have r: "?r = (Inr (projr (fst ?r)), snd ?r)" by (cases ?r; cases "fst ?r") (auto simp: is_ok_def)
  have p: "\<forall>loc\<in>set (md_shard_locations md2). location_plain loc" by code_simp
  have l: "md_shard_locations md2 = [''n:1/o/7/0'', ''n:1/o/7/1'']" by (simp add: md0_def)
  have "is_ok (get_node_client ''n:1'')" "split_location ''n:1/o/7/0'' = Some (''n:1'', ''o/7/0'')"
    "split_location ''n:1/o/7/1'' = Some (''n:1'', ''o/7/1'')" by code_simp+
  then have a: "\<forall>loc\<in>set (md_shard_locations md2). askable (cluster_up ref_lmdb (sc_cluster client2)) loc"
    unfolding l by (simp add: askable_def cluster_up_def client2_def)
  have n: "length (md_shard_locations md2) < 2 ^ 32" unfolding l by simp
  show ?thesis using health_sound [OF libs_ok_ref get2 p n r] a ok by simp
qed

theorem remove_exact_witness:
  "\<exists>u. pg_uuid ref_pg oid0 = Some u \<and>
     catalog (sc_catalog (snd (StorageClient_remove ref_libs client2 oid0))) = (catalog tables1)(u := None)"
proof -
  let ?r = "StorageClient_remove ref_libs client2 oid0"
  have "fst ?r = Inr True" by code_simp
  then have r: "?r = (Inr True, snd ?r)" by (metis prod.collapse)
  have t: "tables_ok (lb_pg ref_libs) (sc_catalog client2)"
    using tables_ok1 by (simp add: client2_def ref_libs_def)
  have p: "\<forall>loc\<in>set (md_shard_locations md2). location_plain loc" by code_simp
  show ?thesis using remove_exact [OF libs_ok_ref t get2 p r] by (auto simp: ref_libs_def client2_def)
qed

theorem rotate_keeps_keys_witness:
  "\<exists>r s'. rotate ref_libs (Some 6) (\<lambda>i. replicate 16 (of_nat i)) client0 = Some (r, s') \<and>
    map_of (sc_ring client0) (sc_active s') = None \<and>
    map_of (sc_ring s') = (map_of (sc_ring client0))(sc_active s' \<mapsto> 6) \<and>
    sc_catalog s' = sc_catalog client0 \<and> sc_cluster s' = sc_cluster client0"
proof (rule rotate_keeps_keys [where i = 0])
  show "map_of (sc_ring client0) (generateKekId (replicate 16 (of_nat 0))) = None" by code_simp
qed

definition no_disk_libs :: "(ref_db cluster, nat) libs" where
  "no_disk_libs = ref_libs\<lparr>lb_os := ref_os\<lparr>os_can_open := \<lambda>fs p. False\<rparr>\<rparr>"

text \<open>
  When the key file cannot be opened, rotation throws, but the new key stays active in memory:
  the next \<open>put\<close> wraps its data key with a key that is on no disk.
\<close>

theorem rotate_failure_not_undone:
  "case rotate no_disk_libs (Some 6) (\<lambda>i. replicate 16 7) client0 of
     Some (Inl e, s') \<Rightarrow> sc_active s' \<noteq> sc_active client0 \<and> map_of (sc_ring s') (sc_active s') = Some 6 \<and>
       fs_file (sc_fs s') ''kek'' = None
   | _ \<Rightarrow> False"
  by code_simp

end
