(* ===== verification/Repair_Witnesses.thy ===== *)
theory Repair_Witnesses
  imports Repair_Properties Client_Witnesses
begin

text \<open>
  Witnesses of the repair properties: an object with \<open>k = 1\<close>, \<open>m = 1\<close> on two nodes, one of which has
  lost its shard. The libraries are the reference ones with a shorter checksum and tag.
\<close>

section \<open>A small object with a lost shard\<close>

definition small_botan :: "nat botan" where
  "small_botan = ref_botan\<lparr>sha256 := (\<lambda>b. take 1 b), nonce_length := 1, encapsulated_key_length := (\<lambda>k. 1),
     gcm_encrypt := (\<lambda>k n a p. Some (p @ replicate 16 (hd (k @ [0])))),
     gcm_decrypt := (\<lambda>k n a c. if 16 \<le> length c \<and> drop (length c - 16) c = replicate 16 (hd (k @ [0]))
                             then Plaintext (take (length c - 16) c) else Integrity_Failure),
     kem_encrypt := (\<lambda>k seed. Some ([of_nat k], [of_nat k])), kem_decrypt := (\<lambda>k e. Some [of_nat k])\<rparr>"

definition small_libs :: "(ref_db cluster, nat) libs" where
  "small_libs = ref_libs\<lparr>lb_botan := small_botan,
     lb_pg := ref_pg\<lparr>pg_uuid := \<lambda>s. if s = [] then None else Some s\<rparr>\<rparr>"

lemma small_botan_ok: "gcm_ok small_botan" "kem_ok small_botan" "pem_ok small_botan"
proof -
  show "gcm_ok small_botan"
    unfolding gcm_ok_def
  proof (intro conjI allI impI)
    fix k n a p c
    show "gcm_decrypt small_botan k n a c = Plaintext p" "length c = length p + 16"
      if "gcm_encrypt small_botan k n a p = Some c" using that by (auto simp: small_botan_def)
    show "gcm_encrypt small_botan k n a p = Some c" if "gcm_decrypt small_botan k n a c = Plaintext p"
      using that by (auto simp: small_botan_def split: if_splits) (metis append_take_drop_id)
  qed
qed (auto simp: kem_ok_def pem_ok_def small_botan_def ref_botan_def)

lemma small_libs_ok: "libs_ok small_libs ref_lmdb ref_targets"
proof -
  have "postgres_ok (ref_pg\<lparr>pg_uuid := \<lambda>s. if s = [] then None else Some s\<rparr>)" by (simp add: postgres_ok_def)
  then show ?thesis using libs_ok_ref small_botan_ok by (simp add: libs_ok_def small_libs_def ref_libs_def)
qed

definition dek3 :: bytes where
  "dek3 = replicate 32 3"

abbreviation spec11 :: erasure_spec where
  "spec11 \<equiv> \<lparr>data_shards = 1, parity_shards = 1, shard_size = 1\<rparr>"

definition plain3 :: "plain_shard list" where
  "plain3 = [\<lparr>ps_index = 0, ps_bytes = [7]\<rparr>, \<lparr>ps_index = 1, ps_bytes = [7]\<rparr>]"

text \<open>One of the two shards is stored, as a bare encrypted shard; node \<open>b:2\<close> has lost the other.\<close>

definition stored3 :: bytes where
  "stored3 = EncryptedShard_serialize ref_msgpack (projr (encrypt_shards small_botan (\<lambda>i. [1]) 0 plain3 dek3) ! 0)"

definition md3 :: object_metadata where
  "md3 = \<lparr>md_id = ''o'', md_size = 1, md_checksum = ''07'', md_erasure = spec11,
     md_shard_locations = placed ''o'' ''v'' [''a:1'', ''b:2''],
     md_encrypted_dek = projr (encrypt_dek small_botan [5] [6] dek3 5), md_kek_id = ''old'', md_version = 1\<rparr>"

definition client3 :: "(ref_db cluster, nat) client" where
  "client3 = client0\<lparr>
     sc_cluster := \<lparr>cl_nodes = [''a:1'' \<mapsto> [(''o/v/0'', stored3)], ''b:2'' \<mapsto> []],
       cl_link = (\<lambda>t a. Delivered), cl_clock = 0\<rparr>,
     sc_catalog := snd (MetadataStore_put (lb_pg small_libs) ref_msgpack
       \<lparr>t_objects = [], t_locations = [], t_nodes = map (\<lambda>a. \<lparr>nr_address = a, nr_registered_at = 0\<rparr>) [''a:1'', ''b:2'']\<rparr> md3)\<rparr>"

definition rdraws :: repair_draws where
  "rdraws = \<lparr>rd_nonces = (\<lambda>i. [2]), rd_version = [9], rd_now = 0\<rparr>"

lemma get3: "MetadataStore_get (lb_pg small_libs) (lb_msgpack small_libs) (sc_catalog client3) ''o'' = Inr (Some md3)"
  by code_simp

lemma repair3: "fst (StorageClient_repair small_libs rdraws zero_timing client3 ''o'') = Inr True"
  by code_simp

lemma unforged_case:
  "unforged L dek N plain loc \<longleftrightarrow> (case decoded_at (lb_msgpack L) N loc of None \<Rightarrow> True
     | Some e \<Rightarrow> opened (lb_botan L) dek e \<in> set (None # map Some plain))"
  by (auto simp: unforged_def split: option.splits)

lemma state3:
  "object_state small_libs (cluster_shards ref_lmdb (sc_cluster client3)) (sc_ring client3) md3 ''o'' ''v'' [''a:1'', ''b:2''] [7] dek3 plain3"
  unfolding object_state_def
proof (intro conjI)
  show "encode (lb_isal small_libs) [7] (md_erasure md3) = Inr plain3" by code_simp
  show "recover_dek (lb_botan small_libs) (lb_ord small_libs) (md_encrypted_dek md3) (md_kek_id md3) (sc_ring client3) = Inr dek3"
    by code_simp
  show "md_checksum md3 = bytes_to_hex (checksum_sha256 (lb_botan small_libs) [7])" by code_simp
  show "\<forall>loc\<in>set (md_shard_locations md3). unforged small_libs dek3 (cluster_shards ref_lmdb (sc_cluster client3)) plain3 loc"
    unfolding unforged_case by code_simp
qed (code_simp | simp add: md3_def)+

lemma tables3: "tables_ok (lb_pg small_libs) (sc_catalog client3)"
proof -
  let ?t = "\<lparr>t_objects = [], t_locations = [], t_nodes = map (\<lambda>a. \<lparr>nr_address = a, nr_registered_at = 0\<rparr>) [''a:1'', ''b:2'']\<rparr>"
  have "postgres_ok (lb_pg small_libs)" using small_libs_ok by (simp add: libs_ok_def)
  moreover have "tables_ok (lb_pg small_libs) ?t" by (simp add: tables_ok_def)
  ultimately show ?thesis
    unfolding client3_def by simp (rule store_write_ok, assumption, assumption, rule write_put, rule surjective_pairing)
qed

lemma addresses3: "addresses_ok (sc_catalog client3)"
  by code_simp

lemma reads3 [simp]: "reads_ok (lb_pg small_libs) t"
  by (simp add: reads_ok_def small_libs_def ref_pg_def)

theorem repair_keeps_object_witness:
  "\<exists>md' nodes'. MetadataStore_get (lb_pg small_libs) (lb_msgpack small_libs)
      (sc_catalog (snd (StorageClient_repair small_libs rdraws zero_timing client3 ''o''))) ''o'' = Inr (Some md') \<and>
    object_state small_libs (cluster_shards ref_lmdb (sc_cluster (snd (StorageClient_repair small_libs rdraws zero_timing client3 ''o''))))
      (sc_ring (snd (StorageClient_repair small_libs rdraws zero_timing client3 ''o''))) md' ''o'' ''v'' nodes' [7] dek3 plain3"
  using repair_keeps_object [OF small_libs_ok tables3 addresses3 get3 state3 surjective_pairing reads3] by blast

theorem repair_heals_witness:
  "\<exists>md' nodes'. MetadataStore_get (lb_pg small_libs) (lb_msgpack small_libs)
      (sc_catalog (snd (StorageClient_repair small_libs rdraws zero_timing client3 ''o''))) ''o'' = Inr (Some md') \<and>
    healed small_libs dek3 (cluster_shards ref_lmdb (sc_cluster client3))
      (cluster_shards ref_lmdb (sc_cluster (snd (StorageClient_repair small_libs rdraws zero_timing client3 ''o'')))) plain3 ''o'' ''v''
      [''a:1'', ''b:2''] nodes' \<and> holds small_libs dek3
      (cluster_shards ref_lmdb (sc_cluster (snd (StorageClient_repair small_libs rdraws zero_timing client3 ''o'')))) (plain3 ! 1)
      (md_shard_locations md' ! 1)"
proof -
  let ?s = "snd (StorageClient_repair small_libs rdraws zero_timing client3 ''o'')"
  have "StorageClient_repair small_libs rdraws zero_timing client3 ''o'' = (Inr True, ?s)"
    using repair3 by (metis prod.collapse)
  from repair_heals [OF small_libs_ok tables3 addresses3 get3 state3 this reads3] obtain md' nodes' where
    h: "MetadataStore_get (lb_pg small_libs) (lb_msgpack small_libs) (sc_catalog ?s) ''o'' = Inr (Some md')"
    "object_state small_libs (cluster_shards ref_lmdb (sc_cluster ?s)) (sc_ring ?s) md' ''o'' ''v'' nodes' [7] dek3 plain3"
    "healed small_libs dek3 (cluster_shards ref_lmdb (sc_cluster client3)) (cluster_shards ref_lmdb (sc_cluster ?s)) plain3 ''o'' ''v''
      [''a:1'', ''b:2''] nodes'" by blast
  have "cluster_shards ref_lmdb (sc_cluster client3) ''b:2'' (shard_key_of ''o'' ''v'' 1) = None" by code_simp
  then have "holds small_libs dek3 (cluster_shards ref_lmdb (sc_cluster ?s)) (plain3 ! 1) (md_shard_locations md' ! 1)"
    using h(2,3) by (auto simp: healed_def object_state_def)
  with h show ?thesis by blast
qed

definition later3 :: tables where
  "later3 = snd (MetadataStore_put (lb_pg small_libs) ref_msgpack (sc_catalog client3) md3)"

theorem repair_fenced_witness:
  "sc_catalog (snd (repair_between small_libs rdraws zero_timing client3 later3 later3 ''o'')) = later3"
proof -
  have t: "tables_ok (lb_pg small_libs) later3"
    using small_libs_ok tables3 unfolding later3_def
    by (auto simp: libs_ok_def intro: store_write_ok write_put [OF surjective_pairing])
  have v: "version_at later3 ''o'' \<noteq> Some (md_version md3)" by code_simp
  have u: "pg_uuid (lb_pg small_libs) ''o'' = Some ''o''" by code_simp
  show ?thesis
    using repair_fenced [OF _ tables3 t get3 u v surjective_pairing] by simp
qed

text \<open>
  Repair can put a rebuilt shard on the node that holds a surviving one although two healthy
  nodes hold none: the intended node is only checked against the targets chosen so far.
\<close>

theorem repair_colocates:
  "let healthy = [''a:1'', ''b:2'', ''c:3'']; locations = placed ''q'' ''v'' [''b:2'', ''c:3''];
       pool = fallback_pool healthy (used_nodes locations [0])
   in used_nodes locations [0] = [''b:2''] \<and> pool = [''a:1'', ''c:3'', ''b:2''] \<and>
     bind_res (repair_intended ''q'' healthy 2) (\<lambda>intended. repair_targets intended healthy pool [] [1]) = Inr [''b:2'']"
  by code_simp

end
