(* ===== verification/Rebalance_Witnesses.thy ===== *)
theory Rebalance_Witnesses
  imports Rebalance_Properties Repair_Witnesses
begin

text \<open>
  Witnesses of the rebalancing properties: an object with \<open>k = 1\<close>, \<open>m = 1\<close> whose two shards are on
  each other's intended node.
\<close>

definition client4 :: "(ref_db cluster, nat) client" where
  "client4 = client3\<lparr>
     sc_cluster := \<lparr>cl_nodes = [''a:1'' \<mapsto> [(''o/v/0'', [1])], ''b:2'' \<mapsto> [(''o/v/1'', [2])]],
       cl_link = (\<lambda>t a. Delivered), cl_clock = 0\<rparr>\<rparr>"

abbreviation policy_of :: "nat \<Rightarrow> rebalance_policy" where
  "policy_of k \<equiv> \<lparr>rp_dry_run = False, rp_max_moves = k\<rparr>"

abbreviation scope_of :: "nat \<Rightarrow> rebalance_scope" where
  "scope_of k \<equiv> \<lparr>sp_object_ids = [''o'', ''p''], sp_max_objects = 1, sp_max_moves = k, sp_dry_run = False\<rparr>"

lemma get4: "MetadataStore_get (lb_pg small_libs) (lb_msgpack small_libs) (sc_catalog client4) ''o'' = Inr (Some md3)"
  using get3 by (simp add: client4_def)

lemma tables4: "tables_ok (lb_pg small_libs) (sc_catalog client4)"
  using tables3 by (simp add: client4_def)

lemma addresses4: "addresses_ok (sc_catalog client4)"
  using addresses3 by (simp add: client4_def)

lemma well_placed4: "well_placed md3 ''o'' ''v'' [''a:1'', ''b:2'']"
  using state3 by (simp add: object_state_def well_placed_def)

lemma entry4: "entry (lb_msgpack small_libs) (sc_catalog client4) u = (if u = ''o'' then Some md3 else None)"
proof (cases "u = ''o''")
  case True
  then show ?thesis using get_entry [OF tables4 get4] by (simp add: md3_def)
next
  case False
  have "map or_id (t_objects (sc_catalog client3)) = [''o'']" by code_simp
  then have "\<forall>r\<in>set (t_objects (sc_catalog client4)). or_id r = ''o''" by (auto simp: client4_def)
  then have "object_at (sc_catalog client4) u = None" using False by (auto simp: object_at_def find_None_iff)
  then show ?thesis using False by (simp add: entry_def catalog_def)
qed

lemma keyed4: "keyed (lb_msgpack small_libs) (sc_catalog client4) (\<lambda>u. ''o'') (\<lambda>u. ''v'')"
  unfolding keyed_def entry4 using well_placed4 by (auto split: if_splits)

abbreviation pass4 :: "rebalance_report res \<times> (ref_db cluster, nat) client" where
  "pass4 \<equiv> rebalance small_libs (scope_of 1) client4"

theorem rebalance_keeps_content_witness:
  "\<exists>md'. entry (lb_msgpack small_libs) (sc_catalog (snd pass4)) ''o'' = Some md' \<and> md_id md' = ''o'' \<and> md_checksum md' = ''07'' \<and>
     map (stored_bytes (cluster_shards ref_lmdb (sc_cluster (snd pass4)))) (md_shard_locations md') = [Some [1], Some [2]]"
proof -
  have b: "map (stored_bytes (cluster_shards ref_lmdb (sc_cluster client4))) (md_shard_locations md3) = [Some [1], Some [2]]"
    by code_simp
  have "rel_option (relocated (cluster_shards ref_lmdb (sc_cluster client4)) (cluster_shards ref_lmdb (sc_cluster (snd pass4))))
      (entry (lb_msgpack small_libs) (sc_catalog client4) ''o'') (entry (lb_msgpack small_libs) (sc_catalog (snd pass4)) ''o'')"
    using rebalance_keeps_content [OF small_libs_ok tables4 addresses4 keyed4 surjective_pairing] unfolding same_content_def by blast
  then obtain md' where e: "entry (lb_msgpack small_libs) (sc_catalog (snd pass4)) ''o'' = Some md'"
    and r: "relocated (cluster_shards ref_lmdb (sc_cluster client4)) (cluster_shards ref_lmdb (sc_cluster (snd pass4))) md3 md'"
    by (auto simp: entry4 option_rel_Some1)
  have "map (stored_bytes (cluster_shards ref_lmdb (sc_cluster (snd pass4)))) (md_shard_locations md') =
      map (stored_bytes (cluster_shards ref_lmdb (sc_cluster client4))) (md_shard_locations md3)"
    using r by (auto simp: relocated_def list_all2_conv_all_nth intro: nth_equalityI)
  moreover have "md_id md' = ''o''" "md_checksum md' = ''07''"
    using r by (cases md'; simp add: relocated_def md3_def)+
  ultimately show ?thesis using e b by simp
qed

lemma pass4_result:
  "case pass4 of (Inl _, s') \<Rightarrow> False
   | (Inr report, s') \<Rightarrow> map (\<lambda>x. (ro_object_id x, ro_status x, ro_shards_moved x)) (rr_results report) = [(''o'', Moved, 1)] \<and>
      MetadataStore_get (lb_pg small_libs) (lb_msgpack small_libs) (sc_catalog s') ''o'' =
        Inr (Some (md3\<lparr>md_shard_locations := [''b:2/o/v/0'', ''b:2/o/v/1''], md_version := 2\<rparr>))"
  by code_simp

lemma pass4_report:
  "\<exists>report. fst pass4 = Inr report \<and>
     map (\<lambda>x. (ro_object_id x, ro_status x, ro_shards_moved x)) (rr_results report) = [(''o'', Moved, 1)] \<and>
     MetadataStore_get (lb_pg small_libs) (lb_msgpack small_libs) (sc_catalog (snd pass4)) ''o'' =
       Inr (Some (md3\<lparr>md_shard_locations := [''b:2/o/v/0'', ''b:2/o/v/1''], md_version := 2\<rparr>))"
  using pass4_result by (cases pass4; cases "fst pass4") simp_all

theorem rebalance_within_budget_witness:
  "\<exists>report. fst pass4 = Inr report \<and> rr_shards_moved report = 1 \<and> rr_objects_moved report = 1 \<and> rr_objects_scanned report \<le> 1"
proof -
  obtain report where r: "fst pass4 = Inr report"
    and f: "map (\<lambda>x. (ro_object_id x, ro_status x, ro_shards_moved x)) (rr_results report) = [(''o'', Moved, 1)]"
    using pass4_report by (elim exE conjE) (rule that)
  have p: "pass4 = (Inr report, snd pass4)" using r by (metis prod.collapse)
  obtain x where x: "rr_results report = [x]" "ro_status x = Moved" "ro_shards_moved x = 1" using f by auto
  have "report_consistent report" "rr_objects_scanned report \<le> 1" using rebalance_within_budget [OF p] by simp_all
  then show ?thesis using r x by (intro exI [of _ report]) (simp add: report_consistent_def with_status_def)
qed

lemma moved4: "map_sum id (\<lambda>x. (ro_status x, ro_shards_moved x)) (fst (rebalance_object small_libs (policy_of 1) client4 ''o'')) = Inr (Moved, 1)"
  by code_simp

theorem rebalance_object_progress_witness:
  "\<exists>nodes'. entry (lb_msgpack small_libs) (sc_catalog (snd (rebalance_object small_libs (policy_of 1) client4 ''o''))) ''o'' =
     Some (md3\<lparr>md_shard_locations := placed ''o'' ''v'' nodes', md_version := 2\<rparr>) \<and> length nodes' = 2"
proof -
  let ?s = "snd (rebalance_object small_libs (policy_of 1) client4 ''o'')"
  obtain x where f: "fst (rebalance_object small_libs (policy_of 1) client4 ''o'') = Inr x" and m: "ro_status x = Moved"
    using moved4 by (cases "fst (rebalance_object small_libs (policy_of 1) client4 ''o'')") auto
  then have x: "rebalance_object small_libs (policy_of 1) client4 ''o'' = (Inr x, ?s)" by (metis prod.collapse)
  have "md_version md3 + 1 = 2" "md_id md3 = ''o''" by (simp_all add: md3_def)
  then show ?thesis using rebalance_object_progress [OF small_libs_ok tables4 get4 well_placed4 x m] by auto
qed

theorem rebalance_object_fenced_witness:
  "sc_catalog (snd (rebalance_object_between small_libs (policy_of 0) client4 later3 later3 ''o'')) = later3"
proof -
  have t: "tables_ok (lb_pg small_libs) later3"
    using small_libs_ok tables3 unfolding later3_def
    by (auto simp: libs_ok_def intro: store_write_ok write_put [OF surjective_pairing])
  have v: "version_at later3 ''o'' \<noteq> Some (md_version md3)" by code_simp
  have u: "pg_uuid (lb_pg small_libs) ''o'' = Some ''o''" by code_simp
  show ?thesis using rebalance_object_fenced [OF tables4 t get4 _ u v surjective_pairing] by simp
qed

text \<open>
  A bounded pass can put shards together: the two shards of an object are on two nodes, and
  after a pass with \<open>max_moves = 1\<close> the catalog lists both on the same node.
\<close>

theorem bounded_rebalance_colocates:
  "\<exists>md'. MetadataStore_get (lb_pg small_libs) (lb_msgpack small_libs) (sc_catalog client4) ''o'' = Inr (Some md3) \<and>
     md_shard_locations md3 = [''a:1/o/v/0'', ''b:2/o/v/1''] \<and>
     MetadataStore_get (lb_pg small_libs) (lb_msgpack small_libs) (sc_catalog (snd pass4)) ''o'' = Inr (Some md') \<and>
     md_shard_locations md' = [''b:2/o/v/0'', ''b:2/o/v/1'']"
proof -
  have "md_shard_locations md3 = [''a:1/o/v/0'', ''b:2/o/v/1'']" by code_simp
  then show ?thesis using get4 pass4_report by auto
qed

end
