(* ===== verification/Reindex.thy ===== *)
theory Reindex
  imports Storage_Client
begin

text \<open>
  \<^verbatim>\<open>StorageClient::reindex\<close>: rebuild the catalog from the keys and manifests on the nodes. The
  scans and the manifest reads run in parallel in the code; they are reads, done here in the order
  their results are awaited. Counts of type \<open>size_t\<close> are natural numbers.
\<close>

record reindex_report =
  rx_versions_scanned :: nat
  rx_objects_recovered :: nat
  rx_objects_skipped_existing :: nat
  rx_degraded_objects :: nat
  rx_unreadable_versions :: nat
  rx_errors :: nat

record version_group =
  vg_object_id :: string
  vg_version :: string
  vg_shard_locations :: "(32 word \<times> string) list"
  vg_rep_node :: string
  vg_rep_key :: string

section \<open>Scanning\<close>

fun scan_nodes :: "'c send \<Rightarrow> json_lib \<Rightarrow> 'c \<Rightarrow> string list \<Rightarrow> (string \<times> string list) list \<times> 'c" where
  "scan_nodes send J c [] = ([], c)"
| "scan_nodes send J c (node # rest) =
     (case list_node_shards send J c node of
        (keys, c1) \<Rightarrow> (case scan_nodes send J c1 rest of (scans, c2) \<Rightarrow> ((node, keys) # scans, c2)))"

definition empty_group :: version_group where
  "empty_group = \<lparr>vg_object_id = [], vg_version = [], vg_shard_locations = [], vg_rep_node = [], vg_rep_key = []\<rparr>"

text \<open>\<open>groups[gid]\<close> creates the group when there is none.\<close>

definition add_key :: "string \<Rightarrow> string \<Rightarrow> (string \<times> version_group) list \<Rightarrow> (string \<times> version_group) list" where
  "add_key node key groups =
     (case parse_shard_key key of
        Inl _ \<Rightarrow> groups
      | Inr parsed \<Rightarrow>
          let gid = pk_object_id parsed @ ''/'' @ pk_version parsed;
              vgroup = (case map_of groups gid of None \<Rightarrow> empty_group | Some g \<Rightarrow> g);
              vgroup = (if vg_object_id vgroup = [] then vgroup\<lparr>vg_object_id := pk_object_id parsed,
                         vg_version := pk_version parsed, vg_rep_node := node, vg_rep_key := key\<rparr> else vgroup)
          in um_assign groups gid (vgroup\<lparr>vg_shard_locations :=
               um_assign (vg_shard_locations vgroup) (pk_shard_index parsed) (node @ ''/'' @ key)\<rparr>))"

definition group_scans :: "(string \<times> string list) list \<Rightarrow> (string \<times> version_group) list" where
  "group_scans scans = fold (\<lambda>(node, keys). fold (add_key node) keys) scans []"

fun fetch_manifests ::
    "'c send \<Rightarrow> msgpack \<Rightarrow> 'c \<Rightarrow> (string \<times> version_group) list \<Rightarrow> (version_group \<times> shard_manifest option) list \<times> 'c" where
  "fetch_manifests send M c [] = ([], c)"
| "fetch_manifests send M c ((gid, vgroup) # rest) =
     (case fetch_shard_manifest send M c (vg_rep_node vgroup) (vg_rep_key vgroup) of
        (manifest, c1) \<Rightarrow> (case fetch_manifests send M c1 rest of (rs, c2) \<Rightarrow> ((vgroup, manifest) # rs, c2)))"

section \<open>Choosing one version per object\<close>

record candidate =
  cd_manifest :: shard_manifest
  cd_group :: version_group
  cd_shard_count :: nat

definition manifest_acceptable :: "shard_manifest \<Rightarrow> bool" where
  "manifest_acceptable manifest \<longleftrightarrow>
     (let k = data_shards (sm_erasure manifest); m = parity_shards (sm_erasure manifest)
      in \<not> (k = 0 \<or> m = 0 \<or> 255 < unat k + unat m \<or> shard_size (sm_erasure manifest) = 0))"

definition better_candidate :: "shard_manifest \<Rightarrow> nat \<Rightarrow> candidate \<Rightarrow> bool" where
  "better_candidate manifest cnt current =
     (let new_recoverable = unat (data_shards (sm_erasure manifest)) \<le> cnt;
          cur_recoverable = unat (data_shards (sm_erasure (cd_manifest current))) \<le> cd_shard_count current
      in if new_recoverable \<noteq> cur_recoverable then new_recoverable
         else if new_recoverable then sm_written_at (cd_manifest current) < sm_written_at manifest
         else cd_shard_count current < cnt \<or>
              cnt = cd_shard_count current \<and> sm_written_at (cd_manifest current) < sm_written_at manifest)"

fun choose_winners ::
    "(version_group \<times> shard_manifest option) list \<Rightarrow> (string \<times> candidate) list \<Rightarrow> nat \<Rightarrow> (string \<times> candidate) list \<times> nat" where
  "choose_winners [] winners unreadable = (winners, unreadable)"
| "choose_winners ((vgroup, None) # rest) winners unreadable = choose_winners rest winners (unreadable + 1)"
| "choose_winners ((vgroup, Some manifest) # rest) winners unreadable =
     (if \<not> manifest_acceptable manifest then choose_winners rest winners (unreadable + 1)
      else
        let cnt = length (vg_shard_locations vgroup);
            new = \<lparr>cd_manifest = manifest, cd_group = vgroup, cd_shard_count = cnt\<rparr>
        in case map_of winners (vg_object_id vgroup) of
             None \<Rightarrow> choose_winners rest (winners @ [(vg_object_id vgroup, new)]) unreadable
           | Some current \<Rightarrow>
               choose_winners rest
                 (if better_candidate manifest cnt current then um_assign winners (vg_object_id vgroup) new else winners)
                 unreadable)"

section \<open>Rebuilding the entries\<close>

text \<open>A shard that was not found gets a location on \<open>kUnknownNode\<close>; \<open>make_shard_key\<close> may throw.\<close>

fun rebuilt_locations ::
    "string \<Rightarrow> string \<Rightarrow> (32 word \<times> string) list \<Rightarrow> nat list \<Rightarrow> string list res" where
  "rebuilt_locations object_id version found [] = Inr []"
| "rebuilt_locations object_id version found (idx # rest) =
     bind_res (case map_of found (word_of_nat idx) of
         Some location \<Rightarrow> Inr location
       | None \<Rightarrow> bind_res (make_shard_key object_id version (word_of_nat idx)) (\<lambda>key. Inr (kUnknownNode @ ''/'' @ key)))
       (\<lambda>location. bind_res (rebuilt_locations object_id version found rest) (\<lambda>locations. Inr (location # locations)))"

definition rebuilt_metadata :: "string \<Rightarrow> candidate \<Rightarrow> object_metadata res" where
  "rebuilt_metadata object_id candidate =
     (let manifest = cd_manifest candidate; total = unat (data_shards (sm_erasure manifest) + parity_shards (sm_erasure manifest))
      in bind_res (rebuilt_locations object_id (sm_version manifest) (vg_shard_locations (cd_group candidate)) [0..<total])
           (\<lambda>locations. Inr \<lparr>md_id = object_id, md_size = sm_size manifest, md_checksum = sm_checksum manifest,
              md_erasure = sm_erasure manifest, md_shard_locations = locations,
              md_encrypted_dek = sm_encrypted_dek manifest, md_kek_id = sm_kek_id manifest, md_version = 0\<rparr>))"

text \<open>Only \<open>insert_if_absent\<close> is inside the \<open>try\<close>.\<close>

fun rebuild_entries ::
    "postgres \<Rightarrow> msgpack \<Rightarrow> tables \<Rightarrow> (string \<times> candidate) list \<Rightarrow> reindex_report \<Rightarrow> reindex_report res \<times> tables" where
  "rebuild_entries P M t [] report = (Inr report, t)"
| "rebuild_entries P M t ((object_id, candidate) # rest) report =
     (case rebuilt_metadata object_id candidate of
        Inl e \<Rightarrow> (Inl e, t)
      | Inr metadata \<Rightarrow>
          (case insert_if_absent P M t metadata of
             (Inl e, t') \<Rightarrow> rebuild_entries P M t' rest (report\<lparr>rx_errors := rx_errors report + 1\<rparr>)
           | (Inr False, t') \<Rightarrow>
               rebuild_entries P M t' rest (report\<lparr>rx_objects_skipped_existing := rx_objects_skipped_existing report + 1\<rparr>)
           | (Inr True, t') \<Rightarrow>
               rebuild_entries P M t' rest
                 (report\<lparr>rx_objects_recovered := rx_objects_recovered report + 1,
                    rx_degraded_objects := rx_degraded_objects report +
                      (if cd_shard_count candidate < length (md_shard_locations metadata) then 1 else 0)\<rparr>)))"

definition reindex :: "('c, 'key) libs \<Rightarrow> ('c, 'key) client \<Rightarrow> reindex_report res \<times> ('c, 'key) client" where
  "reindex L s =
     (case list_nodes (lb_pg L) (sc_catalog s) of
        Inl e \<Rightarrow> (Inl e, s)
      | Inr nodes \<Rightarrow>
        (case scan_nodes (lb_send L) (lb_json L) (sc_cluster s) nodes of
          (scans, c1) \<Rightarrow>
        let groups = group_scans scans in
        (case fetch_manifests (lb_send L) (lb_msgpack L) c1 (um_iter (lb_ord L) groups) of
          (manifests, c2) \<Rightarrow>
        (case choose_winners manifests [] 0 of
          (winners, unreadable) \<Rightarrow>
        (case rebuild_entries (lb_pg L) (lb_msgpack L) (sc_catalog s) (um_iter (lb_ord L) winners)
                \<lparr>rx_versions_scanned = length groups, rx_objects_recovered = 0, rx_objects_skipped_existing = 0,
                 rx_degraded_objects = 0, rx_unreadable_versions = unreadable, rx_errors = 0\<rparr> of
          (r, t') \<Rightarrow> (r, s\<lparr>sc_cluster := c2, sc_catalog := t'\<rparr>))))))"

end
