(* ===== verification/Reindex_Lemmas.thy ===== *)
theory Reindex_Lemmas
  imports "HOL-Library.Product_Lexorder" Reindex Repair_Properties
begin

text \<open>
  What each step of \<open>reindex\<close> finds: the groups of the scanned keys, the winner of each object, the
  entries that are inserted.
\<close>

section \<open>Groups\<close>

definition parsed_key :: "string \<Rightarrow> parsed_shard_key option" where
  "parsed_key key = (case parse_shard_key key of Inl _ \<Rightarrow> None | Inr p \<Rightarrow> Some p)"

definition gid_of :: "parsed_shard_key \<Rightarrow> string" where
  "gid_of p = pk_object_id p @ ''/'' @ pk_version p"

definition found_locations :: "(string \<times> string) list \<Rightarrow> (32 word \<times> string) list" where
  "found_locations ks = fold (\<lambda>(node, key) m. um_assign m (pk_shard_index (the (parsed_key key))) (node @ ''/'' @ key)) ks []"

text \<open>The group made of the keys \<open>ks\<close>; the first is its representative.\<close>

definition group_from :: "(string \<times> string) list \<Rightarrow> version_group" where
  "group_from ks = \<lparr>vg_object_id = pk_object_id (the (parsed_key (snd (hd ks)))),
     vg_version = pk_version (the (parsed_key (snd (hd ks)))), vg_shard_locations = found_locations ks,
     vg_rep_node = fst (hd ks), vg_rep_key = snd (hd ks)\<rparr>"

definition keys_of :: "string \<Rightarrow> (string \<times> string) list \<Rightarrow> (string \<times> string) list" where
  "keys_of gid pairs = filter (\<lambda>(node, key). map_option gid_of (parsed_key key) = Some gid) pairs"

definition scanned :: "(string \<times> string list) list \<Rightarrow> (string \<times> string) list" where
  "scanned scans = concat (map (\<lambda>(node, keys). map (Pair node) keys) scans)"

lemma in_scanned [simp]: "(a, k) \<in> set (scanned scans) \<longleftrightarrow> (\<exists>ks. (a, ks) \<in> set scans \<and> k \<in> set ks)"
  by (force simp: scanned_def)

lemma parsed_key_parts:
  assumes "parsed_key key = Some p"
  shows "pk_object_id p \<noteq> [] \<and> pk_version p \<noteq> [] \<and> CHR ''/'' \<notin> set (pk_object_id p)"
proof -
  obtain first where f: "find_char (CHR ''/'') key = Some first"
    and p: "pk_object_id p = substr key 0 first" "pk_object_id p \<noteq> []" "pk_version p \<noteq> []"
    using assms
    by (auto simp: parsed_key_def parse_shard_key_def Let_def split: option.splits if_splits sum.splits)
  then show ?thesis using find_char_SomeD [OF f] by (auto simp: substr_def)
qed

lemma gid_of_inj:
  assumes "parsed_key k = Some p" and "parsed_key k' = Some q" and "gid_of p = gid_of q"
  shows "pk_object_id p = pk_object_id q \<and> pk_version p = pk_version q"
proof -
  let ?w = "takeWhile (\<lambda>d. d \<noteq> CHR ''/'')"
  have "?w (gid_of p) = pk_object_id p \<and> tl (dropWhile (\<lambda>d. d \<noteq> CHR ''/'') (gid_of p)) = pk_version p"
    if "CHR ''/'' \<notin> set (pk_object_id p)" for p
    using that by (simp add: gid_of_def cpp_simps)
  then show ?thesis using assms parsed_key_parts by metis
qed

lemma group_scans_fold: "group_scans scans = fold (\<lambda>(node, key). add_key node key) (scanned scans) []"
proof -
  have "fold (add_key node) keys g = fold (\<lambda>(node, key). add_key node key) (map (Pair node) keys) g" for node keys g
    by (induction keys arbitrary: g) auto
  then have "fold (\<lambda>(node, keys). fold (add_key node) keys) scans g = fold (\<lambda>(node, key). add_key node key) (scanned scans) g" for g
    by (induction scans arbitrary: g) (auto simp: scanned_def)
  then show ?thesis by (simp add: group_scans_def)
qed

lemma group_fold_spec:
  "distinct (map fst (fold (\<lambda>(node, key). add_key node key) pairs [])) \<and>
   (\<forall>gid. map_of (fold (\<lambda>(node, key). add_key node key) pairs []) gid =
      (if keys_of gid pairs = [] then None else Some (group_from (keys_of gid pairs))))"
proof (induction pairs rule: rev_induct)
  case (snoc x pairs)
  obtain node key where x: "x = (node, key)" by (cases x)
  let ?m = "fold (\<lambda>(node, key). add_key node key) pairs []"
  show ?case
  proof (cases "parse_shard_key key")
    case (Inl e)
    then show ?thesis using snoc by (simp add: x add_key_def keys_of_def parsed_key_def)
  next
    case (Inr p)
    have pk: "parsed_key key = Some p" using Inr by (simp add: parsed_key_def)
    let ?g = "gid_of p"
    have k: "keys_of gid (pairs @ [x]) = keys_of gid pairs @ (if gid = ?g then [x] else [])" for gid
      by (simp add: keys_of_def x pk)
    have oid: "vg_object_id (group_from (keys_of ?g pairs)) \<noteq> []" if "keys_of ?g pairs \<noteq> []"
    proof -
      have "hd (keys_of ?g pairs) \<in> set (keys_of ?g pairs)" using that by simp
      then obtain q where "parsed_key (snd (hd (keys_of ?g pairs))) = Some q" by (auto simp: keys_of_def)
      then show ?thesis using parsed_key_parts by (auto simp: group_from_def)
    qed
    have "add_key node key m = um_assign m ?g (group_from (keys_of ?g pairs @ [x]))"
      if "map_of m ?g = (if keys_of ?g pairs = [] then None else Some (group_from (keys_of ?g pairs)))" for m
    proof -
      have g: "pk_object_id p @ CHR ''/'' # pk_version p = ?g" by (simp add: gid_of_def)
      show ?thesis
      proof (cases "keys_of ?g pairs = []")
        case True
        then show ?thesis using that
          by (simp add: add_key_def Inr Let_def g empty_group_def group_from_def found_locations_def x pk)
      next
        case False
        have "group_from (keys_of ?g pairs @ [x]) = (group_from (keys_of ?g pairs))\<lparr>vg_shard_locations :=
            um_assign (vg_shard_locations (group_from (keys_of ?g pairs))) (pk_shard_index p) (node @ ''/'' @ key)\<rparr>"
          using False by (simp add: group_from_def found_locations_def x pk)
        then show ?thesis using that False oid by (simp add: add_key_def Inr Let_def g)
      qed
    qed
    with snoc have "add_key node key ?m = um_assign ?m ?g (group_from (keys_of ?g pairs @ [x]))" by blast
    then show ?thesis using snoc by (simp add: k [unfolded x] x)
  qed
qed (simp add: keys_of_def)

lemma group_scans_spec:
  "distinct (map fst (group_scans scans)) \<and>
   (\<forall>gid. map_of (group_scans scans) gid =
      (if keys_of gid (scanned scans) = [] then None else Some (group_from (keys_of gid (scanned scans)))))"
  unfolding group_scans_fold by (rule group_fold_spec)

lemma found_locations_spec:
  "map_of (found_locations ks) idx = Some loc \<Longrightarrow>
     \<exists>(node, key)\<in>set ks. pk_shard_index (the (parsed_key key)) = idx \<and> loc = node @ ''/'' @ key"
  "(node, key) \<in> set ks \<Longrightarrow> map_of (found_locations ks) (pk_shard_index (the (parsed_key key))) \<noteq> None"
proof -
  let ?idx = "\<lambda>x. pk_shard_index (the (parsed_key (snd x)))"
  have "(map_of (found_locations ks) idx = Some loc \<longrightarrow> (\<exists>x\<in>set ks. ?idx x = idx \<and> loc = fst x @ ''/'' @ snd x)) \<and>
    (\<forall>x\<in>set ks. map_of (found_locations ks) (?idx x) \<noteq> None)" for idx loc
  proof (induction ks arbitrary: idx loc rule: rev_induct)
    case (snoc x ks)
    have f: "found_locations (ks @ [x]) = um_assign (found_locations ks) (?idx x) (fst x @ ''/'' @ snd x)"
      by (simp add: found_locations_def split: prod.splits)
    show ?case unfolding f using snoc by auto
  qed (simp add: found_locations_def)
  then show "map_of (found_locations ks) idx = Some loc \<Longrightarrow>
     \<exists>(node, key)\<in>set ks. pk_shard_index (the (parsed_key key)) = idx \<and> loc = node @ ''/'' @ key"
    "(node, key) \<in> set ks \<Longrightarrow> map_of (found_locations ks) (pk_shard_index (the (parsed_key key))) \<noteq> None" by fastforce+
qed

section \<open>The winner of an object\<close>

abbreviation outranks :: "candidate \<Rightarrow> candidate \<Rightarrow> bool" where
  "outranks x y \<equiv> better_candidate (cd_manifest x) (cd_shard_count x) y"

definition recoverable :: "candidate \<Rightarrow> bool" where
  "recoverable x \<longleftrightarrow> unat (data_shards (sm_erasure (cd_manifest x))) \<le> cd_shard_count x"

text \<open>What the comparison compares: recoverable first, then the shard count unless recoverable, then the time.\<close>

definition rank :: "candidate \<Rightarrow> nat \<times> nat \<times> nat" where
  "rank x = (if recoverable x then (1, 0, unat (sm_written_at (cd_manifest x)))
     else (0, cd_shard_count x, unat (sm_written_at (cd_manifest x))))"

lemma outranks_rank: "outranks x y \<longleftrightarrow> rank y < rank x"
  by (auto simp: better_candidate_def rank_def recoverable_def Let_def word_less_nat_alt)

definition candidate_of :: "version_group \<Rightarrow> shard_manifest \<Rightarrow> candidate" where
  "candidate_of g mf = \<lparr>cd_manifest = mf, cd_group = g, cd_shard_count = length (vg_shard_locations g)\<rparr>"

definition candidates :: "(version_group \<times> shard_manifest option) list \<Rightarrow> string \<Rightarrow> candidate set" where
  "candidates ms oid = {candidate_of g mf |g mf. (g, Some mf) \<in> set ms \<and> manifest_acceptable mf \<and> vg_object_id g = oid}"

lemma candidates_simps [simp]:
  "candidates [] oid = {}"
  "candidates ((g, None) # ms) oid = candidates ms oid"
  "candidates ((g, Some mf) # ms) oid =
     (if manifest_acceptable mf \<and> vg_object_id g = oid then insert (candidate_of g mf) (candidates ms oid) else candidates ms oid)"
  by (auto simp: candidates_def)

lemma choose_winners_spec:
  "choose_winners ms ws n = (ws', n') \<Longrightarrow> distinct (map fst ws) \<Longrightarrow>
   distinct (map fst ws') \<and>
   (\<forall>oid. map_of ws' oid = None \<longleftrightarrow> map_of ws oid = None \<and> candidates ms oid = {}) \<and>
   (\<forall>oid c. map_of ws' oid = Some c \<longrightarrow>
      c \<in> candidates ms oid \<union> set_option (map_of ws oid) \<and>
      (\<forall>x \<in> candidates ms oid \<union> set_option (map_of ws oid). rank x \<le> rank c))"
proof (induction ms arbitrary: ws n)
  case (Cons m rest)
  obtain g o' where m: "m = (g, o')" by (cases m)
  show ?case
  proof (cases "\<exists>mf. o' = Some mf \<and> manifest_acceptable mf")
    case False
    then have "choose_winners rest ws (n + 1) = (ws', n')" using Cons.prems(1) by (cases o') (auto simp: m)
    moreover have "candidates (m # rest) oid = candidates rest oid" for oid
      using False by (cases o') (auto simp: m)
    ultimately show ?thesis using Cons.IH Cons.prems(2) by simp
  next
    case True
    then obtain mf where mf: "o' = Some mf" "manifest_acceptable mf" by blast
    let ?new = "candidate_of g mf" and ?oid = "vg_object_id g"
    define best where "best = (case map_of ws ?oid of None \<Rightarrow> ?new | Some cur \<Rightarrow> if outranks ?new cur then ?new else cur)"
    define ws1 where "ws1 = (case map_of ws ?oid of None \<Rightarrow> ws @ [(?oid, ?new)]
      | Some cur \<Rightarrow> if outranks ?new cur then um_assign ws ?oid ?new else ws)"
    have ch: "choose_winners rest ws1 n = (ws', n')"
      using Cons.prems(1) mf by (auto simp: m ws1_def candidate_of_def Let_def split: option.splits if_splits)
    have d1: "distinct (map fst ws1)"
      using Cons.prems(2) by (auto simp: ws1_def map_of_eq_None_iff split: option.splits)
    have m1: "map_of ws1 = (map_of ws)(?oid \<mapsto> best)"
      by (auto simp: ws1_def best_def fun_eq_iff map_add_def split: option.splits)
    have best: "best \<in> insert ?new (set_option (map_of ws ?oid))"
      "\<forall>x \<in> insert ?new (set_option (map_of ws ?oid)). rank x \<le> rank best"
      by (auto simp: best_def outranks_rank not_less split: option.splits)
    have c: "candidates (m # rest) oid = (if oid = ?oid then insert ?new (candidates rest oid) else candidates rest oid)" for oid
      using mf by (simp add: m)
    note IH = Cons.IH [OF ch d1, unfolded m1]
    show ?thesis
    proof (intro conjI allI impI)
      show "distinct (map fst ws')" using IH by blast
      show "map_of ws' oid = None \<longleftrightarrow> map_of ws oid = None \<and> candidates (m # rest) oid = {}" for oid
        using IH by (simp add: c)
      fix oid w assume w: "map_of ws' oid = Some w"
      have I: "w \<in> candidates rest oid \<union> set_option (((map_of ws)(?oid \<mapsto> best)) oid)"
        "\<forall>x \<in> candidates rest oid \<union> set_option (((map_of ws)(?oid \<mapsto> best)) oid). rank x \<le> rank w" using IH w by blast+
      show "w \<in> candidates (m # rest) oid \<union> set_option (map_of ws oid)"
        using I(1) best(1) by (cases "oid = ?oid") (auto simp: c)
      show "\<forall>x\<in>candidates (m # rest) oid \<union> set_option (map_of ws oid). rank x \<le> rank w"
      proof (cases "oid = ?oid")
        case True
        then have i: "\<forall>x \<in> candidates rest oid. rank x \<le> rank w" "rank best \<le> rank w" using I(2) by auto
        then have "\<forall>x \<in> insert ?new (set_option (map_of ws oid)). rank x \<le> rank w"
          using best(2) True order_trans by blast
        then show ?thesis using i(1) True by (auto simp: c)
      next
        case False
        then show ?thesis using I(2) by (simp add: c)
      qed
    qed
  qed
qed simp

section \<open>Reading the nodes\<close>

context shard_listing
begin

lemma scan_nodes_spec:
  "ok c \<Longrightarrow> scan_nodes send J c ns = (scans, c') \<Longrightarrow>
   ok c' \<and> shards c' = shards c \<and> (\<forall>a. up c a \<longrightarrow> up c' a) \<and> map fst scans = ns \<and>
   (\<forall>(a, ks)\<in>set scans. set ks \<subseteq> dom (shards c a))"
proof (induction ns arbitrary: c scans)
  case (Cons n ns)
  obtain ks c1 where l: "list_node_shards send J c n = (ks, c1)" by fastforce
  obtain ss where r: "scan_nodes send J c1 ns = (ss, c')" "scans = (n, ks) # ss"
    using Cons.prems(2) l by (auto split: prod.splits)
  note ls = list_node_shards_spec [OF Cons.prems(1) l]
  note IH = Cons.IH [OF conjunct1 [OF ls] r(1)]
  show ?case using ls IH by (auto simp: r(2))
qed auto

lemma fetch_manifest_up:
  assumes "ok c" and "plain_location l" and "fetch_shard_manifest send M c a l = (r, c')"
    and "up c a" and "is_ok (get_node_client a)" and "shards c a l = Some b" and "decode_shard M b = Inr (e, Some mf)"
  shows "r = Some mf"
proof -
  obtain u where u: "get_node_client a = Inr u" using assms(5) by (cases "get_node_client a") auto
  obtain q c1 where s: "send c a GET (shard_target l) [] = (q, c1)" by fastforce
  have "got_200 q" using get_shard_up [OF assms(1,2) s assms(4)] assms(6) by simp
  then show ?thesis using get_shard [OF assms(1,2) s] assms u s by (simp add: fetch_shard_manifest_def)
qed

lemma fetch_shard_manifest_frame:
  assumes "ok c" and "fetch_shard_manifest send M c a l = (r, c')"
  shows "ok c' \<and> shards c' = shards c \<and> (\<forall>a. up c a \<longrightarrow> up c' a)"
proof (cases "get_node_client a")
  case (Inr u)
  obtain q c1 where s: "send c a GET (shard_target l) [] = (q, c1)" by fastforce
  then have "c' = c1" using assms(2) Inr by (simp add: fetch_shard_manifest_def)
  then show ?thesis using get_ok [OF assms(1) s] get_snd [OF s] get_up' [OF _ s] by blast
qed (use assms in \<open>simp add: fetch_shard_manifest_def\<close>)

lemma fetch_manifests_spec:
  "ok c \<Longrightarrow> fetch_manifests send M c gs = (ms, c') \<Longrightarrow>
   ok c' \<and> shards c' = shards c \<and> (\<forall>a. up c a \<longrightarrow> up c' a) \<and> map fst ms = map snd gs \<and>
   (\<forall>g r. (g, r) \<in> set ms \<longrightarrow> (\<forall>b e mf. plain_location (vg_rep_key g) \<longrightarrow> up c (vg_rep_node g) \<longrightarrow>
      is_ok (get_node_client (vg_rep_node g)) \<longrightarrow> shards c (vg_rep_node g) (vg_rep_key g) = Some b \<longrightarrow>
      decode_shard M b = Inr (e, Some mf) \<longrightarrow> r = Some mf))"
proof (induction gs arbitrary: c ms)
  case (Cons x gs)
  obtain i g where x: "x = (i, g)" by (cases x)
  obtain r c1 where f: "fetch_shard_manifest send M c (vg_rep_node g) (vg_rep_key g) = (r, c1)" by fastforce
  obtain rs where rs: "fetch_manifests send M c1 gs = (rs, c')" "ms = (g, r) # rs"
    using Cons.prems(2) f by (auto simp: x split: prod.splits)
  note fr = fetch_shard_manifest_frame [OF Cons.prems(1) f]
  note IH = Cons.IH [OF conjunct1 [OF fr] rs(1)]
  show ?case using fr IH fetch_manifest_up [OF Cons.prems(1) _ f] by (auto simp: rs(2) x)
qed auto

text \<open>
  What is read as the manifest of a group is stored at its representative key.\<close>

lemma fetch_manifests_sound:
  "ok c \<Longrightarrow> fetch_manifests send M c gs = (ms, c') \<Longrightarrow> (g, Some mf) \<in> set ms \<Longrightarrow> plain_location (vg_rep_key g) \<Longrightarrow>
   \<exists>b e. shards c (vg_rep_node g) (vg_rep_key g) = Some b \<and> decode_shard M b = Inr (e, Some mf)"
proof (induction gs arbitrary: c ms)
  case (Cons x gs)
  obtain i h where x: "x = (i, h)" by (cases x)
  obtain r c1 where f: "fetch_shard_manifest send M c (vg_rep_node h) (vg_rep_key h) = (r, c1)" by fastforce
  obtain rs where rs: "fetch_manifests send M c1 gs = (rs, c')" "ms = (h, r) # rs"
    using Cons.prems(2) f by (auto simp: x split: prod.splits)
  note fr = fetch_shard_manifest_frame [OF Cons.prems(1) f]
  show ?case
  proof (cases "(g, Some mf) \<in> set rs")
    case True
    from Cons.IH [OF conjunct1 [OF fr] rs(1) True Cons.prems(4)] fr show ?thesis by simp
  next
    case False
    then have "h = g" "r = Some mf" using Cons.prems(3) by (simp_all add: rs(2))
    then show ?thesis using fetch_shard_manifest_spec [OF Cons.prems(1) _ f] Cons.prems(4) by auto
  qed
qed simp

end

section \<open>Inserting the entries\<close>

lemma rebuilt_locations_ok:
  assumes "key_parts_ok oid ver" and "\<forall>i\<in>set idxs. i < 4294967296"
    and "\<forall>i\<in>set idxs. \<forall>loc. map_of found (word_of_nat i) = Some loc \<longrightarrow> (\<exists>a. loc = location_of a oid ver i)"
  shows "rebuilt_locations oid ver found idxs =
    Inr (map (\<lambda>i. case map_of found (word_of_nat i) of Some loc \<Rightarrow> loc | None \<Rightarrow> location_of kUnknownNode oid ver i) idxs)"
  using assms(2,3)
proof (induction idxs)
  case (Cons i idxs)
  have "make_shard_key oid ver (word_of_nat i) = Inr (shard_key_of oid ver i)"
    using Cons.prems by (intro make_key_ok [OF assms(1)]) auto
  then show ?case using Cons by (auto simp: location_of_def split: option.splits)
qed simp

lemma rebuilt_metadata_id: "rebuilt_metadata oid c = Inr md \<Longrightarrow> md_id md = oid"
  by (auto simp: rebuilt_metadata_def Let_def)

lemma insert_catalog:
  assumes "tables_ok P t" and "insert_if_absent P M t md = (b, t')"
  shows "t_nodes t' = t_nodes t \<and> (catalog t' = catalog t \<or> (\<exists>u. pg_uuid P (md_id md) = Some u \<and> catalog t u = None \<and>
    catalog t' = (catalog t)(u \<mapsto> (row_of M md u 1, md_shard_locations md))))"
proof -
  have "or_id (row_of M md u 1) = u" for u by (simp add: row_of_def)
  moreover have "version_at t u = None \<longleftrightarrow> catalog t u = None" for u by (simp add: version_at_def catalog_def)
  moreover have "t_nodes (replaced t u r ls) = t_nodes t" for u r ls by (simp add: replaced_def)
  ultimately show ?thesis using insert_if_absent_cases [OF assms] catalog_replaced by metis
qed

lemma insert_Inr:
  assumes "tables_ok P t" and "insert_if_absent P M t md = (Inr b, t')" and "pg_uuid P (md_id md) = Some u" and "catalog t u = None"
  shows "catalog t' u = Some (row_of M md u 1, md_shard_locations md)"
proof -
  have "insert_if_absent_transaction P M t md = Inr (b, t')"
    using assms(2) by (auto simp: insert_if_absent_def commit_Inr split: sum.splits prod.splits)
  from insert_if_absent_transaction_spec [OF assms(1) this] assms(3,4)
  have "t' = replaced t u (row_of M md u 1) (md_shard_locations md)" by (auto simp: catalog_def split: if_splits)
  then show ?thesis by (simp add: catalog_replaced row_of_def)
qed

text \<open>
  Entries are only added, and only for objects that were found.\<close>

lemma rebuild_entries_frame:
  "postgres_ok P \<Longrightarrow> tables_ok P t \<Longrightarrow> rebuild_entries P M t xs report = (r, t') \<Longrightarrow>
   tables_ok P t' \<and> t_nodes t' = t_nodes t \<and>
   (\<forall>u. catalog t' u = catalog t u \<or> catalog t u = None \<and> (\<exists>(oid, c)\<in>set xs. pg_uuid P oid = Some u)) \<and>
   (\<forall>report'. r = Inr report' \<longrightarrow> rx_errors report \<le> rx_errors report' \<and>
      rx_objects_recovered report' + rx_objects_skipped_existing report' + rx_errors report' =
        rx_objects_recovered report + rx_objects_skipped_existing report + rx_errors report + length xs \<and>
      rx_versions_scanned report' = rx_versions_scanned report \<and> rx_unreadable_versions report' = rx_unreadable_versions report)"
proof (induction xs arbitrary: t report)
  case (Cons x xs)
  obtain oid c where x: "x = (oid, c)" by (cases x)
  show ?case
  proof (cases "rebuilt_metadata oid c")
    case (Inl e)
    then show ?thesis using Cons.prems by (auto simp: x)
  next
    case (Inr md)
    obtain b t1 where i: "insert_if_absent P M t md = (b, t1)" by fastforce
    have ok: "tables_ok P t1" by (rule store_write_ok [OF Cons.prems(1,2) write_insert [OF i]])
    have fr: "t_nodes t1 = t_nodes t" "\<forall>u. catalog t1 u = catalog t u \<or> catalog t u = None \<and> pg_uuid P oid = Some u"
      using insert_catalog [OF Cons.prems(2) i] rebuilt_metadata_id [OF Inr] by (auto split: if_splits)
    obtain report1 where r1: "rebuild_entries P M t1 xs report1 = (r, t')" "rx_errors report \<le> rx_errors report1"
      "rx_objects_recovered report1 + rx_objects_skipped_existing report1 + rx_errors report1 =
        rx_objects_recovered report + rx_objects_skipped_existing report + rx_errors report + 1"
      "rx_versions_scanned report1 = rx_versions_scanned report" "rx_unreadable_versions report1 = rx_unreadable_versions report"
    proof (cases b)
      case (Inl e)
      then show ?thesis using Cons.prems(3) i Inr by (intro that [of "report\<lparr>rx_errors := rx_errors report + 1\<rparr>"]) (simp_all add: x)
    next
      case ins: (Inr d)
      let ?rep = "if d then report\<lparr>rx_objects_recovered := rx_objects_recovered report + 1,
          rx_degraded_objects := rx_degraded_objects report + (if cd_shard_count c < length (md_shard_locations md) then 1 else 0)\<rparr>
        else report\<lparr>rx_objects_skipped_existing := rx_objects_skipped_existing report + 1\<rparr>"
      have "rebuild_entries P M t1 xs ?rep = (r, t')" using Cons.prems(3) i Inr ins by (cases d) (simp_all add: x)
      then show ?thesis by (rule that) simp_all
    qed
    have I: "tables_ok P t' \<and> t_nodes t' = t_nodes t1 \<and>
       (\<forall>u. catalog t' u = catalog t1 u \<or> catalog t1 u = None \<and> (\<exists>(oid, c)\<in>set xs. pg_uuid P oid = Some u)) \<and>
       (\<forall>report'. r = Inr report' \<longrightarrow> rx_errors report1 \<le> rx_errors report' \<and>
          rx_objects_recovered report' + rx_objects_skipped_existing report' + rx_errors report' =
            rx_objects_recovered report1 + rx_objects_skipped_existing report1 + rx_errors report1 + length xs \<and>
          rx_versions_scanned report' = rx_versions_scanned report1 \<and> rx_unreadable_versions report' = rx_unreadable_versions report1)"
      by (rule Cons.IH [OF Cons.prems(1) ok r1(1)])
    have cat: "catalog t' u = catalog t u \<or> catalog t u = None \<and> (\<exists>(oid, c)\<in>set (x # xs). pg_uuid P oid = Some u)" for u
    proof -
      consider "catalog t' u = catalog t1 u" | "catalog t1 u = None" "\<exists>(oid, c)\<in>set xs. pg_uuid P oid = Some u"
        using I [THEN conjunct2, THEN conjunct2, THEN conjunct1, rule_format, of u] by (elim disjE conjE)
      then show ?thesis
      proof cases
        case 1
        then show ?thesis using fr(2) by (auto simp: x)
      next
        case 2
        have "catalog t u = None" using 2(1) fr(2) by metis
        then show ?thesis using 2(2) by auto
      qed
    qed
    have rep: "rx_errors report \<le> rx_errors report' \<and>
      rx_objects_recovered report' + rx_objects_skipped_existing report' + rx_errors report' =
        rx_objects_recovered report + rx_objects_skipped_existing report + rx_errors report + length (x # xs) \<and>
      rx_versions_scanned report' = rx_versions_scanned report \<and> rx_unreadable_versions report' = rx_unreadable_versions report"
      if "r = Inr report'" for report'
      using I [THEN conjunct2, THEN conjunct2, THEN conjunct2, rule_format, OF that] r1(2-5) by simp
    show ?thesis by (intro conjI allI impI cat rep) (use I fr(1) in simp_all)
  qed
qed auto

lemma rebuild_entries_inserts:
  assumes "postgres_ok P" and "tables_ok P t" and "rebuild_entries P M t xs report = (Inr report', t')"
    and "rx_errors report' = rx_errors report" and "distinct (map fst xs)" and "(oid, c) \<in> set xs"
    and "pg_uuid P oid = Some u" and "catalog t u = None" and "\<forall>(oid', c')\<in>set xs. oid' \<noteq> oid \<longrightarrow> pg_uuid P oid' \<noteq> Some u"
  shows "\<exists>md. rebuilt_metadata oid c = Inr md \<and> catalog t' u = Some (row_of M md u 1, md_shard_locations md)"
  using assms(2-6,8-9)
proof (induction xs arbitrary: t report)
  case (Cons x xs)
  obtain oid1 c1 where x: "x = (oid1, c1)" by (cases x)
  obtain md1 where md1: "rebuilt_metadata oid1 c1 = Inr md1" using Cons.prems(2) by (cases "rebuilt_metadata oid1 c1") (auto simp: x)
  obtain b t1 where i: "insert_if_absent P M t md1 = (b, t1)" by fastforce
  have ok: "tables_ok P t1" by (rule store_write_ok [OF assms(1) Cons.prems(1) write_insert [OF i]])
  have step: "\<exists>d report1. b = Inr d \<and> rebuild_entries P M t1 xs report1 = (Inr report', t') \<and> rx_errors report' = rx_errors report1"
  proof (cases b)
    case (Inl e)
    then have "rebuild_entries P M t1 xs (report\<lparr>rx_errors := rx_errors report + 1\<rparr>) = (Inr report', t')"
      using Cons.prems(2) md1 i by (simp add: x)
    from rebuild_entries_frame [OF assms(1) ok this] show ?thesis using Cons.prems(3) by simp
  next
    case (Inr d)
    then show ?thesis using Cons.prems(2,3) md1 i by (cases d) (auto simp: x)
  qed
  then obtain d report1 where d: "b = Inr d" "rebuild_entries P M t1 xs report1 = (Inr report', t')"
    "rx_errors report' = rx_errors report1" by blast
  show ?case
  proof (cases "oid1 = oid")
    case True
    then have c: "c1 = c" using Cons.prems(4,5) by (force simp: x)
    have "catalog t1 u = Some (row_of M md1 u 1, md_shard_locations md1)"
      using insert_Inr [OF Cons.prems(1) i [unfolded d(1)]] rebuilt_metadata_id [OF md1] True assms(7) Cons.prems(6) by simp
    moreover have "catalog t' u = catalog t1 u" using rebuild_entries_frame [OF assms(1) ok d(2)] calculation by (metis option.distinct(1))
    ultimately show ?thesis using md1 c True by simp
  next
    case False
    have "pg_uuid P oid1 \<noteq> Some u" using Cons.prems(7) False by (auto simp: x)
    then have "catalog t1 u = None"
      using insert_catalog [OF Cons.prems(1) i] rebuilt_metadata_id [OF md1] Cons.prems(6) by auto
    then show ?thesis
      using False Cons.prems by (intro Cons.IH [OF ok d(2,3)]) (auto simp: x)
  qed
qed simp

end
