(* ===== verification/Reindex_Properties.thy ===== *)
theory Reindex_Properties
  imports Reindex_Lemmas
begin

text \<open>
  What reindexing promises: nothing stored or catalogued is touched, the newest recoverable version
  of each object wins, and an object whose entry is lost can be read again.
\<close>

section \<open>Frame\<close>

lemma reindex_parts:
  fixes L :: "('db cluster, 'key) libs"
  assumes lib: "libs_ok L D T" and r: "reindex L s = (Inr report, s')"
  obtains nodes scans c1 ms c2 ws n report0 t' where "list_nodes (lb_pg L) (sc_catalog s) = Inr nodes"
    "scan_nodes (lb_send L) (lb_json L) (sc_cluster s) nodes = (scans, c1)"
    "fetch_manifests (lb_send L) (lb_msgpack L) c1 (um_iter (lb_ord L) (group_scans scans)) = (ms, c2)"
    "choose_winners ms [] 0 = (ws, n)"
    "rebuild_entries (lb_pg L) (lb_msgpack L) (sc_catalog s) (um_iter (lb_ord L) ws) report0 = (Inr report, t')"
    "s' = s\<lparr>sc_cluster := c2, sc_catalog := t'\<rparr>" "rx_errors report0 = 0"
  using r by (auto simp: reindex_def Let_def split: sum.splits prod.splits)

text \<open>
  C19: Reindexing, however it ends, changes no shard and no key, and never touches an entry of the
  catalog: it only adds entries for objects that had none.
\<close>

theorem reindex_no_clobber:
  assumes lib: "libs_ok L D T" and t: "tables_ok (lb_pg L) (sc_catalog s)" and r: "reindex L s = (r, s')"
  shows "cluster_shards D (sc_cluster s') = cluster_shards D (sc_cluster s) \<and> sc_ring s' = sc_ring s \<and>
    tables_ok (lb_pg L) (sc_catalog s') \<and> t_nodes (sc_catalog s') = t_nodes (sc_catalog s) \<and>
    (\<forall>u. catalog (sc_catalog s) u \<noteq> None \<longrightarrow> catalog (sc_catalog s') u = catalog (sc_catalog s) u)"
proof (cases "list_nodes (lb_pg L) (sc_catalog s)")
  case (Inl e)
  then show ?thesis using r t by (auto simp: reindex_def)
next
  case (Inr nodes)
  have l: "lb_send L = cluster_send D (lb_json L) T" "postgres_ok (lb_pg L)" using lib by (simp_all add: libs_ok_def)
  obtain scans c1 ms c2 ws n where p: "scan_nodes (lb_send L) (lb_json L) (sc_cluster s) nodes = (scans, c1)"
    "fetch_manifests (lb_send L) (lb_msgpack L) c1 (um_iter (lb_ord L) (group_scans scans)) = (ms, c2)"
    "choose_winners ms [] 0 = (ws, n)" by (metis prod.exhaust)
  obtain report0 t' where q: "rebuild_entries (lb_pg L) (lb_msgpack L) (sc_catalog s) (um_iter (lb_ord L) ws) report0 = (r, t')"
    "s' = s\<lparr>sc_cluster := c2, sc_catalog := t'\<rparr>"
    using r Inr p by (auto simp: reindex_def Let_def split: prod.splits)
  note S = cluster.scan_nodes_spec [OF libs_ok_cluster [OF lib] p(1) [unfolded l(1)]]
  note F = cluster.fetch_manifests_spec [OF conjunct1 [OF S] p(2) [unfolded l(1)]]
  have sh: "cluster_shards D c2 = cluster_shards D (sc_cluster s)" using S F by simp
  show ?thesis using q(2) sh rebuild_entries_frame [OF l(2) t q(1)] by auto
qed

section \<open>Which version wins\<close>

text \<open>
  C18: Among the versions of an object with a readable, acceptable manifest one wins, and it is a
  good one: if any version is recoverable, the winner is, and no recoverable version is newer; if
  none is, no version has more shards.
\<close>

theorem reindex_newest_recoverable:
  assumes "choose_winners ms [] 0 = (ws, n)" and "(g, Some mf) \<in> set ms" and "manifest_acceptable mf"
  shows "\<exists>c. map_of ws (vg_object_id g) = Some c \<and> c \<in> candidates ms (vg_object_id g) \<and>
    (unat (data_shards (sm_erasure mf)) \<le> length (vg_shard_locations g) \<longrightarrow>
       recoverable c \<and> sm_written_at mf \<le> sm_written_at (cd_manifest c)) \<and>
    (\<not> recoverable c \<longrightarrow> length (vg_shard_locations g) \<le> cd_shard_count c)"
proof -
  note W = choose_winners_spec [OF assms(1), simplified]
  have x: "candidate_of g mf \<in> candidates ms (vg_object_id g)" using assms(2,3) by (auto simp: candidates_def)
  then obtain c where c: "map_of ws (vg_object_id g) = Some c" using W by (cases "map_of ws (vg_object_id g)") auto
  then have r: "rank (candidate_of g mf) \<le> rank c" "c \<in> candidates ms (vg_object_id g)" using W x by auto
  have "recoverable (candidate_of g mf) \<longleftrightarrow> unat (data_shards (sm_erasure mf)) \<le> length (vg_shard_locations g)"
    by (simp add: recoverable_def candidate_of_def)
  then show ?thesis using c r
    by (auto simp: rank_def candidate_of_def word_le_nat_alt split: if_splits)
qed

section \<open>Recovery\<close>

text \<open>The shards \<open>plain\<close> of an object, and a manifest that leads to its bytes and its data key.\<close>

definition object_shards :: "('c, 'key) libs \<Rightarrow> string \<Rightarrow> string \<Rightarrow> erasure_spec \<Rightarrow> bytes \<Rightarrow> plain_shard list \<Rightarrow> bool" where
  "object_shards L oid ver spec data plain \<longleftrightarrow> encode (lb_isal L) data spec = Inr plain \<and>
     key_parts_ok oid ver \<and> list_all plain_char oid \<and> list_all plain_char ver"

definition describes :: "('c, 'key) libs \<Rightarrow> 'key ring \<Rightarrow> shard_manifest \<Rightarrow> string \<Rightarrow> erasure_spec \<Rightarrow> bytes \<Rightarrow> bytes \<Rightarrow> bool" where
  "describes L ring mf ver spec data dek \<longleftrightarrow> sm_version mf = ver \<and> sm_erasure mf = spec \<and>
     sm_size mf = word_of_nat (length data) \<and> sm_checksum mf = bytes_to_hex (checksum_sha256 (lb_botan L) data) \<and>
     recover_dek (lb_botan L) (lb_ord L) (sm_encrypted_dek mf) (sm_kek_id mf) ring = Inr dek"

text \<open>What the nodes \<open>A\<close> store of version \<open>ver\<close> of an object: the keys, the shard indices, the manifests.\<close>

definition keys_at :: "(string \<Rightarrow> string \<Rightarrow> bytes option) \<Rightarrow> string set \<Rightarrow> string \<Rightarrow> string \<Rightarrow> (string \<times> string) set" where
  "keys_at N A oid ver = {(a, l). a \<in> A \<and> N a l \<noteq> None \<and>
     (\<exists>p. parsed_key l = Some p \<and> pk_object_id p = oid \<and> pk_version p = ver)}"

definition indices_at :: "(string \<Rightarrow> string \<Rightarrow> bytes option) \<Rightarrow> string set \<Rightarrow> string \<Rightarrow> string \<Rightarrow> 32 word set" where
  "indices_at N A oid ver = (\<lambda>(a, l). pk_shard_index (the (parsed_key l))) ` keys_at N A oid ver"

definition manifests_at ::
    "msgpack \<Rightarrow> (string \<Rightarrow> string \<Rightarrow> bytes option) \<Rightarrow> string set \<Rightarrow> string \<Rightarrow> string \<Rightarrow> shard_manifest set" where
  "manifests_at M N A oid ver = {mf. \<exists>(a, l)\<in>keys_at N A oid ver. \<exists>b e. N a l = Some b \<and> decode_shard M b = Inr (e, Some mf)}"

text \<open>
  All that is stored of the version is genuine: each key holds its shard, with a manifest of the
  object. The manifests may differ, as those of repaired shards do: they carry the time of the repair.
\<close>

definition genuine_version ::
    "('c, 'key) libs \<Rightarrow> 'key ring \<Rightarrow> (string \<Rightarrow> string \<Rightarrow> bytes option) \<Rightarrow> string set \<Rightarrow> string \<Rightarrow> string \<Rightarrow> erasure_spec \<Rightarrow>
     bytes \<Rightarrow> bytes \<Rightarrow> plain_shard list \<Rightarrow> bool" where
  "genuine_version L ring N A oid ver spec data dek plain \<longleftrightarrow> (\<forall>(a, l)\<in>keys_at N A oid ver. \<exists>j<length plain. \<exists>b e mf.
     l = shard_key_of oid ver j \<and> N a l = Some b \<and> decode_shard (lb_msgpack L) b = Inr (e, Some mf) \<and>
     describes L ring mf ver spec data dek \<and> opened (lb_botan L) dek e = Some (plain ! j))"

text \<open>
  Whatever else is stored under keys of object \<open>u\<close> belongs to versions that are superseded: by each of
  their acceptable manifests they are unrecoverable, or older than all manifests of \<open>ver\<close>. Nothing
  else is asked of their bytes.
\<close>

definition superseded ::
    "('c, 'key) libs \<Rightarrow> (string \<Rightarrow> string \<Rightarrow> bytes option) \<Rightarrow> string set \<Rightarrow> string \<Rightarrow> string \<Rightarrow> string \<Rightarrow> bool" where
  "superseded L N A u oid ver \<longleftrightarrow> (\<forall>oid' ver'. (oid', ver') \<noteq> (oid, ver) \<and> pg_uuid (lb_pg L) oid' = Some u \<and> keys_at N A oid' ver' \<noteq> {} \<longrightarrow>
     oid' = oid \<and> (\<forall>(a, l)\<in>keys_at N A oid ver'. plain_location l) \<and>
     (\<forall>mf'\<in>manifests_at (lb_msgpack L) N A oid ver'. manifest_acceptable mf' \<longrightarrow>
        card (indices_at N A oid ver') < unat (data_shards (sm_erasure mf')) \<or>
        (\<forall>mf\<in>manifests_at (lb_msgpack L) N A oid ver. sm_written_at mf' < sm_written_at mf)))"

text \<open>Every node answered the scan in full.\<close>

definition all_listed :: "(string \<Rightarrow> string \<Rightarrow> bytes option) \<Rightarrow> string list \<Rightarrow> (string \<times> string list) list \<Rightarrow> bool" where
  "all_listed N nodes scans \<longleftrightarrow> map fst scans = nodes \<and> (\<forall>(a, ks)\<in>set scans. set ks = dom (N a))"

lemma listed_pairs:
  "all_listed N nodes scans \<Longrightarrow> (a, k) \<in> set (scanned scans) \<longleftrightarrow> a \<in> set nodes \<and> N a k \<noteq> None"
proof -
  assume ls: "all_listed N nodes scans"
  have "(\<exists>ks. (a, ks) \<in> set scans \<and> k \<in> set ks) \<longleftrightarrow> a \<in> set nodes \<and> k \<in> dom (N a)"
  proof
    assume k: "a \<in> set nodes \<and> k \<in> dom (N a)"
    then obtain ks where s: "(a, ks) \<in> set scans" using ls by (auto simp: all_listed_def)
    then have "set ks = dom (N a)" using ls unfolding all_listed_def by blast
    with s k show "\<exists>ks. (a, ks) \<in> set scans \<and> k \<in> set ks" by blast
  qed (use ls in \<open>force simp: all_listed_def\<close>)
  then show ?thesis by auto
qed

lemma object_shape:
  assumes "isal_ok (lb_isal L)" and "object_shards L oid ver spec data plain"
  shows "length plain = total_shards spec \<and> length plain \<le> 255 \<and> plain \<noteq> [] \<and> 0 < unat (data_shards spec) \<and>
    (\<forall>mf. sm_erasure mf = spec \<longrightarrow> manifest_acceptable mf) \<and> unat (data_shards spec + parity_shards spec) = length plain"
proof -
  have e: "length plain = total_shards spec" "spec_ok spec"
    using encode_total assms by (auto simp: object_shards_def)
  then have "unat (data_shards spec) + unat (parity_shards spec) < 2 ^ LENGTH(32)"
    by (simp add: spec_ok_def total_shards_def)
  then have "unat (data_shards spec + parity_shards spec) = unat (data_shards spec) + unat (parity_shards spec)"
    by (rule unat_add_lem [THEN iffD1])
  moreover have "0 < unat (data_shards spec)" using e(2) by (auto simp: spec_ok_def unat_gt_0)
  ultimately show ?thesis using e by (auto simp: spec_ok_def total_shards_def manifest_acceptable_def Let_def)
qed

lemma parsed_key_of: "key_parts_ok oid ver \<Longrightarrow> j < 4294967296 \<Longrightarrow>
  parsed_key (shard_key_of oid ver j) = Some \<lparr>pk_object_id = oid, pk_version = ver, pk_shard_index = word_of_nat j\<rparr>"
  by (simp add: parsed_key_def parse_key_of)

section \<open>The groups of a full scan\<close>

lemma keys_of_scan:
  assumes "all_listed N nodes scans" and "parsed_key k0 = Some p"
  shows "set (keys_of (gid_of p) (scanned scans)) = keys_at N (set nodes) (pk_object_id p) (pk_version p)"
proof -
  have "gid_of q = gid_of p \<longleftrightarrow> pk_object_id q = pk_object_id p \<and> pk_version q = pk_version p" if "parsed_key k = Some q" for k q
    using gid_of_inj [OF that assms(2)] by (auto simp: gid_of_def)
  then show ?thesis by (auto simp: keys_of_def keys_at_def listed_pairs [OF assms(1)] simp del: in_scanned)
qed

lemma found_count: "length (found_locations ks) = card ((\<lambda>(a, l). pk_shard_index (the (parsed_key l))) ` set ks)"
proof -
  let ?idx = "\<lambda>(a, l). pk_shard_index (the (parsed_key l))"
  have "distinct (map fst (found_locations ks)) \<and> dom (map_of (found_locations ks)) = ?idx ` set ks"
  proof (induction ks rule: rev_induct)
    case (snoc x ks)
    obtain a l where x: "x = (a, l)" by (cases x)
    have f: "found_locations (ks @ [x]) = um_assign (found_locations ks) (?idx x) (a @ ''/'' @ l)"
      by (simp add: found_locations_def x)
    have m: "map_of (found_locations (ks @ [x])) = (map_of (found_locations ks))(?idx x \<mapsto> a @ ''/'' @ l)"
      unfolding f by (rule ext) simp
    have "distinct (map fst (found_locations (ks @ [x])))" unfolding f using snoc by simp
    moreover have "dom (map_of (found_locations (ks @ [x]))) = ?idx ` set (ks @ [x])" unfolding m using snoc by simp
    ultimately show ?case by blast
  qed (simp add: found_locations_def)
  then show ?thesis by (metis distinct_card length_map dom_map_of_conv_image_fst set_map)
qed

text \<open>
  A group gathers what is stored of one version.\<close>

lemma group_of_version:
  assumes ls: "all_listed N nodes scans" and g: "(gid, vg) \<in> set (group_scans scans)"
  defines "K \<equiv> keys_at N (set nodes) (vg_object_id vg) (vg_version vg)"
  shows "gid = vg_object_id vg @ ''/'' @ vg_version vg \<and> vg = group_from (keys_of gid (scanned scans)) \<and>
    set (keys_of gid (scanned scans)) = K \<and> (vg_rep_node vg, vg_rep_key vg) \<in> K \<and>
    length (vg_shard_locations vg) = card (indices_at N (set nodes) (vg_object_id vg) (vg_version vg))"
proof -
  let ?ks = "keys_of gid (scanned scans)"
  have "map_of (group_scans scans) gid = Some vg" using conjunct1 [OF group_scans_spec] g by (rule map_of_is_SomeI)
  then have vg: "?ks \<noteq> []" "vg = group_from ?ks"
    using conjunct2 [OF group_scans_spec [of scans], rule_format, of gid] by (auto split: if_splits)
  obtain a k where hd: "hd ?ks = (a, k)" by fastforce
  then have h: "(a, k) \<in> set ?ks" using vg(1) by (metis hd_in_set)
  then obtain p where p: "parsed_key k = Some p" "gid_of p = gid" by (auto simp: keys_of_def)
  have v: "vg_object_id vg = pk_object_id p" "vg_version vg = pk_version p" "vg_rep_node vg = a" "vg_rep_key vg = k"
    "vg_shard_locations vg = found_locations ?ks"
    using vg(2) hd p(1) by (simp_all add: group_from_def)
  have K: "set ?ks = K" using keys_of_scan [OF ls p(1)] p(2) v by (simp add: K_def)
  then show ?thesis using h v p(2) vg(2) by (simp add: found_count indices_at_def K_def gid_of_def)
qed

text \<open>
  Every stored version has a group.\<close>

lemma version_has_group:
  assumes ls: "all_listed N nodes scans" and k: "keys_at N (set nodes) oid ver \<noteq> {}"
  shows "\<exists>vg. (oid @ ''/'' @ ver, vg) \<in> set (group_scans scans) \<and> vg_object_id vg = oid \<and> vg_version vg = ver"
proof -
  obtain a l p where p: "(a, l) \<in> keys_at N (set nodes) oid ver" "parsed_key l = Some p" "pk_object_id p = oid" "pk_version p = ver"
    using k by (auto simp: keys_at_def)
  let ?gid = "oid @ ''/'' @ ver"
  have gid: "gid_of p = ?gid" using p(3,4) by (simp add: gid_of_def)
  have "keys_of ?gid (scanned scans) \<noteq> []" using keys_of_scan [OF ls p(2)] p(1,3,4) gid by auto
  then have m: "map_of (group_scans scans) ?gid = Some (group_from (keys_of ?gid (scanned scans)))"
    using conjunct2 [OF group_scans_spec [of scans], rule_format, of ?gid] by simp
  then have in_g: "(?gid, group_from (keys_of ?gid (scanned scans))) \<in> set (group_scans scans)" by (rule map_of_SomeD)
  let ?vg = "group_from (keys_of ?gid (scanned scans))"
  have "hd (keys_of ?gid (scanned scans)) \<in> keys_at N (set nodes) oid ver"
    using keys_of_scan [OF ls p(2)] p(3,4) gid \<open>keys_of ?gid (scanned scans) \<noteq> []\<close> by (metis hd_in_set)
  then have "vg_object_id ?vg = oid \<and> vg_version ?vg = ver" by (auto simp: group_from_def keys_at_def)
  then show ?thesis using in_g by blast
qed

section \<open>The winner of a recovered object\<close>

text \<open>
  Each group is read from its representative key: what is read is stored there, and on a reachable
  node it is read.
\<close>

definition manifests_read ::
    "msgpack \<Rightarrow> (string \<Rightarrow> string \<Rightarrow> bytes option) \<Rightarrow> string set \<Rightarrow> (version_group \<times> shard_manifest option) list \<Rightarrow> bool" where
  "manifests_read M N A ms \<longleftrightarrow> (\<forall>(vg, r)\<in>set ms. plain_location (vg_rep_key vg) \<longrightarrow> vg_rep_node vg \<in> A \<longrightarrow>
     (\<forall>mf. r = Some mf \<longleftrightarrow> (\<exists>b e. N (vg_rep_node vg) (vg_rep_key vg) = Some b \<and> decode_shard M b = Inr (e, Some mf))))"

lemma genuineD:
  assumes "genuine_version L ring N A oid ver spec data dek plain" and "(a, l) \<in> keys_at N A oid ver"
  obtains j b e mf where "j < length plain" "l = shard_key_of oid ver j" "N a l = Some b"
    "decode_shard (lb_msgpack L) b = Inr (e, Some mf)" "describes L ring mf ver spec data dek" "opened (lb_botan L) dek e = Some (plain ! j)"
proof -
  from bspec [OF assms(1) [unfolded genuine_version_def] assms(2)] show thesis by (auto intro: that)
qed

lemma supersededD:
  assumes "superseded L N A u oid ver" and "(oid', ver') \<noteq> (oid, ver)" and "pg_uuid (lb_pg L) oid' = Some u" and "x \<in> keys_at N A oid' ver'"
  shows "oid' = oid \<and> (\<forall>(a, l)\<in>keys_at N A oid ver'. plain_location l) \<and>
    (\<forall>mf'\<in>manifests_at (lb_msgpack L) N A oid ver'. manifest_acceptable mf' \<longrightarrow>
       card (indices_at N A oid ver') < unat (data_shards (sm_erasure mf')) \<or>
       (\<forall>mf\<in>manifests_at (lb_msgpack L) N A oid ver. sm_written_at mf' < sm_written_at mf))"
proof -
  have "keys_at N A oid' ver' \<noteq> {}" using assms(4) by blast
  with assms(2,3) show ?thesis by (intro assms(1) [unfolded superseded_def, rule_format] conjI)
qed

lemma manifest_reads:
  assumes "manifests_read M N A ms" and "(vg, r) \<in> set ms" and "plain_location (vg_rep_key vg)" and "vg_rep_node vg \<in> A"
  shows "r = Some mf \<longleftrightarrow> (\<exists>b e. N (vg_rep_node vg) (vg_rep_key vg) = Some b \<and> decode_shard M b = Inr (e, Some mf))"
  using assms unfolding manifests_read_def by blast

lemma recoverable_current:
  assumes I: "isal_ok (lb_isal L)" and o: "object_shards L oid ver spec data plain"
    and enough: "unat (data_shards spec) \<le> card {j. j < length plain \<and> (\<exists>a\<in>A. N a (shard_key_of oid ver j) \<noteq> None)}"
  shows "unat (data_shards spec) \<le> card (indices_at N A oid ver) \<and> keys_at N A oid ver \<noteq> {}"
proof -
  let ?J = "{j. j < length plain \<and> (\<exists>a\<in>A. N a (shard_key_of oid ver j) \<noteq> None)}" and ?w = "word_of_nat :: nat \<Rightarrow> 32 word"
  note sh = object_shape [OF I o]
  have kp: "key_parts_ok oid ver" using o by (simp add: object_shards_def)
  have key: "\<exists>a. (a, shard_key_of oid ver j) \<in> keys_at N A oid ver \<and> pk_shard_index (the (parsed_key (shard_key_of oid ver j))) = ?w j"
    if "j \<in> ?J" for j
    using that parsed_key_of [OF kp, of j] sh by (auto simp: keys_at_def)
  have "card ?J \<le> card (indices_at N A oid ver)"
  proof (rule card_inj_on_le [where f = ?w])
    show "inj_on ?w ?J" by (rule inj_onI) (use sh word_of_nat_inj_small in auto)
    show "?w ` ?J \<subseteq> indices_at N A oid ver"
    proof (rule image_subsetI)
      fix j assume "j \<in> ?J"
      then show "?w j \<in> indices_at N A oid ver" using key by (force simp: indices_at_def)
    qed
    show "finite (indices_at N A oid ver)" by (rule finite)
  qed
  moreover have "?J \<noteq> {}" using enough sh by (metis card.empty not_less)
  ultimately show ?thesis using enough key by fastforce
qed

text \<open>
  A candidate of the object is of the current version, or outranked by every one that is.\<close>

lemma candidate_current:
  assumes o: "object_shards L oid ver spec data plain"
    and g: "genuine_version L ring N (set nodes) oid ver spec data dek plain" and sup: "superseded L N (set nodes) u oid ver"
    and ls: "all_listed N nodes scans" and u: "pg_uuid (lb_pg L) oid = Some u"
    and rd: "manifests_read (lb_msgpack L) N (set nodes) ms"
    and vg: "(gid, vg) \<in> set (group_scans scans)" "(vg, Some mf) \<in> set ms" "manifest_acceptable mf" "vg_object_id vg = oid"
  defines "vg0 \<equiv> group_from (keys_of (oid @ ''/'' @ ver) (scanned scans))"
  shows "vg = vg0 \<and> describes L ring mf ver spec data dek \<and> mf \<in> manifests_at (lb_msgpack L) N (set nodes) oid ver \<or>
    (\<forall>mf0\<in>manifests_at (lb_msgpack L) N (set nodes) oid ver. unat (data_shards (sm_erasure mf0)) \<le> cd_shard_count (candidate_of vg0 mf0) \<longrightarrow>
       rank (candidate_of vg mf) < rank (candidate_of vg0 mf0))"
proof -
  let ?K = "keys_at N (set nodes)" and ?M = "lb_msgpack L"
  note G = group_of_version [OF ls vg(1), unfolded vg(4)]
  then have rep: "(vg_rep_node vg, vg_rep_key vg) \<in> ?K oid (vg_version vg)"
    and len: "length (vg_shard_locations vg) = card (indices_at N (set nodes) oid (vg_version vg))" by blast+
  then have node: "vg_rep_node vg \<in> set nodes" by (simp add: keys_at_def)
  show ?thesis
  proof (cases "vg_version vg = ver")
    case True
    obtain j b e mf' where j: "vg_rep_key vg = shard_key_of oid ver j" "N (vg_rep_node vg) (vg_rep_key vg) = Some b"
      "decode_shard ?M b = Inr (e, Some mf')" "describes L ring mf' ver spec data dek"
      by (rule genuineD [OF g rep [unfolded True]])
    have "plain_location (vg_rep_key vg)" using o plain_key unfolding j(1) by (simp add: object_shards_def)
    from manifest_reads [OF rd vg(2) this node, of mf] j(2,3) have "mf' = mf" by auto
    then have "mf \<in> manifests_at ?M N (set nodes) oid ver" using rep j(2,3) unfolding True manifests_at_def by blast
    moreover have "vg = vg0" using G unfolding vg0_def True by blast
    ultimately show ?thesis using j(4) \<open>mf' = mf\<close> by blast
  next
    case False
    then have S: "\<forall>(a, l)\<in>?K oid (vg_version vg). plain_location l"
      "\<forall>mf'\<in>manifests_at ?M N (set nodes) oid (vg_version vg). manifest_acceptable mf' \<longrightarrow>
        card (indices_at N (set nodes) oid (vg_version vg)) < unat (data_shards (sm_erasure mf')) \<or>
        (\<forall>mf\<in>manifests_at ?M N (set nodes) oid ver. sm_written_at mf' < sm_written_at mf)"
      using supersededD [OF sup _ u rep] False by blast+
    have "plain_location (vg_rep_key vg)" using S(1) rep by blast
    from manifest_reads [OF rd vg(2) this node, of mf] rep
    have "mf \<in> manifests_at ?M N (set nodes) oid (vg_version vg)" by (auto simp: manifests_at_def)
    then have c: "cd_shard_count (candidate_of vg mf) < unat (data_shards (sm_erasure mf)) \<or>
        (\<forall>mf0\<in>manifests_at ?M N (set nodes) oid ver. sm_written_at mf < sm_written_at mf0)"
      using S(2) vg(3) len by (simp add: candidate_of_def)
    have "rank (candidate_of vg mf) < rank (candidate_of vg0 mf0)"
      if "mf0 \<in> manifests_at ?M N (set nodes) oid ver" "unat (data_shards (sm_erasure mf0)) \<le> cd_shard_count (candidate_of vg0 mf0)" for mf0
      using c that by (auto simp: rank_def recoverable_def candidate_of_def word_less_nat_alt)
    then show ?thesis by blast
  qed
qed

lemma winner_current:
  assumes I: "isal_ok (lb_isal L)" and o: "object_shards L oid ver spec data plain"
    and g: "genuine_version L ring N (set nodes) oid ver spec data dek plain" and sup: "superseded L N (set nodes) u oid ver"
    and ls: "all_listed N nodes scans" and u: "pg_uuid (lb_pg L) oid = Some u" and ord: "order_ok (lb_ord L)"
    and ms: "map fst ms = map snd (um_iter (lb_ord L) (group_scans scans))"
    and rd: "manifests_read (lb_msgpack L) N (set nodes) ms" and w: "choose_winners ms [] 0 = (ws, n)"
    and enough: "unat (data_shards spec) \<le> card {j. j < length plain \<and> (\<exists>a\<in>set nodes. N a (shard_key_of oid ver j) \<noteq> None)}"
  defines "vg0 \<equiv> group_from (keys_of (oid @ ''/'' @ ver) (scanned scans))"
  shows "\<exists>mf. map_of ws oid = Some (candidate_of vg0 mf) \<and> describes L ring mf ver spec data dek"
    and "candidates ms oid' \<noteq> {} \<Longrightarrow> pg_uuid (lb_pg L) oid' = Some u \<Longrightarrow> oid' = oid"
proof -
  let ?K = "keys_at N (set nodes)" and ?M = "lb_msgpack L"
  note sh = object_shape [OF I o] and R = recoverable_current [OF I o enough] and W = choose_winners_spec [OF w, simplified]
  have it: "set (um_iter (lb_ord L) (group_scans scans)) = set (group_scans scans)"
    using um_iter_set(1) [OF ord conjunct1 [OF group_scans_spec]] .
  have in_ms: "\<exists>gid. (gid, vg) \<in> set (group_scans scans)" if "(vg, r) \<in> set ms" for vg r
  proof -
    have "vg \<in> set (map snd (um_iter (lb_ord L) (group_scans scans)))" unfolding ms [symmetric] using that by force
    then show ?thesis using it by auto
  qed
  obtain vg where vg: "(oid @ ''/'' @ ver, vg) \<in> set (group_scans scans)" "vg_object_id vg = oid" "vg_version vg = ver"
    using version_has_group [OF ls] R by blast
  note G = group_of_version [OF ls vg(1), unfolded vg(2,3)]
  then have v0: "vg = vg0" and len: "length (vg_shard_locations vg) = card (indices_at N (set nodes) oid ver)"
    unfolding vg0_def by blast+
  have "vg \<in> set (map fst ms)" unfolding ms using vg(1) it by force
  then obtain r where r: "(vg, r) \<in> set ms" by auto
  have rep: "(vg_rep_node vg, vg_rep_key vg) \<in> ?K oid ver" using G by blast
  obtain j b e mf0 where j: "vg_rep_key vg = shard_key_of oid ver j" "N (vg_rep_node vg) (vg_rep_key vg) = Some b"
    "decode_shard ?M b = Inr (e, Some mf0)" "describes L ring mf0 ver spec data dek" by (rule genuineD [OF g rep])
  have "plain_location (vg_rep_key vg)" using o plain_key unfolding j(1) by (simp add: object_shards_def)
  from manifest_reads [OF rd r this, of mf0] j(2,3) rep have r0: "r = Some mf0" by (simp add: keys_at_def)
  have e0: "sm_erasure mf0 = spec" using j(4) by (simp add: describes_def)
  have m0: "mf0 \<in> manifests_at ?M N (set nodes) oid ver" using rep j(2,3) unfolding manifests_at_def by blast
  have c0: "candidate_of vg0 mf0 \<in> candidates ms oid"
    using r r0 vg(2) sh e0 unfolding candidates_def v0 by blast
  have rec: "unat (data_shards (sm_erasure mf0)) \<le> cd_shard_count (candidate_of vg0 mf0)"
    using conjunct1 [OF R] len unfolding e0 v0 [symmetric] by (simp add: candidate_of_def)
  obtain c where c: "map_of ws oid = Some c" "c \<in> candidates ms oid" "rank (candidate_of vg0 mf0) \<le> rank c"
    using W c0 by (cases "map_of ws oid") auto
  then obtain vg1 mf1 where x: "c = candidate_of vg1 mf1" "(vg1, Some mf1) \<in> set ms" "manifest_acceptable mf1" "vg_object_id vg1 = oid"
    by (auto simp: candidates_def)
  obtain gid1 where "(gid1, vg1) \<in> set (group_scans scans)" using in_ms [OF x(2)] by blast
  note cc = candidate_current [OF o g sup ls u rd this x(2-4), folded vg0_def]
  have "\<not> rank c < rank (candidate_of vg0 mf0)" using c(3) by simp
  then have "vg1 = vg0 \<and> describes L ring mf1 ver spec data dek" using cc m0 rec unfolding x(1) by blast
  then show "\<exists>mf. map_of ws oid = Some (candidate_of vg0 mf) \<and> describes L ring mf ver spec data dek" using c(1) x(1) by blast
  assume o': "candidates ms oid' \<noteq> {}" "pg_uuid (lb_pg L) oid' = Some u"
  then obtain vg' mf' where y: "(vg', Some mf') \<in> set ms" "vg_object_id vg' = oid'" by (auto simp: candidates_def)
  obtain gid' where "(gid', vg') \<in> set (group_scans scans)" using in_ms [OF y(1)] by blast
  from group_of_version [OF ls this] have "(vg_rep_node vg', vg_rep_key vg') \<in> ?K oid' (vg_version vg')" unfolding y(2) by blast
  from supersededD [OF sup _ o'(2) this] show "oid' = oid" by blast
qed

text \<open>
  The locations of the new entry: where a shard was found, or the sentinel.\<close>

lemma rebuilt_entry:
  assumes I: "isal_ok (lb_isal L)" and o: "object_shards L oid ver spec data plain" and d: "describes L ring mf ver spec data dek"
    and g: "genuine_version L ring N (set nodes) oid ver spec data dek plain" and ls: "all_listed N nodes scans"
    and md: "rebuilt_metadata oid (candidate_of (group_from (keys_of (oid @ ''/'' @ ver) (scanned scans))) mf) = Inr md"
  obtains nodes' where "md = \<lparr>md_id = oid, md_size = sm_size mf, md_checksum = sm_checksum mf, md_erasure = spec,
      md_shard_locations = placed oid ver nodes', md_encrypted_dek = sm_encrypted_dek mf, md_kek_id = sm_kek_id mf, md_version = 0\<rparr>"
    and "length nodes' = length plain"
    and "\<And>i. i < length plain \<Longrightarrow> nodes' ! i \<in> set nodes \<and> N (nodes' ! i) (shard_key_of oid ver i) \<noteq> None \<or>
      nodes' ! i = kUnknownNode \<and> (\<forall>a\<in>set nodes. N a (shard_key_of oid ver i) = None)"
proof -
  let ?ks = "keys_of (oid @ ''/'' @ ver) (scanned scans)"
  let ?found = "found_locations ?ks"
  note sh = object_shape [OF I o]
  have kp: "key_parts_ok oid ver" using o by (simp add: object_shards_def)
  have ks: "set ?ks = keys_at N (set nodes) oid ver"
    using keys_of_scan [OF ls parsed_key_of [OF kp, of 0]] by (simp add: gid_of_def)
  have f: "\<exists>a\<in>set nodes. N a (shard_key_of oid ver i) \<noteq> None \<and> loc = location_of a oid ver i"
    if il: "i < length plain" and fi: "map_of ?found (word_of_nat i) = Some loc" for i loc
  proof -
    obtain a k where k: "(a, k) \<in> keys_at N (set nodes) oid ver" "pk_shard_index (the (parsed_key k)) = word_of_nat i" "loc = a @ ''/'' @ k"
      using found_locations_spec(1) [OF fi] unfolding ks by auto
    obtain j b where j: "j < length plain" "k = shard_key_of oid ver j" "N a k = Some b" by (rule genuineD [OF g k(1)])
    have "(word_of_nat j :: 32 word) = word_of_nat i" using k(2) parsed_key_of [OF kp, of j] j(1,2) sh by simp
    then have "j = i" using word_of_nat_inj_small [of j i] j(1) il sh by simp
    then show ?thesis using j k(1,3) by (auto simp: location_of_def keys_at_def)
  qed
  have nf: "map_of ?found (word_of_nat i) \<noteq> None"
    if il: "i < length plain" and st: "a \<in> set nodes" "N a (shard_key_of oid ver i) \<noteq> None" for i a
  proof -
    have i: "i < 4294967296" using il sh by simp
    then have "(a, shard_key_of oid ver i) \<in> set ?ks" using st parsed_key_of [OF kp] unfolding ks by (simp add: keys_at_def)
    from found_locations_spec(2) [OF this] show ?thesis using parsed_key_of [OF kp i] by simp
  qed
  define fits where "fits i a \<longleftrightarrow> a \<in> set nodes \<and> N a (shard_key_of oid ver i) \<noteq> None \<and>
      map_of ?found (word_of_nat i) = Some (location_of a oid ver i) \<or> a = kUnknownNode \<and> map_of ?found (word_of_nat i) = None" for i a
  have "\<exists>a. fits i a" if il: "i < length plain" for i
    by (cases "map_of ?found (word_of_nat i)") (use f [OF il] in \<open>auto simp: fits_def\<close>)
  then have "\<forall>i. \<exists>a. i < length plain \<longrightarrow> fits i a" by blast
  then obtain where_at where wa: "\<forall>i. i < length plain \<longrightarrow> fits i (where_at i)" using choice [of "\<lambda>i a. i < length plain \<longrightarrow> fits i a"] by blast
  then have at: "where_at i \<in> set nodes \<and> N (where_at i) (shard_key_of oid ver i) \<noteq> None \<and>
      map_of ?found (word_of_nat i) = Some (location_of (where_at i) oid ver i) \<or>
      where_at i = kUnknownNode \<and> map_of ?found (word_of_nat i) = None" if "i < length plain" for i
    using that by (simp add: fits_def)
  have "rebuilt_locations oid ver ?found [0..<length plain] =
    Inr (map (\<lambda>i. case map_of ?found (word_of_nat i) of Some loc \<Rightarrow> loc | None \<Rightarrow> location_of kUnknownNode oid ver i) [0..<length plain])"
    by (rule rebuilt_locations_ok [OF kp]) (use f sh in fastforce)+
  also have "map (\<lambda>i. case map_of ?found (word_of_nat i) of Some loc \<Rightarrow> loc | None \<Rightarrow> location_of kUnknownNode oid ver i) [0..<length plain] =
      placed oid ver (map where_at [0..<length plain])"
    using at by (intro nth_equalityI) (auto split: option.splits, fastforce+)
  finally have loc: "rebuilt_locations oid ver ?found [0..<length plain] = Inr (placed oid ver (map where_at [0..<length plain]))" .
  show thesis
  proof (rule that [of "map where_at [0..<length plain]"])
    show "md = \<lparr>md_id = oid, md_size = sm_size mf, md_checksum = sm_checksum mf, md_erasure = spec,
      md_shard_locations = placed oid ver (map where_at [0..<length plain]), md_encrypted_dek = sm_encrypted_dek mf,
      md_kek_id = sm_kek_id mf, md_version = 0\<rparr>"
      using md sh d loc by (simp add: rebuilt_metadata_def candidate_of_def group_from_def describes_def Let_def)
    show "map where_at [0..<length plain] ! i \<in> set nodes \<and> N (map where_at [0..<length plain] ! i) (shard_key_of oid ver i) \<noteq> None \<or>
      map where_at [0..<length plain] ! i = kUnknownNode \<and> (\<forall>a\<in>set nodes. N a (shard_key_of oid ver i) = None)"
      if il: "i < length plain" for i
    proof -
      have "\<forall>a\<in>set nodes. N a (shard_key_of oid ver i) \<noteq> None \<longrightarrow> map_of ?found (word_of_nat i) \<noteq> None" using nf [OF il] by blast
      then show ?thesis using at [OF il] il by (auto simp del: not_None_eq)
    qed
  qed simp
qed


text \<open>
  C8: A lost catalog entry is found again, whatever else is stored of the object. Suppose the catalog
  has no entry for it, the registered nodes are up and list what they store. Of one version of the
  object they hold at least \<open>k\<close> different shards, and all they hold of that version is genuine; the
  manifests may differ, as after a repair. Other versions of the object may be stored as well, with
  any bytes, as long as they are superseded: unrecoverable by their own manifests, or older. If
  reindexing reports no error, the object can be read from the rebuilt catalog, with the exact bytes
  of that version. Enough shards means any \<open>k\<close> of them if the generator's submatrices are invertible,
  and all the data shards in any case.
\<close>

theorem reindex_restores:
  fixes L :: "('db cluster, 'key) libs" and D
  defines "N \<equiv> \<lambda>s :: ('db cluster, 'key) client. cluster_shards D (sc_cluster s)"
  assumes lib: "libs_ok L D T" and t: "tables_ok (lb_pg L) (sc_catalog s)" "addresses_ok (sc_catalog s)"
    and r: "reindex L s = (Inr report, s')" and err: "rx_errors report = 0" and rd: "reads_ok (lb_pg L) (sc_catalog s')"
    and u: "pg_uuid (lb_pg L) oid = Some u" and lost: "catalog (sc_catalog s) u = None"
    and o: "object_shards L oid ver spec data plain"
    and nodes: "list_nodes (lb_pg L) (sc_catalog s) = Inr nodes"
    and ls: "all_listed (N s) nodes (fst (scan_nodes (lb_send L) (lb_json L) (sc_cluster s) nodes))"
    and up: "\<forall>a\<in>set nodes. cluster_up D (sc_cluster s) a"
    and g: "genuine_version L (sc_ring s) (N s) (set nodes) oid ver spec data dek plain"
    and sup: "superseded L (N s) (set nodes) u oid ver" and unk: "\<forall>l. N s kUnknownNode l = None"
    and enough: "unat (data_shards spec) \<le> card {j. j < length plain \<and> (\<exists>a\<in>set nodes. N s a (shard_key_of oid ver j) \<noteq> None)}"
    and inv: "isal_invertible (lb_isal L) (length plain) (unat (data_shards spec)) \<or>
      (\<forall>j<unat (data_shards spec). \<exists>a\<in>set nodes. N s a (shard_key_of oid ver j) \<noteq> None)"
  shows "\<exists>s''. StorageClient_get L timing s' oid = (Inr data, s'') \<and> N s'' = N s"
proof -
  let ?c = "sc_cluster s" and ?k = "unat (data_shards spec)" and ?key = "shard_key_of oid ver"
  have l: "lb_send L = cluster_send D (lb_json L) T" "isal_ok (lb_isal L)" "msgpack_ok (lb_msgpack L)"
    "order_ok (lb_ord L)" "postgres_ok (lb_pg L)" using lib by (simp_all add: libs_ok_def)
  obtain nodes1 scans c1 ms c2 ws n report0 t' where p: "list_nodes (lb_pg L) (sc_catalog s) = Inr nodes1"
    "scan_nodes (lb_send L) (lb_json L) ?c nodes1 = (scans, c1)"
    "fetch_manifests (lb_send L) (lb_msgpack L) c1 (um_iter (lb_ord L) (group_scans scans)) = (ms, c2)"
    "choose_winners ms [] 0 = (ws, n)"
    "rebuild_entries (lb_pg L) (lb_msgpack L) (sc_catalog s) (um_iter (lb_ord L) ws) report0 = (Inr report, t')"
    "s' = s\<lparr>sc_cluster := c2, sc_catalog := t'\<rparr>" "rx_errors report0 = 0" by (rule reindex_parts [OF lib r])
  have n1: "nodes1 = nodes" using p(1) nodes by simp
  have ls': "all_listed (N s) nodes scans" using ls p(2) by (simp add: n1)
  note S = cluster.scan_nodes_spec [OF libs_ok_cluster [OF lib] p(2) [unfolded l(1)]]
  note F = cluster.fetch_manifests_spec [OF conjunct1 [OF S] p(3) [unfolded l(1)]]
  note sh = object_shape [OF l(2) o]
  have reg: "nodes_plain nodes" "\<forall>a\<in>set nodes. is_ok (get_node_client a)"
    using t(2) list_nodes_registered [OF nodes] by (auto simp: addresses_ok_def nodes_plain_def)
  let ?vg = "group_from (keys_of (oid @ ''/'' @ ver) (scanned scans))"
  have S': "cluster_shards D c1 = N s" "\<forall>a. cluster_up D ?c a \<longrightarrow> cluster_up D c1 a" using S by (simp_all add: N_def)
  have "manifests_read (lb_msgpack L) (N s) (set nodes) ms"
    unfolding manifests_read_def
  proof clarify
    fix vg r mf assume x: "(vg, r) \<in> set ms" "plain_location (vg_rep_key vg)" "vg_rep_node vg \<in> set nodes"
    then have "cluster_up D c1 (vg_rep_node vg)" "is_ok (get_node_client (vg_rep_node vg))" using S'(2) up reg(2) by blast+
    then have "r = Some mf" if "N s (vg_rep_node vg) (vg_rep_key vg) = Some b" "decode_shard (lb_msgpack L) b = Inr (e, Some mf)" for b e
      using F x(1,2) that unfolding S'(1) by blast
    moreover have "\<exists>b e. N s (vg_rep_node vg) (vg_rep_key vg) = Some b \<and> decode_shard (lb_msgpack L) b = Inr (e, Some mf)" if "r = Some mf"
      using cluster.fetch_manifests_sound [OF conjunct1 [OF S] p(3) [unfolded l(1)] x(1) [unfolded that] x(2)] unfolding S'(1) .
    ultimately show "r = Some mf \<longleftrightarrow> (\<exists>b e. N s (vg_rep_node vg) (vg_rep_key vg) = Some b \<and> decode_shard (lb_msgpack L) b = Inr (e, Some mf))"
      by blast
  qed
  moreover have "map fst ms = map snd (um_iter (lb_ord L) (group_scans scans))" using F by blast
  note winner = winner_current [OF l(2) o g sup ls' u l(4) this calculation p(4) enough]
  obtain mf where w: "map_of ws oid = Some (candidate_of ?vg mf)" and d: "describes L (sc_ring s) mf ver spec data dek"
    using winner(1) by blast
  note W = choose_winners_spec [OF p(4), simplified]
  have it: "set (um_iter (lb_ord L) ws) = set ws" "distinct (map fst (um_iter (lb_ord L) ws))"
    using um_iter_set [OF l(4) conjunct1 [OF W]] by simp_all
  have other: "\<forall>(oid', c')\<in>set (um_iter (lb_ord L) ws). oid' \<noteq> oid \<longrightarrow> pg_uuid (lb_pg L) oid' \<noteq> Some u"
  proof clarify
    fix oid' c' assume oo: "(oid', c') \<in> set (um_iter (lb_ord L) ws)" "oid' \<noteq> oid" "pg_uuid (lb_pg L) oid' = Some u"
    then have "map_of ws oid' \<noteq> None" using oo it(1) by (metis map_of_eq_None_iff fst_conv imageI)
    then have "candidates ms oid' \<noteq> {}" using W by blast
    then show False using winner(2) oo(2,3) by blast
  qed
  have "(oid, candidate_of ?vg mf) \<in> set (um_iter (lb_ord L) ws)" using w it(1) map_of_SomeD by force
  from rebuild_entries_inserts [OF l(5) t(1) p(5) _ it(2) this u lost other] err p(7)
  obtain md where md: "rebuilt_metadata oid (candidate_of ?vg mf) = Inr md"
    "catalog t' u = Some (row_of (lb_msgpack L) md u 1, md_shard_locations md)" by auto
  obtain nodes' where e: "md = \<lparr>md_id = oid, md_size = sm_size mf, md_checksum = sm_checksum mf, md_erasure = spec,
      md_shard_locations = placed oid ver nodes', md_encrypted_dek = sm_encrypted_dek mf, md_kek_id = sm_kek_id mf, md_version = 0\<rparr>"
    "length nodes' = length plain"
    "\<And>i. i < length plain \<Longrightarrow> nodes' ! i \<in> set nodes \<and> N s (nodes' ! i) (?key i) \<noteq> None \<or>
      nodes' ! i = kUnknownNode \<and> (\<forall>a\<in>set nodes. N s a (?key i) = None)"
    by (rule rebuilt_entry [OF l(2) o d g ls' md(1)]) blast
  let ?md = "md\<lparr>md_id := u, md_version := 1\<rparr>"
  have ok': "tables_ok (lb_pg L) t'" using rebuild_entries_frame [OF l(5) t(1) p(5)] by blast
  have get: "MetadataStore_get (lb_pg L) (lb_msgpack L) (sc_catalog s') oid = Inr (Some ?md)"
    using get_catalog [OF ok' u, of "lb_msgpack L"] rd md(2) row_to_metadata_of [OF l(3), of md u 1] by (simp add: p(6))
  have oid: "oid \<noteq> []" using o by (simp add: object_shards_def key_parts_ok_def)
  have reg': "nodes_plain nodes'"
    unfolding nodes_plain_def
  proof
    fix a assume "a \<in> set nodes'"
    then obtain i where i: "i < length plain" "nodes' ! i = a" using e(2) by (metis in_set_conv_nth)
    from e(3) [OF i(1)] have "a \<in> set nodes \<or> a = kUnknownNode" unfolding i(2) by blast
    then show "CHR ''/'' \<notin> set a" using reg(1) by (auto simp: nodes_plain_def kUnknownNode_def)
  qed
  have at: "decoded_at (lb_msgpack L) (N s) (location_of (nodes' ! i) oid ver i) = decoded (lb_msgpack L) (N s (nodes' ! i)) (?key i)"
    if "i < length plain" for i using that reg' e(2) by (simp add: decoded_at_def)
  have shard: "\<exists>e. decoded (lb_msgpack L) (N s a) (?key i) = Some e \<and> opened (lb_botan L) dek e = Some (plain ! i)"
    if il: "i < length plain" and a: "a \<in> set nodes" "N s a (?key i) \<noteq> None" for i a
  proof -
    have kp: "key_parts_ok oid ver" using o by (simp add: object_shards_def)
    obtain b where b: "N s a (?key i) = Some b" using a(2) by blast
    have "(a, ?key i) \<in> keys_at (N s) (set nodes) oid ver"
      using parsed_key_of [OF kp, of i] il sh a(1) b by (simp add: keys_at_def)
    from genuineD [OF g this] b obtain j e mf' where j: "j < length plain" "?key i = ?key j"
      "decode_shard (lb_msgpack L) b = Inr (e, Some mf')" "opened (lb_botan L) dek e = Some (plain ! j)"
      by (metis option.inject)
    have "j = i" using shard_key_of_inj j(2) by metis
    then show ?thesis using b j(3,4) by (simp add: decoded_def)
  qed
  let ?Up = "{j. j < length plain \<and> (\<exists>a\<in>set nodes. N s a (?key j) \<noteq> None)}"
  have on: "i < length plain \<and> nodes' ! i \<in> set nodes \<and> N s (nodes' ! i) (?key i) \<noteq> None" if iu: "i \<in> ?Up" for i
  proof -
    from iu have i: "i < length plain" "\<not> (\<forall>a\<in>set nodes. N s a (?key i) = None)" by auto
    then show ?thesis using e(3) [OF i(1)] by blast
  qed
  have N': "cluster_shards D (sc_cluster s') = N s" using F S by (simp add: p(6) N_def)
  have up': "\<forall>a\<in>set nodes. cluster_up D (sc_cluster s') a" using up S F by (simp add: p(6))
  have st: "object_state L (cluster_shards D (sc_cluster s')) (sc_ring s') ?md oid ver nodes' data dek plain"
  proof -
    have "unforged L dek (N s) plain (location_of (nodes' ! i) oid ver i)" if il: "i < length plain" for i
      unfolding unforged_def at [OF il]
    proof (intro allI impI)
      fix e' assume x: "decoded (lb_msgpack L) (N s (nodes' ! i)) (?key i) = Some e'"
      show "opened (lb_botan L) dek e' = None \<or> opened (lb_botan L) dek e' \<in> Some ` set plain"
      proof (cases "nodes' ! i \<in> set nodes \<and> N s (nodes' ! i) (?key i) \<noteq> None")
        case True
        then show ?thesis using shard [OF il, of "nodes' ! i"] x il by auto
      next
        case False
        then have "nodes' ! i = kUnknownNode" using e(3) [OF il] by blast
        then show ?thesis using unk x by (simp add: decoded_def)
      qed
    qed
    then have "\<forall>loc\<in>set (placed oid ver nodes'). unforged L dek (N s) plain loc" using e(2) by (auto simp: in_placed)
    then show ?thesis unfolding N' using d o sh e(1,2) reg' by (simp add: object_state_def describes_def object_shards_def p(6))
  qed
  have "\<exists>s''. StorageClient_get L timing s' oid = (Inr data, s'') \<and> sc_catalog s'' = sc_catalog s' \<and>
      cluster_shards D (sc_cluster s'') = cluster_shards D (sc_cluster s')"
  proof (rule cluster.get_of_state [where Up = ?Up, OF l(1,2,4) libs_ok_cluster [OF lib] get oid st])
    fix i assume "i \<in> ?Up"
    note i = on [OF this]
    then show "i < length nodes' \<and> cluster_up D (sc_cluster s') (nodes' ! i) \<and> is_ok (get_node_client (nodes' ! i)) \<and>
        holds L dek (cluster_shards D (sc_cluster s')) (plain ! i) (md_shard_locations ?md ! i)"
      using shard [of i "nodes' ! i"] e(1,2) at [of i] up' reg(2) by (auto simp: N' holds_def)
  next
    have "?k \<le> length plain" using sh by (simp add: total_shards_def)
    moreover have "{..<?k} \<subseteq> ?Up" if "?k \<le> length plain" "\<forall>j<?k. \<exists>a\<in>set nodes. N s a (?key j) \<noteq> None" using that by fastforce
    ultimately show "isal_invertible (lb_isal L) (length nodes') (unat (data_shards (md_erasure ?md))) \<or>
        {..<unat (data_shards (md_erasure ?md))} \<subseteq> ?Up" using inv e(1,2) by auto
  qed (use enough e(1) in simp)
  then show ?thesis unfolding N' by (auto simp: N_def)
qed

section \<open>What stops a pass\<close>

text \<open>The objects of a pass with their winners, in the order their entries are rebuilt.\<close>

definition reindex_winners :: "('c, 'key) libs \<Rightarrow> ('c, 'key) client \<Rightarrow> string list \<Rightarrow> (string \<times> candidate) list" where
  "reindex_winners L s nodes =
     (case scan_nodes (lb_send L) (lb_json L) (sc_cluster s) nodes of
        (scans, c1) \<Rightarrow>
          (case fetch_manifests (lb_send L) (lb_msgpack L) c1 (um_iter (lb_ord L) (group_scans scans)) of
             (manifests, c2) \<Rightarrow> um_iter (lb_ord L) (fst (choose_winners manifests [] 0))))"

text \<open>
  A winner whose manifest names a version that no key can be made of, and that lacks a shard.\<close>

definition unkeyable :: "string \<times> candidate \<Rightarrow> bool" where
  "unkeyable x \<longleftrightarrow> (let manifest = cd_manifest (snd x) in
     \<not> key_parts_ok (fst x) (sm_version manifest) \<and>
     (\<exists>i<unat (data_shards (sm_erasure manifest) + parity_shards (sm_erasure manifest)).
        map_of (vg_shard_locations (cd_group (snd x))) (word_of_nat i) = None))"

lemma make_key_fails: "isl (make_shard_key oid ver i) \<longleftrightarrow> \<not> key_parts_ok oid ver"
  by (auto simp: make_shard_key_def key_parts_ok_def split: option.splits)

lemma rebuilt_locations_fails:
  "isl (rebuilt_locations oid ver found idxs) \<longleftrightarrow> \<not> key_parts_ok oid ver \<and> (\<exists>i\<in>set idxs. map_of found (word_of_nat i) = None)"
proof (induction idxs)
  case (Cons i idxs)
  have "isl (make_shard_key oid ver (word_of_nat i)) \<longleftrightarrow> \<not> key_parts_ok oid ver" by (rule make_key_fails)
  then show ?case using Cons
    by (cases "map_of found (word_of_nat i)"; cases "make_shard_key oid ver (word_of_nat i)") auto
qed simp

lemma rebuilt_metadata_fails: "isl (rebuilt_metadata oid c) \<longleftrightarrow> unkeyable (oid, c)"
  by (auto simp: rebuilt_metadata_def unkeyable_def Let_def rebuilt_locations_fails)

lemma rebuild_entries_stops:
  "postgres_ok P \<Longrightarrow> tables_ok P t \<Longrightarrow> rebuild_entries P M t xs report = (r, t') \<Longrightarrow>
   (isl r \<longleftrightarrow> (\<exists>x\<in>set xs. unkeyable x)) \<and>
   (\<forall>u. catalog t' u \<noteq> catalog t u \<longrightarrow> (\<exists>x\<in>set (takeWhile (\<lambda>x. \<not> unkeyable x) xs). pg_uuid P (fst x) = Some u))"
proof (induction xs arbitrary: t report)
  case (Cons x xs)
  obtain oid c where x: "x = (oid, c)" by (cases x)
  show ?case
  proof (cases "rebuilt_metadata oid c")
    case (Inl e)
    then have "unkeyable x" using rebuilt_metadata_fails [of oid c] by (simp add: x)
    moreover have "r = Inl e" "t' = t" using Cons.prems(3) Inl by (simp_all add: x)
    ultimately show ?thesis by simp
  next
    case (Inr md)
    then have k: "\<not> unkeyable x" using rebuilt_metadata_fails [of oid c] by (simp add: x)
    obtain b t1 where i: "insert_if_absent P M t md = (b, t1)" by fastforce
    have ok: "tables_ok P t1" by (rule store_write_ok [OF Cons.prems(1,2) write_insert [OF i]])
    obtain report1 where r1: "rebuild_entries P M t1 xs report1 = (r, t')"
      using Cons.prems(3) i Inr by (auto simp: x split: sum.splits bool.splits)
    have fr: "catalog t1 u \<noteq> catalog t u \<Longrightarrow> pg_uuid P oid = Some u" for u
      using insert_catalog [OF Cons.prems(2) i] rebuilt_metadata_id [OF Inr] by (auto split: if_splits)
    note IH = Cons.IH [OF Cons.prems(1) ok r1]
    show ?thesis
    proof (intro conjI allI impI)
      show "isl r \<longleftrightarrow> (\<exists>x\<in>set (x # xs). unkeyable x)" using IH k by simp
      fix u assume "catalog t' u \<noteq> catalog t u"
      then have "catalog t' u \<noteq> catalog t1 u \<or> catalog t1 u \<noteq> catalog t u" by auto
      then show "\<exists>x\<in>set (takeWhile (\<lambda>x. \<not> unkeyable x) (x # xs)). pg_uuid P (fst x) = Some u"
        using IH fr k by (auto simp: x)
    qed
  qed
qed auto

text \<open>
  C40: When a pass throws, and what is lost then. Once the nodes are listed, reindexing throws exactly if
  some winner lacks a shard and its manifest names a version that no key can be made of (empty, or
  with a slash), which the guard on manifests lets through. The pass stops there: only objects that
  come before it can have got an entry, and every object after it stays lost.
\<close>

theorem reindex_stops_at_manifest:
  assumes "libs_ok L D T" and "tables_ok (lb_pg L) (sc_catalog s)" and "list_nodes (lb_pg L) (sc_catalog s) = Inr nodes"
    and "reindex L s = (r, s')"
  shows "(isl r \<longleftrightarrow> (\<exists>x\<in>set (reindex_winners L s nodes). unkeyable x)) \<and>
    (\<forall>u. catalog (sc_catalog s') u \<noteq> catalog (sc_catalog s) u \<longrightarrow>
       (\<exists>x\<in>set (takeWhile (\<lambda>x. \<not> unkeyable x) (reindex_winners L s nodes)). pg_uuid (lb_pg L) (fst x) = Some u))"
proof -
  have pg: "postgres_ok (lb_pg L)" using assms(1) by (simp add: libs_ok_def)
  obtain report where "rebuild_entries (lb_pg L) (lb_msgpack L) (sc_catalog s) (reindex_winners L s nodes) report = (r, sc_catalog s')"
    using assms(3,4) by (auto simp: reindex_def reindex_winners_def Let_def split: prod.splits)
  from rebuild_entries_stops [OF pg assms(2) this] show ?thesis .
qed

end
