(* ===== verification/Reindex_Witnesses.thy ===== *)
theory Reindex_Witnesses
  imports Reindex_Properties Repair_Witnesses
begin

text \<open>
  Witnesses of the reindexing properties: an object with \<open>k = 1\<close>, \<open>m = 1\<close> whose catalog entry is
  lost, of whose two shards one is left, beside a shard of an older version, and what a crafted
  manifest does to a whole pass.
\<close>

section \<open>A lost entry\<close>

definition manifest5 :: "string \<Rightarrow> shard_manifest" where
  "manifest5 ver = \<lparr>sm_object_id = ''o'', sm_version = ver, sm_size = 1, sm_checksum = ''07'', sm_erasure = spec11,
     sm_encrypted_dek = md_encrypted_dek md3, sm_kek_id = ''old'', sm_written_at = (if ver = ''v'' then 4 else 2)\<rparr>"

definition shard5 :: "string \<Rightarrow> bytes" where
  "shard5 ver = StoredShard_serialize ref_msgpack \<lparr>ss_manifest = manifest5 ver,
     ss_shard = projr (encrypt_shards small_botan (\<lambda>i. [1]) 0 plain3 dek3) ! 0\<rparr>"

definition lost_tables :: tables where
  "lost_tables = \<lparr>t_objects = [], t_locations = [],
     t_nodes = map (\<lambda>a. \<lparr>nr_address = a, nr_registered_at = 0\<rparr>) [''a:1'', ''b:2'']\<rparr>"

definition client5 :: "(ref_db cluster, nat) client" where
  "client5 = client0\<lparr>
     sc_cluster := \<lparr>cl_nodes = [''a:1'' \<mapsto> [(''o/v/0'', shard5 ''v'')], ''b:2'' \<mapsto> [(''o/w/0'', shard5 ''w'')]],
       cl_link = (\<lambda>t a. Delivered), cl_clock = 0\<rparr>,
     sc_catalog := lost_tables\<rparr>"

lemma tables5: "tables_ok (lb_pg small_libs) (sc_catalog client5)"
  by (simp add: tables_ok_def client5_def lost_tables_def)

lemma addresses5: "addresses_ok (sc_catalog client5)"
  by code_simp

abbreviation scan_of :: "(ref_db cluster, nat) client \<Rightarrow> (string \<times> string list) list \<times> ref_db cluster" where
  "scan_of s \<equiv> scan_nodes (lb_send small_libs) (lb_json small_libs) (sc_cluster s) [''a:1'', ''b:2'']"

abbreviation group_at :: "string \<Rightarrow> string \<Rightarrow> string \<Rightarrow> version_group" where
  "group_at node oid ver \<equiv> \<lparr>vg_object_id = oid, vg_version = ver, vg_shard_locations = [(0, node @ ''/'' @ oid @ ''/'' @ ver @ ''/0'')],
     vg_rep_node = node, vg_rep_key = oid @ ''/'' @ ver @ ''/0''\<rparr>"

lemma reindex_steps:
  assumes "list_nodes (lb_pg L) (sc_catalog s) = Inr nodes"
    and "fst (scan_nodes (lb_send L) (lb_json L) (sc_cluster s) nodes) = scans"
    and "um_iter (lb_ord L) (group_scans scans) = groups"
    and "fst (fetch_manifests (lb_send L) (lb_msgpack L) (snd (scan_nodes (lb_send L) (lb_json L) (sc_cluster s) nodes)) groups) = ms"
    and "choose_winners ms [] 0 = (ws, n)"
    and "rebuild_entries (lb_pg L) (lb_msgpack L) (sc_catalog s) (um_iter (lb_ord L) ws)
      \<lparr>rx_versions_scanned = length (group_scans scans), rx_objects_recovered = 0, rx_objects_skipped_existing = 0,
       rx_degraded_objects = 0, rx_unreadable_versions = n, rx_errors = 0\<rparr> = (r, t')"
  shows "fst (reindex L s) = r \<and> sc_catalog (snd (reindex L s)) = t'"
  using assms by (auto simp: reindex_def Let_def split: prod.splits)

lemma nodes5: "list_nodes (lb_pg small_libs) lost_tables = Inr [''a:1'', ''b:2'']"
  by code_simp

abbreviation keys5 :: "(string \<times> string list) list" where
  "keys5 \<equiv> [(''a:1'', [''o/v/0'']), (''b:2'', [''o/w/0''])]"

abbreviation groups5 :: "(string \<times> version_group) list" where
  "groups5 \<equiv> [(''o/v'', group_at ''a:1'' ''o'' ''v''), (''o/w'', group_at ''b:2'' ''o'' ''w'')]"

lemma scan5: "fst (scan_of client5) = keys5"
  by code_simp

lemma group5: "um_iter (lb_ord small_libs) (group_scans keys5) = groups5"
  by code_simp

lemma libs5: "lb_msgpack small_libs = ref_msgpack" "lb_botan small_libs = small_botan"
  by (simp_all add: small_libs_def ref_libs_def)

lemma decoded5: "decode_shard ref_msgpack (shard5 ver) =
    Inr (projr (encrypt_shards small_botan (\<lambda>i. [1]) 0 plain3 dek3) ! 0, Some (manifest5 ver))"
  by (simp add: shard5_def msgpack_ok_ref)

lemma stored5: "cluster_shards ref_lmdb (sc_cluster client5) a l = (if a = ''a:1'' \<and> l = ''o/v/0'' then Some (shard5 ''v'')
    else if a = ''b:2'' \<and> l = ''o/w/0'' then Some (shard5 ''w'') else None)"
  by (simp add: cluster_shards_def client5_def kv_ref ref_key_ok_def)

text \<open>
  Every group whose representative shard is stored on a reachable node yields its manifest.\<close>

lemma fetched:
  assumes "\<And>a. a \<in> set ns \<Longrightarrow> cluster_up ref_lmdb (sc_cluster s) a \<and> is_ok (get_node_client a)"
    and "\<And>i g. (i, g) \<in> set gs \<Longrightarrow> vg_rep_node g \<in> set ns \<and> plain_location (vg_rep_key g) \<and>
      cluster_shards ref_lmdb (sc_cluster s) (vg_rep_node g) (vg_rep_key g) = Some (shard5 (ver g))"
  shows "fst (fetch_manifests (lb_send small_libs) (lb_msgpack small_libs)
      (snd (scan_nodes (lb_send small_libs) (lb_json small_libs) (sc_cluster s) ns)) gs) =
    map (\<lambda>(i, g). (g, Some (manifest5 (ver g)))) gs"
proof -
  obtain scans c1 where sc: "scan_nodes (lb_send small_libs) (lb_json small_libs) (sc_cluster s) ns = (scans, c1)" by fastforce
  obtain ms c2 where f: "fetch_manifests (lb_send small_libs) (lb_msgpack small_libs) c1 gs = (ms, c2)" by fastforce
  have l: "lb_send small_libs = cluster_send ref_lmdb (lb_json small_libs) ref_targets" using small_libs_ok by (simp add: libs_ok_def)
  note S = cluster.scan_nodes_spec [OF libs_ok_cluster [OF small_libs_ok] sc [unfolded l]]
  note F = cluster.fetch_manifests_spec [OF conjunct1 [OF S] f [unfolded l]]
  have len: "map fst ms = map snd gs" using F by blast
  have "ms ! i = (case gs ! i of (i, g) \<Rightarrow> (g, Some (manifest5 (ver g))))" if i: "i < length gs" for i
  proof -
    obtain x g where g: "gs ! i = (x, g)" by fastforce
    have im: "i < length ms" using i len by (metis length_map)
    have "fst (ms ! i) = g" using len i im g by (metis nth_map snd_conv)
    then obtain r where r: "ms ! i = (g, r)" by (cases "ms ! i") simp
    have g': "(x, g) \<in> set gs" using g i by (metis nth_mem)
    have "r = Some (manifest5 (ver g))"
      using F [THEN conjunct2, THEN conjunct2, THEN conjunct2, THEN conjunct2, rule_format, of g r "shard5 (ver g)"]
        nth_mem [OF im] r assms(1) assms(2) [OF g'] S by (simp add: decoded5 libs5)
    then show ?thesis using r g by simp
  qed
  moreover have "length ms = length gs" using len by (metis length_map)
  ultimately have "ms = map (\<lambda>(i, g). (g, Some (manifest5 (ver g)))) gs" by (intro nth_equalityI) simp_all
  then show ?thesis by (simp add: sc f)
qed

lemma reachable5: "a \<in> set [''a:1'', ''b:2''] \<Longrightarrow> cluster_up ref_lmdb (sc_cluster client5) a \<and> is_ok (get_node_client a)"
proof -
  have "is_ok (get_node_client ''a:1'')" "is_ok (get_node_client ''b:2'')" by code_simp+
  then show "a \<in> set [''a:1'', ''b:2''] \<Longrightarrow> cluster_up ref_lmdb (sc_cluster client5) a \<and> is_ok (get_node_client a)"
    by (auto simp: cluster_up_def client5_def)
qed

lemma plain5: "plain_location ''o/v/0''" "plain_location ''o/w/0''" "plain_location ''p/w/0''"
  by code_simp+

abbreviation read5 :: "(version_group \<times> shard_manifest option) list" where
  "read5 \<equiv> [(group_at ''a:1'' ''o'' ''v'', Some (manifest5 ''v'')), (group_at ''b:2'' ''o'' ''w'', Some (manifest5 ''w''))]"

lemma fetch5: "fst (fetch_manifests (lb_send small_libs) (lb_msgpack small_libs) (snd (scan_of client5)) groups5) = read5"
proof (rule trans [OF fetched [where ver = vg_version]])
  show "cluster_up ref_lmdb (sc_cluster client5) a \<and> is_ok (get_node_client a)" if "a \<in> set [''a:1'', ''b:2'']" for a
    by (rule reachable5 [OF that])
next
  fix i g assume "(i, g) \<in> set groups5"
  then consider "g = group_at ''a:1'' ''o'' ''v''" | "g = group_at ''b:2'' ''o'' ''w''" by auto
  then show "vg_rep_node g \<in> set [''a:1'', ''b:2''] \<and> plain_location (vg_rep_key g) \<and>
      cluster_shards ref_lmdb (sc_cluster client5) (vg_rep_node g) (vg_rep_key g) = Some (shard5 (vg_version g))"
    by cases (simp_all add: stored5 plain5)
qed simp

lemma acceptable5: "manifest_acceptable (manifest5 ver)"
  by (simp add: manifest_acceptable_def manifest5_def)

lemma choose5: "choose_winners read5 [] 0 = ([(''o'', candidate_of (group_at ''a:1'' ''o'' ''v'') (manifest5 ''v''))], 0)"
  by (simp add: acceptable5 candidate_of_def better_candidate_def manifest5_def manifest_acceptable_def)

abbreviation zero_report :: "nat \<Rightarrow> reindex_report" where
  "zero_report n \<equiv> \<lparr>rx_versions_scanned = n, rx_objects_recovered = 0, rx_objects_skipped_existing = 0,
     rx_degraded_objects = 0, rx_unreadable_versions = 0, rx_errors = 0\<rparr>"

abbreviation rebuild5 :: "reindex_report res \<times> tables" where
  "rebuild5 \<equiv> rebuild_entries (lb_pg small_libs) (lb_msgpack small_libs) lost_tables
     (um_iter (lb_ord small_libs) [(''o'', candidate_of (group_at ''a:1'' ''o'' ''v'') (manifest5 ''v''))]) (zero_report 2)"

lemma rebuilt5: "fst rebuild5 = Inr ((zero_report 2)\<lparr>rx_objects_recovered := 1, rx_degraded_objects := 1\<rparr>) \<and>
    map_option snd (catalog (snd rebuild5) ''o'') = Some [''a:1/o/v/0'', ''0.0.0.0:0/o/v/1'']"
  by code_simp

lemma pass5: "fst (reindex small_libs client5) = Inr ((zero_report 2)\<lparr>rx_objects_recovered := 1, rx_degraded_objects := 1\<rparr>)"
  "map_option snd (catalog (sc_catalog (snd (reindex small_libs client5))) ''o'') = Some [''a:1/o/v/0'', ''0.0.0.0:0/o/v/1'']"
proof -
  have c: "sc_catalog client5 = lost_tables" by (simp add: client5_def)
  have "length (group_scans keys5) = 2" by code_simp
  then have "fst (reindex small_libs client5) = fst rebuild5 \<and> sc_catalog (snd (reindex small_libs client5)) = snd rebuild5"
    by (intro reindex_steps [OF nodes5 [folded c] scan5 group5 fetch5 choose5]) (simp add: c)
  then show "fst (reindex small_libs client5) = Inr ((zero_report 2)\<lparr>rx_objects_recovered := 1, rx_degraded_objects := 1\<rparr>)"
    "map_option snd (catalog (sc_catalog (snd (reindex small_libs client5))) ''o'') = Some [''a:1/o/v/0'', ''0.0.0.0:0/o/v/1'']"
    using rebuilt5 by simp_all
qed

lemma shards5: "object_shards small_libs ''o'' ''v'' spec11 [7] plain3"
  by code_simp

lemma describes5: "describes small_libs (sc_ring client5) (manifest5 ''v'') ''v'' spec11 [7] dek3"
  unfolding describes_def
proof (intro conjI)
  show "recover_dek (lb_botan small_libs) (lb_ord small_libs) (sm_encrypted_dek (manifest5 ''v'')) (sm_kek_id (manifest5 ''v''))
      (sc_ring client5) = Inr dek3" by code_simp
  show "sm_checksum (manifest5 ''v'') = bytes_to_hex (checksum_sha256 (lb_botan small_libs) [7])" by code_simp
qed (simp_all add: manifest5_def)

lemma opened5: "opened small_botan dek3 (projr (encrypt_shards small_botan (\<lambda>i. [1]) 0 plain3 dek3) ! 0) = Some (plain3 ! 0)"
  by code_simp

text \<open>
  Of the current version one shard is stored, of the older version another.\<close>

abbreviation N5 :: "string \<Rightarrow> string \<Rightarrow> bytes option" where
  "N5 \<equiv> cluster_shards ref_lmdb (sc_cluster client5)"

lemma parsed5: "parsed_key ''o/v/0'' = Some \<lparr>pk_object_id = ''o'', pk_version = ''v'', pk_shard_index = 0\<rparr>"
  "parsed_key ''o/w/0'' = Some \<lparr>pk_object_id = ''o'', pk_version = ''w'', pk_shard_index = 0\<rparr>"
  by code_simp+

lemma keys_at5: "(a, l) \<in> keys_at N5 A oid ver \<Longrightarrow> oid = ''o'' \<and>
    (a = ''a:1'' \<and> l = ''o/v/0'' \<and> ver = ''v'' \<or> a = ''b:2'' \<and> l = ''o/w/0'' \<and> ver = ''w'')"
  by (auto simp: keys_at_def stored5 parsed5 split: if_splits)

lemma genuine5: "genuine_version small_libs (sc_ring client5) N5 A ''o'' ''v'' spec11 [7] dek3 plain3"
  unfolding genuine_version_def
proof clarify
  fix a l
  assume "(a, l) \<in> keys_at N5 A ''o'' ''v''"
  from keys_at5 [OF this] have x: "a = ''a:1''" "l = ''o/v/0''" by simp_all
  have "shard_key_of ''o'' ''v'' 0 = ''o/v/0''" "0 < length plain3" by code_simp+
  then show "\<exists>j<length plain3. \<exists>b e mf. l = shard_key_of ''o'' ''v'' j \<and> N5 a l = Some b \<and>
      decode_shard (lb_msgpack small_libs) b = Inr (e, Some mf) \<and> describes small_libs (sc_ring client5) mf ''v'' spec11 [7] dek3 \<and>
      opened (lb_botan small_libs) dek3 e = Some (plain3 ! j)"
    using opened5 describes5 unfolding x libs5 stored5 by (intro exI [of _ 0]) (simp add: decoded5)
qed

lemma manifests_at5: "mf \<in> manifests_at ref_msgpack N5 A oid ver \<Longrightarrow> mf = manifest5 ver"
  using keys_at5 by (fastforce simp: manifests_at_def stored5 decoded5)

lemma superseded5: "superseded small_libs N5 A ''o'' ''o'' ''v''"
  unfolding superseded_def libs5
proof (intro allI impI)
  fix oid' ver'
  assume a: "(oid', ver') \<noteq> (''o'', ''v'') \<and> pg_uuid (lb_pg small_libs) oid' = Some ''o'' \<and> keys_at N5 A oid' ver' \<noteq> {}"
  then have x: "oid' = ''o''" "ver' = ''w''" using keys_at5 by force+
  have "plain_location l" if "(a, l) \<in> keys_at N5 A ''o'' ''w''" for a l using keys_at5 [OF that] plain5 by auto
  moreover have "sm_written_at mf' < sm_written_at mf"
    if "mf' \<in> manifests_at ref_msgpack N5 A ''o'' ''w''" "mf \<in> manifests_at ref_msgpack N5 A ''o'' ''v''" for mf mf'
    using manifests_at5 [OF that(1)] manifests_at5 [OF that(2)] by (simp add: manifest5_def)
  ultimately show "oid' = ''o'' \<and> (\<forall>(a, l)\<in>keys_at N5 A ''o'' ver'. plain_location l) \<and>
      (\<forall>mf'\<in>manifests_at ref_msgpack N5 A ''o'' ver'. manifest_acceptable mf' \<longrightarrow>
        card (indices_at N5 A ''o'' ver') < unat (data_shards (sm_erasure mf')) \<or>
        (\<forall>mf\<in>manifests_at ref_msgpack N5 A ''o'' ''v''. sm_written_at mf' < sm_written_at mf))"
    unfolding x by blast
qed

lemma listed5: "all_listed (cluster_shards ref_lmdb (sc_cluster client5)) [''a:1'', ''b:2'']
    (fst (scan_nodes (lb_send small_libs) (lb_json small_libs) (sc_cluster client5) [''a:1'', ''b:2'']))"
  unfolding scan5 all_listed_def by (auto simp: stored5 dom_def)

lemma pass5_Inr: "\<exists>report. reindex small_libs client5 = (Inr report, snd (reindex small_libs client5)) \<and> rx_errors report = 0 \<and>
    rx_objects_recovered report = 1 \<and> rx_degraded_objects report = 1"
  using pass5(1) by (cases "reindex small_libs client5") auto

theorem reindex_restores_witness:
  "\<exists>s''. StorageClient_get small_libs zero_timing (snd (reindex small_libs client5)) ''o'' = (Inr [7], s'')"
proof -
  obtain report where r: "reindex small_libs client5 = (Inr report, snd (reindex small_libs client5))" "rx_errors report = 0"
    using pass5_Inr by (elim exE conjE)
  have u: "pg_uuid (lb_pg small_libs) ''o'' = Some ''o''" "catalog (sc_catalog client5) ''o'' = None"
    "list_nodes (lb_pg small_libs) (sc_catalog client5) = Inr [''a:1'', ''b:2'']" by code_simp+
  have up: "\<forall>a\<in>set [''a:1'', ''b:2'']. cluster_up ref_lmdb (sc_cluster client5) a"
    by (simp add: cluster_up_def client5_def)
  have k: "shard_key_of ''o'' ''v'' 0 = ''o/v/0''" "length plain3 = 2" "unat (data_shards spec11) = 1" by code_simp+
  let ?S = "{j. j < 2 \<and> (\<exists>a\<in>set [''a:1'', ''b:2'']. N5 a (shard_key_of ''o'' ''v'' j) \<noteq> None)}"
  have "{0} \<subseteq> ?S" using k(1) by (simp add: stored5)
  then have "card {0 :: nat} \<le> card ?S" by (intro card_mono) auto
  then have c: "1 \<le> card ?S" by simp
  have d: "\<forall>j<1. \<exists>a\<in>set [''a:1'', ''b:2'']. N5 a (shard_key_of ''o'' ''v'' j) \<noteq> None"
    using k(1) by (simp add: stored5)
  have unk: "\<forall>l. N5 kUnknownNode l = None" by (simp add: stored5 kUnknownNode_def)
  show ?thesis
    using reindex_restores [OF small_libs_ok tables5 addresses5 r reads3 u(1,2) shards5 u(3) listed5 up genuine5 superseded5 unk,
        unfolded k, OF c] d by blast
qed

theorem reindex_no_clobber_witness:
  "cluster_shards ref_lmdb (sc_cluster (snd (reindex small_libs client5))) ''a:1'' ''o/v/0'' = Some (shard5 ''v'')"
  using reindex_no_clobber [OF small_libs_ok tables5 surjective_pairing] by (simp add: stored5)

definition versions5 :: "(version_group \<times> shard_manifest option) list" where
  "versions5 = [(group_from [(''a:1'', ''o/v/0'')], Some (manifest5 ''v'')),
     (group_from [(''a:1'', ''o/w/0''), (''b:2'', ''o/w/1'')], Some (manifest5 ''w''\<lparr>sm_written_at := 9\<rparr>))]"

theorem reindex_newest_recoverable_witness:
  "\<exists>c. map_of (fst (choose_winners versions5 [] 0)) ''o'' = Some c \<and> 9 \<le> sm_written_at (cd_manifest c)"
proof -
  have g: "vg_object_id (snd (''o/w'', fst (versions5 ! 1))) = ''o''" "manifest_acceptable (manifest5 ''w''\<lparr>sm_written_at := 9\<rparr>)"
    "unat (data_shards (sm_erasure (manifest5 ''w''\<lparr>sm_written_at := 9\<rparr>))) \<le> length (vg_shard_locations (fst (versions5 ! 1)))"
    by code_simp+
  have "(fst (versions5 ! 1), Some (manifest5 ''w''\<lparr>sm_written_at := 9\<rparr>)) \<in> set versions5" by (simp add: versions5_def)
  from reindex_newest_recoverable [OF surjective_pairing this g(2)] g(1,3) show ?thesis by auto
qed

section \<open>What a pass reports and what stops it\<close>

text \<open>
  An object that is recovered with \<open>k\<close> of its shards is counted as degraded: the count is of the
  objects with fewer than \<open>k + m\<close> shards.
\<close>

theorem reindex_degraded_counts_missing:
  "(\<exists>report. fst (reindex small_libs client5) = Inr report \<and> rx_objects_recovered report = 1 \<and> rx_degraded_objects report = 1) \<and>
   card {i. i < 2 \<and> cluster_shards ref_lmdb (sc_cluster client5) ''a:1'' (shard_key_of ''o'' ''v'' i) \<noteq> None} \<ge>
     unat (data_shards (sm_erasure (manifest5 ''v'')))"
proof -
  have k: "shard_key_of ''o'' ''v'' 0 = ''o/v/0''" "unat (data_shards (sm_erasure (manifest5 ''v''))) = 1" by code_simp+
  have "{0} \<subseteq> {i. i < 2 \<and> cluster_shards ref_lmdb (sc_cluster client5) ''a:1'' (shard_key_of ''o'' ''v'' i) \<noteq> None}"
    using k(1) by (simp add: stored5)
  then have "card {0 :: nat} \<le> card {i. i < 2 \<and> cluster_shards ref_lmdb (sc_cluster client5) ''a:1'' (shard_key_of ''o'' ''v'' i) \<noteq> None}"
    by (intro card_mono) auto
  then show ?thesis using pass5(1) k(2) by simp
qed

text \<open>A shard of \<open>p\<close> with a crafted manifest, beside a healthy shard of \<open>o\<close>.\<close>

definition client6 :: "(ref_db cluster, nat) client" where
  "client6 = client5\<lparr>
     sc_cluster := \<lparr>cl_nodes = [''a:1'' \<mapsto> [(''p/w/0'', shard5 [])], ''b:2'' \<mapsto> [(''o/v/0'', shard5 ''v'')]],
       cl_link = (\<lambda>t a. Delivered), cl_clock = 0\<rparr>\<rparr>"

lemma scan6: "fst (scan_of client6) = [(''a:1'', [''p/w/0'']), (''b:2'', [''o/v/0''])]"
  by code_simp

lemma group6: "um_iter (lb_ord small_libs) (group_scans [(''a:1'', [''p/w/0'']), (''b:2'', [''o/v/0''])]) =
    [(''p/w'', group_at ''a:1'' ''p'' ''w''), (''o/v'', group_at ''b:2'' ''o'' ''v'')]"
  by code_simp

lemma stored6: "cluster_shards ref_lmdb (sc_cluster client6) a l = (if a = ''a:1'' \<and> l = ''p/w/0'' then Some (shard5 [])
    else if a = ''b:2'' \<and> l = ''o/v/0'' then Some (shard5 ''v'') else None)"
  by (simp add: cluster_shards_def client6_def kv_ref ref_key_ok_def)

lemma reachable6: "a \<in> set [''a:1'', ''b:2''] \<Longrightarrow> cluster_up ref_lmdb (sc_cluster client6) a \<and> is_ok (get_node_client a)"
  using reachable5 [of a] by (auto simp: cluster_up_def client6_def client5_def)

lemma fetch6: "fst (fetch_manifests (lb_send small_libs) (lb_msgpack small_libs) (snd (scan_of client6))
      [(''p/w'', group_at ''a:1'' ''p'' ''w''), (''o/v'', group_at ''b:2'' ''o'' ''v'')]) =
    [(group_at ''a:1'' ''p'' ''w'', Some (manifest5 [])), (group_at ''b:2'' ''o'' ''v'', Some (manifest5 ''v''))]"
proof (rule trans [OF fetched [where ver = "\<lambda>g. if vg_rep_node g = ''a:1'' then [] else ''v''"]])
  show "cluster_up ref_lmdb (sc_cluster client6) a \<and> is_ok (get_node_client a)" if "a \<in> set [''a:1'', ''b:2'']" for a
    by (rule reachable6 [OF that])
next
  fix i g assume "(i, g) \<in> set [(''p/w'', group_at ''a:1'' ''p'' ''w''), (''o/v'', group_at ''b:2'' ''o'' ''v'')]"
  then consider "g = group_at ''a:1'' ''p'' ''w''" | "g = group_at ''b:2'' ''o'' ''v''" by auto
  then show "vg_rep_node g \<in> set [''a:1'', ''b:2''] \<and> plain_location (vg_rep_key g) \<and>
      cluster_shards ref_lmdb (sc_cluster client6) (vg_rep_node g) (vg_rep_key g) = Some (shard5 (if vg_rep_node g = ''a:1'' then [] else ''v''))"
    by cases (simp_all add: stored6 plain5)
qed simp

lemma choose6: "choose_winners [(group_at ''a:1'' ''p'' ''w'', Some (manifest5 [])), (group_at ''b:2'' ''o'' ''v'', Some (manifest5 ''v''))] [] 0 =
    ([(''p'', candidate_of (group_at ''a:1'' ''p'' ''w'') (manifest5 [])), (''o'', candidate_of (group_at ''b:2'' ''o'' ''v'') (manifest5 ''v''))], 0)"
  by (simp add: acceptable5 candidate_of_def)

lemma rebuilt6: "rebuilt_metadata ''p'' (candidate_of (group_at ''a:1'' ''p'' ''w'') (manifest5 [])) =
    Inl (InvalidArgument ''make_shard_key: object_id and version must be non-empty'')"
  by code_simp

lemma same_order: "distinct (map fst ws) \<Longrightarrow> um_iter (lb_ord small_libs) ws = ws"
  by (simp add: small_libs_def ref_libs_def)

lemma fst_eqE: "fst z = x \<Longrightarrow> (\<And>y. z = (x, y) \<Longrightarrow> thesis) \<Longrightarrow> thesis"
  by (cases z) simp

lemma winners6: "reindex_winners small_libs client6 [''a:1'', ''b:2''] =
    [(''p'', candidate_of (group_at ''a:1'' ''p'' ''w'') (manifest5 [])), (''o'', candidate_of (group_at ''b:2'' ''o'' ''v'') (manifest5 ''v''))]"
proof -
  let ?groups = "[(''p/w'', group_at ''a:1'' ''p'' ''w''), (''o/v'', group_at ''b:2'' ''o'' ''v'')]"
  obtain c1 where sc: "scan_of client6 = ([(''a:1'', [''p/w/0'']), (''b:2'', [''o/v/0''])], c1)" using scan6 by (rule fst_eqE)
  obtain c2 where f: "fetch_manifests (lb_send small_libs) (lb_msgpack small_libs) c1 ?groups =
      ([(group_at ''a:1'' ''p'' ''w'', Some (manifest5 [])), (group_at ''b:2'' ''o'' ''v'', Some (manifest5 ''v''))], c2)"
    using fetch6 [unfolded sc snd_conv] by (rule fst_eqE)
  show ?thesis unfolding reindex_winners_def sc prod.case group6 f choose6 fst_conv by (rule same_order) simp
qed

theorem reindex_stops_at_manifest_witness:
  "manifest_acceptable (manifest5 []) \<and> isl (fst (reindex small_libs client6)) \<and>
   catalog (sc_catalog (snd (reindex small_libs client6))) ''o'' = None"
proof -
  have c: "sc_catalog client6 = lost_tables" by (simp add: client6_def client5_def)
  have t: "tables_ok (lb_pg small_libs) (sc_catalog client6)" using tables5 by (simp add: client6_def client5_def)
  have u: "unkeyable (''p'', candidate_of (group_at ''a:1'' ''p'' ''w'') (manifest5 []))"
    by (auto simp: unkeyable_def Let_def candidate_of_def manifest5_def key_parts_ok_def intro!: exI [of _ 1])
  have "catalog lost_tables ''o'' = None" by code_simp
  then show ?thesis
    using reindex_stops_at_manifest [OF small_libs_ok t nodes5 [folded c] surjective_pairing] u acceptable5
    unfolding winners6 by (auto simp: c)
qed

end
