(* ===== verification/Programs.thy ===== *)
theory Programs
  imports Repair Node_Server
begin

text \<open>
  The programs of \<^verbatim>\<open>src/cmd\<close>: the two servers' entry points, the benchmark driver
  \<^verbatim>\<open>BenchmarkMain.cpp\<close> with its fault injection, and \<^verbatim>\<open>MetadataBenchmarkMain.cpp\<close>. The environment
  is a map, what a run prints is a list of lines, random bytes and measured times are arguments.
\<close>

section \<open>Environment and arguments\<close>

type_synonym environment = "string \<Rightarrow> string option"

definition env_or :: "environment \<Rightarrow> string \<Rightarrow> string \<Rightarrow> string" where
  "env_or env name fallback = (case env name of None \<Rightarrow> fallback | Some val \<Rightarrow> val)"

definition env_uint :: "environment \<Rightarrow> string \<Rightarrow> 32 word \<Rightarrow> 32 word res" where
  "env_uint env name fallback =
     (case env name of
        None \<Rightarrow> Inr fallback
      | Some val \<Rightarrow> bind_res (stoul val) (\<lambda>n. Inr (word_of_nat n)))"

text \<open>\<open>std::stoull\<close>: \<open>unsigned long long\<close> is as wide as \<open>unsigned long\<close> here.\<close>

definition stoull :: "string \<Rightarrow> nat res" where
  "stoull s = (case stoul s of
     Inl (InvalidArgument _) \<Rightarrow> Inl (InvalidArgument ''stoull'')
   | Inl (OutOfRange _) \<Rightarrow> Inl (OutOfRange ''stoull'')
   | r \<Rightarrow> r)"

text \<open>The tokens \<open>std::getline\<close> reads up to the next comma; at the end of the stream it fails.\<close>

function csv_tokens :: "string \<Rightarrow> string list" where
  "csv_tokens s = (if s = [] then []
     else takeWhile (\<lambda>c. c \<noteq> CHR '','') s # csv_tokens (tl (dropWhile (\<lambda>c. c \<noteq> CHR '','') s)))"
  by auto
termination
proof (relation "measure length")
  fix s :: string
  assume "s \<noteq> []"
  then show "(tl (dropWhile (\<lambda>c. c \<noteq> CHR '','') s), s) \<in> measure length"
    using length_dropWhile_le [of "\<lambda>c. c \<noteq> CHR '',''" s] by (cases s) (auto simp: le_imp_less_Suc diff_le_mono)
qed simp

declare csv_tokens.simps [simp del]

fun parse_tokens :: "(nat \<Rightarrow> 'a) \<Rightarrow> string list \<Rightarrow> 'a list res" where
  "parse_tokens cast [] = Inr []"
| "parse_tokens cast (token # rest) =
     (if token = [] then parse_tokens cast rest
      else bind_res (stoull token) (\<lambda>v. bind_res (parse_tokens cast rest) (\<lambda>out. Inr (cast v # out))))"

definition parse_list :: "(nat \<Rightarrow> 'a) \<Rightarrow> string \<Rightarrow> 'a list \<Rightarrow> 'a list res" where
  "parse_list cast csv fallback =
     (if csv = [] then Inr fallback
      else bind_res (parse_tokens cast (csv_tokens csv)) (\<lambda>out. Inr (if out = [] then fallback else out)))"

text \<open>\<open>std::atoi\<close>: 0 without digits; a value outside \<open>int\<close> has no defined result.\<close>

definition atoi :: "string \<Rightarrow> int res" where
  "atoi s = (let (neg, u) = split_sign (dropWhile is_space s);
                 ds = takeWhile is_digit u;
                 v = (if neg then - int (digits_value ds) else int (digits_value ds))
             in if v < - 2147483648 \<or> 2147483647 < v then Inl UndefinedBehaviour else Inr v)"

section \<open>Entry points of the servers\<close>

text \<open>The lines a program prints, to standard output or standard error.\<close>

datatype line = Out string | Err string

text \<open>
  How a program ends: with an exit code, with an exception nobody catches, or it serves requests at
  an address with the state it has built.
\<close>

datatype 's outcome =
    Exited int
  | Terminated exn
  | Serving string int 's

definition storage_node_main :: "'db lmdb \<Rightarrow> string list \<Rightarrow> unit outcome \<times> line list" where
  "storage_node_main D argv =
     (if length argv \<noteq> 4 then (Exited 1, [Err ''Usage: storage_node <host> <port> <data_path>''])
      else case atoi (argv ! 2) of
          Inl e \<Rightarrow> (Terminated e, [])
        | Inr port \<Rightarrow>
            if port \<le> 0 \<or> 65535 < port then (Exited 1, [Err ''Error: invalid port number''])
            else (case StorageNode_open D of
                Inl e \<Rightarrow> (Terminated e, [])
              | Inr _ \<Rightarrow> (Serving (argv ! 1) port (),
                  [Out (''Storage node listening on '' @ argv ! 1 @ '':'' @ to_string (nat port))])))"

text \<open>\<open>None\<close>: the constructor never finds a new key id.\<close>

definition storage_client_main ::
    "('c, 'key) libs \<Rightarrow> 'key option \<Rightarrow> (nat \<Rightarrow> bytes) \<Rightarrow> 'c \<Rightarrow> tables \<Rightarrow> file_system \<Rightarrow> string list \<Rightarrow>
     (('c, 'key) client outcome \<times> line list) option" where
  "storage_client_main L new_key draws c t fs argv =
     (if length argv \<noteq> 4 then Some (Exited 1, [Err ''Usage: storage_client <host> <port> <metadata_conn_str>''])
      else case atoi (argv ! 2) of
          Inl e \<Rightarrow> Some (Terminated e, [])
        | Inr port \<Rightarrow>
            if port \<le> 0 \<or> 65535 < port then Some (Exited 1, [Err ''Error: invalid port number''])
            else (case StorageClient_open L new_key draws c t fs of
                None \<Rightarrow> None
              | Some (Inl e, s) \<Rightarrow> Some (Terminated e, [])
              | Some (Inr _, s) \<Rightarrow>
                  (case StorageClient_init L s of
                     (Inl e, s') \<Rightarrow> Some (Terminated e, [])
                   | (Inr _, s') \<Rightarrow> Some (Serving (argv ! 1) port s',
                       [Out (''Storage client server listening on '' @ argv ! 1 @ '':'' @ to_string (nat port))]))))"

section \<open>Identifiers\<close>

fun hex_digits :: "nat \<Rightarrow> nat list" where
  "hex_digits n = (if n < 16 then [n] else hex_digits (n div 16) @ [n mod 16])"

declare hex_digits.simps [simp del]

text \<open>\<open>std::hex\<close>, and \<open>std::setw\<close> with \<open>std::setfill('0')\<close>: a width is a minimum.\<close>

definition hex_string :: "nat \<Rightarrow> string" where
  "hex_string n = map (\<lambda>d. hex_digit (word_of_nat d)) (hex_digits n)"

definition zero_padded :: "nat \<Rightarrow> string \<Rightarrow> string" where
  "zero_padded w s = replicate (w - length s) CHR ''0'' @ s"

definition run_uuid :: "nat \<Rightarrow> string" where
  "run_uuid run_id = ''00000000-0000-0000-0000-'' @ zero_padded 12 (hex_string run_id)"

definition make_uuid :: "32 word \<Rightarrow> 64 word \<Rightarrow> string" where
  "make_uuid grp n = ''00000000-0000-0000-'' @ zero_padded 4 (hex_string (unat grp)) @ ''-'' @
     zero_padded 12 (hex_string (unat n))"

section \<open>The benchmark driver\<close>

record benchmark_config =
  bc_k_values :: "32 word list"
  bc_m_values :: "32 word list"
  bc_object_sizes :: "64 word list"

definition default_config :: "environment \<Rightarrow> benchmark_config res" where
  "default_config env =
     bind_res (parse_list word_of_nat (env_or env ''BENCHMARK_K_VALUES'' []) [2, 4, 6, 8]) (\<lambda>ks.
     bind_res (parse_list word_of_nat (env_or env ''BENCHMARK_M_VALUES'' []) [1, 2, 3, 4]) (\<lambda>ms.
     bind_res (parse_list word_of_nat (env_or env ''BENCHMARK_OBJECT_SIZES'' [])
         [1024, 4 * 1024, 16 * 1024, 64 * 1024, 256 * 1024, 1024 * 1024]) (\<lambda>sizes.
     Inr \<lparr>bc_k_values = ks, bc_m_values = ms, bc_object_sizes = sizes\<rparr>)))"

text \<open>The locations that are to fail, per node, and how many.\<close>

fun choose_failures :: "nat \<Rightarrow> string list \<Rightarrow> shard_location_map \<Rightarrow> nat \<Rightarrow> shard_location_map \<times> nat" where
  "choose_failures wanted [] to_fail dropped = (to_fail, dropped)"
| "choose_failures wanted (shard_location # rest) to_fail dropped =
     (if wanted \<le> dropped then (to_fail, dropped)
      else case split_location shard_location of
          None \<Rightarrow> choose_failures wanted rest to_fail dropped
        | Some (node_address, location) \<Rightarrow>
            choose_failures wanted rest (um_push to_fail node_address location) (Suc dropped))"

definition inject_failures ::
    "('c, 'key) libs \<Rightarrow> ('c, 'key) client \<Rightarrow> string \<Rightarrow> 32 word \<Rightarrow> nat res \<times> ('c, 'key) client" where
  "inject_failures L s object_id wanted =
     (if wanted = 0 then (Inr 0, s)
      else case MetadataStore_get (lb_pg L) (lb_msgpack L) (sc_catalog s) object_id of
          Inl e \<Rightarrow> (Inl e, s)
        | Inr None \<Rightarrow> (Inr 0, s)
        | Inr (Some md) \<Rightarrow>
            (case choose_failures (unat wanted) (md_shard_locations md) [] 0 of
               (to_fail, dropped) \<Rightarrow>
                 (Inr dropped, if to_fail = [] then s
                    else s\<lparr>sc_cluster := remove_from_nodes (lb_send L) (lb_ord L) (sc_cluster s) to_fail\<rparr>)))"

text \<open>What one run draws: the object's bytes (of the size asked for), and the draws of its operations.\<close>

record benchmark_draws =
  bd_data :: "nat \<Rightarrow> bytes"
  bd_put :: put_draws
  bd_get :: phase_timing
  bd_repair :: repair_draws
  bd_repair_timing :: phase_timing

definition run_line :: "32 word \<Rightarrow> 32 word \<Rightarrow> 64 word \<Rightarrow> 64 word \<Rightarrow> line" where
  "run_line k m object_size shard_bytes =
     Out (''RUN k='' @ to_string (unat k) @ '' m='' @ to_string (unat m) @ '' object_size='' @
       to_string (unat object_size) @ '' shard_size='' @ to_string (unat shard_bytes))"

text \<open>
  What a handler that reports \<open>e.what()\<close> leaves of a result, and what it prints. Undefined behaviour is
  no exception: it ends the run.
\<close>

definition caught :: "'a res \<Rightarrow> unit res" where
  "caught r = (case r of Inl e \<Rightarrow> if e = UndefinedBehaviour then Inl e else Inr () | Inr _ \<Rightarrow> Inr ())"

definition reported :: "string \<Rightarrow> 'a res \<Rightarrow> line list" where
  "reported message r = (case r of Inl e \<Rightarrow> if e = UndefinedBehaviour then [] else [Err (message @ exn_what e)] | Inr _ \<Rightarrow> [])"

text \<open>
  One run: put, get, fail some shards, repair, remove. Exceptions of the client are reported and
  the run goes on; one of \<open>inject_failures\<close> is not caught. The removal's are swallowed.
\<close>

definition benchmark_run ::
    "('c, 'key) libs \<Rightarrow> benchmark_draws \<Rightarrow> 32 word \<Rightarrow> nat \<Rightarrow> 32 word \<Rightarrow> 32 word \<Rightarrow> 64 word \<Rightarrow> ('c, 'key) client \<Rightarrow>
     unit res \<times> line list \<times> ('c, 'key) client" where
  "benchmark_run L draws requested_failures run_id k m object_size s =
     (if k = 0 then (Inl UndefinedBehaviour, [], s)
      else
        let shard_bytes = (object_size + ucast k - 1) div ucast k;
            spec = \<lparr>data_shards = k, parity_shards = m, shard_size = shard_bytes\<rparr>;
            object_id = run_uuid run_id;
            data = bd_data draws (unat object_size);
            out = [run_line k m object_size shard_bytes]
        in case StorageClient_put L (bd_put draws) s object_id data spec of
          (Inl e, s1) \<Rightarrow> (caught (Inl e :: unit res), out @ reported ''  PUT failed: '' (Inl e :: unit res), s1)
        | (Inr _, s1) \<Rightarrow>
            (case StorageClient_get L (bd_get draws) s1 object_id of
              (retrieved, s2) \<Rightarrow>
                let out = out @ reported ''  GET failed: '' retrieved @
                      (case retrieved of Inl e \<Rightarrow> [] | Inr d \<Rightarrow> if d \<noteq> data then [Err ''  GET data mismatch''] else []);
                    to_drop = requested_failures
                in case caught retrieved of
                  Inl e \<Rightarrow> (Inl e, out, s2)
                | Inr _ \<Rightarrow>
                   (case (if 0 < to_drop then inject_failures L s2 object_id to_drop else (Inr 0, s2)) of
                     (Inl e, s3) \<Rightarrow> (Inl e, out, s3)
                   | (Inr _, s3) \<Rightarrow>
                      (case StorageClient_repair L (bd_repair draws) (bd_repair_timing draws) s3 object_id of
                        (repaired, s4) \<Rightarrow>
                          let out = out @ reported ''  REPAIR failed: '' repaired
                          in case caught repaired of
                            Inl e \<Rightarrow> (Inl e, out, s4)
                          | Inr _ \<Rightarrow> (case StorageClient_remove L s4 object_id of
                              (removed, s5) \<Rightarrow> (caught removed, out, s5))))))"

text \<open>The combinations in the order of the three loops; those with too few nodes are skipped.\<close>

definition benchmark_combinations :: "benchmark_config \<Rightarrow> nat \<Rightarrow> (32 word \<times> 32 word \<times> 64 word) list" where
  "benchmark_combinations cfg eligible =
     concat (map (\<lambda>k. concat (map (\<lambda>m.
       if eligible < unat (k + m) then [] else map (\<lambda>object_size. (k, m, object_size)) (bc_object_sizes cfg))
       (bc_m_values cfg))) (bc_k_values cfg))"

fun benchmark_loop ::
    "('c, 'key) libs \<Rightarrow> (nat \<Rightarrow> benchmark_draws) \<Rightarrow> 32 word \<Rightarrow> nat \<Rightarrow> (32 word \<times> 32 word \<times> 64 word) list \<Rightarrow>
     ('c, 'key) client \<Rightarrow> unit res \<times> line list \<times> ('c, 'key) client" where
  "benchmark_loop L draws requested_failures run_id [] s = (Inr (), [], s)"
| "benchmark_loop L draws requested_failures run_id ((k, m, object_size) # rest) s =
     (case benchmark_run L (draws run_id) requested_failures run_id k m object_size s of
        (Inl e, out, s') \<Rightarrow> (Inl e, out, s')
      | (Inr _, out, s') \<Rightarrow>
          (case benchmark_loop L draws requested_failures (Suc run_id) rest s' of
             (r, out', s'') \<Rightarrow> (r, out @ out', s'')))"

text \<open>
  \<open>main\<close> after the client has been constructed with a collector; \<open>open_store\<close> is the outcome of
  connecting the second store. The last component is the CSV file written (\<open>old\<close> before); \<open>None\<close>
  when that is not reached.
\<close>

definition benchmark_main ::
    "('c, 'key) libs \<Rightarrow> environment \<Rightarrow> unit res \<Rightarrow> (nat \<Rightarrow> benchmark_draws) \<Rightarrow> (real \<Rightarrow> string) \<Rightarrow> bool \<Rightarrow> string option \<Rightarrow>
     ('c, 'key) client \<Rightarrow> unit outcome \<times> line list \<times> ('c, 'key) client \<times> string option" where
  "benchmark_main L env open_store draws fmt can_open old s =
     (let csv_path = env_or env ''BENCHMARK_CSV_PATH'' ''docs/metrics/benchmark_results.csv'' in
      case StorageClient_init L s of
        (Inl e, s1) \<Rightarrow> (Terminated e, [], s1, None)
      | (Inr _, s1) \<Rightarrow>
          (case bind_res open_store (\<lambda>_.
                bind_res (list_nodes (lb_pg L) (sc_catalog s1)) (\<lambda>eligible_nodes.
                bind_res (default_config env) (\<lambda>cfg.
                bind_res (env_uint env ''BENCHMARK_FAILED_NODES'' 0) (\<lambda>requested_failures.
                Inr (eligible_nodes, cfg, requested_failures))))) of
             Inl e \<Rightarrow> (Terminated e, [], s1, None)
           | Inr (eligible_nodes, cfg, requested_failures) \<Rightarrow>
               (case benchmark_loop L draws requested_failures 0
                       (benchmark_combinations cfg (length eligible_nodes)) s1 of
                  (Inl e, out, s2) \<Rightarrow> (Terminated e, out, s2, None)
                | (Inr _, out, s2) \<Rightarrow>
                    (case export_csv fmt can_open (sc_metrics s2) csv_path (env_or env ''BENCHMARK_CSV_APPEND'' [] \<noteq> []) old of
                       Inl e \<Rightarrow> (Terminated e, out, s2, None)
                     | Inr csv \<Rightarrow> (Exited 0, out @ [Out (''Results written to '' @ csv_path),
                         Out (''Total records: '' @ to_string (length (sc_metrics s2)))], s2, Some csv)))))"

section \<open>The metadata benchmark\<close>

definition make_metadata :: "string \<Rightarrow> 32 word \<Rightarrow> object_metadata" where
  "make_metadata oid shards =
     \<lparr>md_id = oid, md_size = 1024, md_checksum = ''sha256:metadata-benchmark'',
      md_erasure = \<lparr>data_shards = (if 0 < shards then shards else 1), parity_shards = 0, shard_size = 256\<rparr>,
      md_shard_locations = map (\<lambda>i. ''node-bench:/shard-'' @ to_string i) [0..<unat shards],
      md_encrypted_dek = replicate 16 0, md_kek_id = ''kek-benchmark'', md_version = 0\<rparr>"

definition kListGroup :: "32 word" where "kListGroup = 0x0001"

definition kThroughputGroup :: "32 word" where "kThroughputGroup = 0x0002"

text \<open>Loops that call the store once per id and stop at the first exception.\<close>

fun put_each :: "postgres \<Rightarrow> msgpack \<Rightarrow> 32 word \<Rightarrow> tables \<Rightarrow> string list \<Rightarrow> unit res \<times> tables" where
  "put_each P M shards t [] = (Inr (), t)"
| "put_each P M shards t (oid # ids) =
     (case MetadataStore_put P M t (make_metadata oid shards) of
        (Inl e, t') \<Rightarrow> (Inl e, t')
      | (Inr _, t') \<Rightarrow> put_each P M shards t' ids)"

fun get_each :: "postgres \<Rightarrow> msgpack \<Rightarrow> tables \<Rightarrow> string list \<Rightarrow> unit res" where
  "get_each P M t [] = Inr ()"
| "get_each P M t (oid # ids) = bind_res (MetadataStore_get P M t oid) (\<lambda>_. get_each P M t ids)"

fun remove_each :: "postgres \<Rightarrow> tables \<Rightarrow> string list \<Rightarrow> unit res \<times> tables" where
  "remove_each P t [] = (Inr (), t)"
| "remove_each P t (oid # ids) =
     (case MetadataStore_remove P t oid of
        (Inl e, t') \<Rightarrow> (Inl e, t')
      | (Inr _, t') \<Rightarrow> remove_each P t' ids)"

definition list_ids :: "nat \<Rightarrow> nat \<Rightarrow> string list" where
  "list_ids a b = map (\<lambda>i. make_uuid kListGroup (word_of_nat i)) [a..<b]"

text \<open>A row of the sweep: objects, shards, and the two measured times.\<close>

type_synonym sweep_row = "nat \<times> 32 word \<times> real \<times> real"

fun sweep_loop ::
    "postgres \<Rightarrow> msgpack \<Rightarrow> 32 word \<Rightarrow> (nat \<Rightarrow> real \<times> real) \<Rightarrow> nat \<Rightarrow> nat \<Rightarrow> nat list \<Rightarrow> tables \<Rightarrow>
     unit res \<times> sweep_row list \<times> tables" where
  "sweep_loop P M shards clock i inserted [] t = (Inr (), [], t)"
| "sweep_loop P M shards clock i inserted (target # targets) t =
     (case put_each P M shards t (list_ids inserted target) of
        (Inl e, t1) \<Rightarrow> (Inl e, [], t1)
      | (Inr _, t1) \<Rightarrow>
          (case bind_res (MetadataStore_list P M t1) (\<lambda>all_objects.
                bind_res (get_each P M t1 (map md_id all_objects)) (\<lambda>_. Inr (length all_objects))) of
             Inl e \<Rightarrow> (Inl e, [], t1)
           | Inr num_objects \<Rightarrow>
               (case sweep_loop P M shards clock (Suc i) (max inserted target) targets t1 of
                  (r, rows, t2) \<Rightarrow> (r, (num_objects, shards, clock i) # rows, t2))))"

text \<open>\<open>open_store\<close> is the outcome of connecting, \<open>can_open\<close> whether the CSV file could be opened.\<close>

definition run_list_sweep ::
    "postgres \<Rightarrow> msgpack \<Rightarrow> environment \<Rightarrow> (nat \<Rightarrow> real \<times> real) \<Rightarrow> bool \<Rightarrow> unit res \<Rightarrow> tables \<Rightarrow>
     unit res \<times> sweep_row list \<times> tables" where
  "run_list_sweep P M env clock can_open open_store t =
     (case bind_res (parse_list (\<lambda>n. n) (env_or env ''META_LIST_SIZES'' []) [10, 50, 100, 250, 500, 1000]) (\<lambda>sizes.
           bind_res (env_uint env ''META_LIST_SHARDS'' 6) (\<lambda>shards.
           if \<not> can_open then
             Inl (RuntimeError (''cannot open: '' @ env_or env ''META_LIST_CSV'' ''docs/metrics/metadata_list_sweep.csv''))
           else bind_res open_store (\<lambda>_. Inr (sort sizes, shards)))) of
        Inl e \<Rightarrow> (Inl e, [], t)
      | Inr (targets, shards) \<Rightarrow>
          let max_n = (if targets = [] then 0 else last targets) in
          (case sweep_loop P M shards clock 0 0 targets t of
             (Inl e, rows, t1) \<Rightarrow> (Inl e, rows, t1)
           | (Inr _, rows, t1) \<Rightarrow> (case remove_each P t1 (list_ids 0 max_n) of (r, t2) \<Rightarrow> (r, rows, t2))))"

text \<open>The ids one thread reads: \<open>uint32_t\<close> arithmetic, and a division by zero for an empty dataset.\<close>

definition worker_index :: "32 word \<Rightarrow> 32 word \<Rightarrow> 32 word \<Rightarrow> 32 word" where
  "worker_index dataset tid i = (tid * 2654435761 + i * 40503) mod dataset"

definition worker_ids :: "32 word \<Rightarrow> 32 word \<Rightarrow> 32 word \<Rightarrow> string list res" where
  "worker_ids ops_per_thread dataset tid =
     (if ops_per_thread \<noteq> 0 \<and> dataset = 0 then Inl UndefinedBehaviour
      else Inr (map (\<lambda>i. make_uuid kThroughputGroup (ucast (worker_index dataset tid (word_of_nat i)))) [0..<unat ops_per_thread]))"

text \<open>
  The threads only read, so they run one after another here; an exception in a thread ends the
  process (\<open>std::terminate\<close>) and no handler sees it.
\<close>

fun run_workers :: "postgres \<Rightarrow> msgpack \<Rightarrow> tables \<Rightarrow> 32 word \<Rightarrow> 32 word \<Rightarrow> nat list \<Rightarrow> unit res" where
  "run_workers P M t ops_per_thread dataset [] = Inr ()"
| "run_workers P M t ops_per_thread dataset (tid # tids) =
     bind_res (worker_ids ops_per_thread dataset (word_of_nat tid)) (\<lambda>ids.
     bind_res (get_each P M t ids) (\<lambda>_. run_workers P M t ops_per_thread dataset tids))"

record throughput_row =
  tr_pool :: "32 word"
  tr_threads :: "32 word"
  tr_total_ops :: "64 word"
  tr_duration_ms :: real
  tr_throughput :: real
  tr_mean_latency_ms :: real

definition make_throughput_row :: "32 word \<Rightarrow> 32 word \<Rightarrow> 32 word \<Rightarrow> real \<Rightarrow> throughput_row" where
  "make_throughput_row pool threads ops_per_thread duration_ms =
     (let total_ops = ucast threads * ucast ops_per_thread in
      \<lparr>tr_pool = pool, tr_threads = threads, tr_total_ops = total_ops, tr_duration_ms = duration_ms,
       tr_throughput = real (unat total_ops) / (duration_ms / 1000),
       tr_mean_latency_ms = (if 0 < ops_per_thread then duration_ms / real (unat ops_per_thread) else 0)\<rparr>)"

datatype failure = Thrown exn | Thread_Died exn

fun throughput_loop ::
    "postgres \<Rightarrow> msgpack \<Rightarrow> tables \<Rightarrow> (nat \<Rightarrow> unit res) \<Rightarrow> (nat \<Rightarrow> real) \<Rightarrow> 32 word \<Rightarrow> 32 word \<Rightarrow> nat \<Rightarrow>
     (32 word \<times> 32 word) list \<Rightarrow> (failure + unit) \<times> throughput_row list" where
  "throughput_loop P M t open_store durations ops_per_thread dataset i [] = (Inr (), [])"
| "throughput_loop P M t open_store durations ops_per_thread dataset i ((pool, threads) # rest) =
     (case open_store i of
        Inl e \<Rightarrow> (Inl (Thrown e), [])
      | Inr _ \<Rightarrow>
          (case run_workers P M t ops_per_thread dataset [0..<unat threads] of
             Inl e \<Rightarrow> (Inl (Thread_Died e), [])
           | Inr _ \<Rightarrow>
               (case throughput_loop P M t open_store durations ops_per_thread dataset (Suc i) rest of
                  (r, rows) \<Rightarrow> (r, make_throughput_row pool threads ops_per_thread (durations i) # rows))))"

definition throughput_ids :: "32 word \<Rightarrow> string list" where
  "throughput_ids dataset = map (\<lambda>i. make_uuid kThroughputGroup (word_of_nat i)) [0..<unat dataset]"

text \<open>\<open>open_setup\<close>, \<open>open_store i\<close>, \<open>open_cleanup\<close>: the outcomes of the connections, in order.\<close>

definition run_throughput ::
    "postgres \<Rightarrow> msgpack \<Rightarrow> environment \<Rightarrow> (nat \<Rightarrow> real) \<Rightarrow> bool \<Rightarrow> unit res \<Rightarrow> (nat \<Rightarrow> unit res) \<Rightarrow> unit res \<Rightarrow> tables \<Rightarrow>
     (failure + unit) \<times> throughput_row list \<times> tables" where
  "run_throughput P M env durations can_open open_setup open_store open_cleanup t =
     (case bind_res (parse_list word_of_nat (env_or env ''META_POOL_SIZES'' []) [1, 2, 4, 8]) (\<lambda>pool_sizes.
           bind_res (parse_list word_of_nat (env_or env ''META_THREADS'' []) [1, 2, 4, 8]) (\<lambda>thread_counts.
           bind_res (env_uint env ''META_OPS_PER_THREAD'' 200) (\<lambda>ops_per_thread.
           bind_res (env_uint env ''META_DATASET'' 200) (\<lambda>dataset.
           bind_res (env_uint env ''META_TP_SHARDS'' 6) (\<lambda>shards.
           if \<not> can_open then
             Inl (RuntimeError (''cannot open: '' @ env_or env ''META_TP_CSV'' ''docs/metrics/metadata_throughput.csv''))
           else bind_res open_setup (\<lambda>_. Inr (pool_sizes, thread_counts, ops_per_thread, dataset, shards))))))) of
        Inl e \<Rightarrow> (Inl (Thrown e), [], t)
      | Inr (pool_sizes, thread_counts, ops_per_thread, dataset, shards) \<Rightarrow>
          (case put_each P M shards t (throughput_ids dataset) of
             (Inl e, t1) \<Rightarrow> (Inl (Thrown e), [], t1)
           | (Inr _, t1) \<Rightarrow>
               (case throughput_loop P M t1 open_store durations ops_per_thread dataset 0
                       (concat (map (\<lambda>pool. map (\<lambda>threads. (pool, threads)) thread_counts) pool_sizes)) of
                  (Inl e, rows) \<Rightarrow> (Inl e, rows, t1)
                | (Inr _, rows) \<Rightarrow>
                    (case open_cleanup of
                       Inl e \<Rightarrow> (Inl (Thrown e), rows, t1)
                     | Inr _ \<Rightarrow> (case remove_each P t1 (throughput_ids dataset) of
                         (Inl e, t2) \<Rightarrow> (Inl (Thrown e), rows, t2)
                       | (Inr _, t2) \<Rightarrow> (Inr (), rows, t2))))))"

text \<open>
  The list sweep, then the throughput runs, each if asked for; the first exception is reported and
  ends it with code 1. One record holds how its connections and files open, and the measured times.
\<close>

record metadata_benchmark_world =
  mw_list_times :: "nat \<Rightarrow> real \<times> real"
  mw_list_csv :: bool
  mw_list_store :: "unit res"
  mw_durations :: "nat \<Rightarrow> real"
  mw_throughput_csv :: bool
  mw_setup :: "unit res"
  mw_stores :: "nat \<Rightarrow> unit res"
  mw_cleanup :: "unit res"

definition metadata_benchmark_main ::
    "postgres \<Rightarrow> msgpack \<Rightarrow> environment \<Rightarrow> metadata_benchmark_world \<Rightarrow> tables \<Rightarrow>
     unit outcome \<times> line list \<times> sweep_row list \<times> throughput_row list \<times> tables" where
  "metadata_benchmark_main P M env w t =
     (let mode = env_or env ''META_BENCH_MODE'' ''all'';
          failed = (\<lambda>e. [Err (''metadata_benchmark failed: '' @ exn_what e)]) in
      case (if mode = ''list'' \<or> mode = ''all''
            then run_list_sweep P M env (mw_list_times w) (mw_list_csv w) (mw_list_store w) t else (Inr (), [], t)) of
        (Inl e, rows, t1) \<Rightarrow> (Exited 1, failed e, rows, [], t1)
      | (Inr _, rows, t1) \<Rightarrow>
          (case (if mode = ''throughput'' \<or> mode = ''all''
                 then run_throughput P M env (mw_durations w) (mw_throughput_csv w) (mw_setup w) (mw_stores w) (mw_cleanup w) t1
                 else (Inr (), [], t1)) of
             (Inl (Thrown e), trows, t2) \<Rightarrow> (Exited 1, failed e, rows, trows, t2)
           | (Inl (Thread_Died e), trows, t2) \<Rightarrow> (Terminated e, [], rows, trows, t2)
           | (Inr _, trows, t2) \<Rightarrow> (Exited 0, [], rows, trows, t2)))"

end
