(* ===== verification/Client_Server.thy ===== *)
theory Client_Server
  imports Rebalance Repair Reindex
begin

text \<open>
  \<^verbatim>\<open>core/StorageClientServer.cpp\<close>: the HTTP surface of the client. One definition per route handler;
  \<open>client_server\<close> is the route table, keyed by the pattern that httplib's router has matched, whose
  \<open>:id\<close> it puts into \<open>path_params\<close>. Base64 is Botan's, a parameter. A handler's result is the
  response it sets, or the exception that escapes it (from \<open>path_params.at\<close> or \<open>dump\<close>), answered by
  httplib with status 500.
\<close>

record base64_lib =
  b64_decode :: "string \<Rightarrow> bytes option"
  b64_encode :: "bytes \<Rightarrow> string"

definition base64_ok :: "base64_lib \<Rightarrow> bool" where
  "base64_ok B \<longleftrightarrow> (\<forall>b. b64_decode B (b64_encode B b) = Some b)"

text \<open>What the operations draw at random and measure.\<close>

record server_draws =
  sd_put :: put_draws
  sd_repair :: repair_draws
  sd_timing :: phase_timing

section \<open>Requests\<close>

text \<open>\<open>req.path_params.at("id")\<close> and the test that follows it.\<close>

definition with_id ::
    "json_lib \<Rightarrow> http_request \<Rightarrow> 's \<Rightarrow> (string \<Rightarrow> http_response res \<times> 's) \<Rightarrow> http_response res \<times> 's" where
  "with_id J rq s handler =
     (case map_of (rq_path_params rq) ''id'' of
        None \<Rightarrow> (Inl (OutOfRange ''map::at''), s)
      | Some object_id \<Rightarrow>
          if object_id = [] then (reply_error J 400 ''id must not be empty'', s) else handler object_id)"

text \<open>
  \<open>contains(k)\<close>, \<open>is_number_unsigned()\<close> and the value, which the parser has read into 64 bits.\<close>

definition unsigned_field :: "json \<Rightarrow> string \<Rightarrow> int option" where
  "unsigned_field input k = (case json_get input k of Some (JInt n) \<Rightarrow> if 0 \<le> n then Some n else None | _ \<Rightarrow> None)"

text \<open>\<open>get<uint32_t>()\<close> converts to 32 bits, \<open>get<std::size_t>()\<close> to 64.\<close>

definition erasure_fields :: "json \<Rightarrow> erasure_spec option" where
  "erasure_fields input =
     (case (unsigned_field input ''k'', unsigned_field input ''m'', unsigned_field input ''shard_size'') of
        (Some k, Some m, Some sz) \<Rightarrow>
          Some \<lparr>data_shards = word_of_int k, parity_shards = word_of_int m, shard_size = word_of_int sz\<rparr>
      | _ \<Rightarrow> None)"

text \<open>The object in the body of a PUT, or why it is refused.\<close>

definition put_payload :: "json_lib \<Rightarrow> base64_lib \<Rightarrow> string \<Rightarrow> string + (bytes \<times> erasure_spec)" where
  "put_payload J B body =
     (case json_parse J body of
        None \<Rightarrow> Inl ''invalid JSON body''
      | Some input \<Rightarrow>
          (case Option.bind (json_get input ''data'') json_string of
             None \<Rightarrow> Inl ''missing or invalid 'data' field''
           | Some raw \<Rightarrow>
               (case b64_decode B raw of
                  None \<Rightarrow> Inl ''invalid base64 in 'data' field''
                | Some payload \<Rightarrow>
                    (case erasure_fields input of
                       None \<Rightarrow> Inl ''missing or invalid erasure fields ('k', 'm', 'shard_size')''
                     | Some spec \<Rightarrow> Inr (payload, spec)))))"

text \<open>An optional body; an empty one is an empty object.\<close>

definition optional_body :: "json_lib \<Rightarrow> string \<Rightarrow> string + json" where
  "optional_body J body =
     (if body = [] then Inr (JObj []) else case json_parse J body of None \<Rightarrow> Inl ''invalid JSON body'' | Some j \<Rightarrow> Inr j)"

definition optional_bool :: "json \<Rightarrow> string \<Rightarrow> string \<Rightarrow> string + bool" where
  "optional_bool input k msg = (case json_get input k of None \<Rightarrow> Inr False | Some (JBool b) \<Rightarrow> Inr b | Some _ \<Rightarrow> Inl msg)"

definition optional_size :: "json \<Rightarrow> string \<Rightarrow> string \<Rightarrow> string + nat" where
  "optional_size input k msg =
     (if json_get input k = None then Inr 0
      else case unsigned_field input k of None \<Rightarrow> Inl msg | Some n \<Rightarrow> Inr (unat (word_of_int n :: 64 word)))"

definition optional_strings :: "json \<Rightarrow> string \<Rightarrow> string \<Rightarrow> string + string list" where
  "optional_strings input k msg =
     (case json_get input k of
        None \<Rightarrow> Inr []
      | Some (JArr entries) \<Rightarrow>
          if \<forall>e\<in>set entries. json_string e \<noteq> None then Inr (List.map_filter json_string entries) else Inl msg
      | Some _ \<Rightarrow> Inl msg)"

definition policy_fields :: "json \<Rightarrow> string + rebalance_policy" where
  "policy_fields input =
     (case optional_bool input ''dry_run'' '''dry_run' must be a boolean'' of
        Inl msg \<Rightarrow> Inl msg
      | Inr dry_run \<Rightarrow>
          (case optional_size input ''max_moves'' '''max_moves' must be a non-negative integer'' of
             Inl msg \<Rightarrow> Inl msg
           | Inr max_moves \<Rightarrow> Inr \<lparr>rp_dry_run = dry_run, rp_max_moves = max_moves\<rparr>))"

definition scope_fields :: "json \<Rightarrow> string + rebalance_scope" where
  "scope_fields input =
     (case optional_bool input ''dry_run'' '''dry_run' must be a boolean'' of
        Inl msg \<Rightarrow> Inl msg
      | Inr dry_run \<Rightarrow>
          (case optional_size input ''max_objects'' '''max_objects' must be a non-negative integer'' of
             Inl msg \<Rightarrow> Inl msg
           | Inr max_objects \<Rightarrow>
               (case optional_size input ''max_moves'' '''max_moves' must be a non-negative integer'' of
                  Inl msg \<Rightarrow> Inl msg
                | Inr max_moves \<Rightarrow>
                    (case optional_strings input ''object_ids'' '''object_ids' must be an array of strings'' of
                       Inl msg \<Rightarrow> Inl msg
                     | Inr object_ids \<Rightarrow> Inr \<lparr>sp_object_ids = object_ids, sp_max_objects = max_objects,
                         sp_max_moves = max_moves, sp_dry_run = dry_run\<rparr>))))"

section \<open>Replies\<close>

abbreviation json_size :: "nat \<Rightarrow> json" where
  "json_size n \<equiv> JInt (int n)"

abbreviation json_word :: "'w::len word \<Rightarrow> json" where
  "json_word w \<equiv> JInt (uint w)"

text \<open>\<open>catch (const std::exception& e)\<close>; undefined behaviour is no exception.\<close>

definition reply_exn :: "json_lib \<Rightarrow> exn \<Rightarrow> http_response res" where
  "reply_exn J e = (if e = UndefinedBehaviour then Inl e else reply_error J 500 (exn_what e))"

fun rebalance_status_str :: "rebalance_status \<Rightarrow> string" where
  "rebalance_status_str Balanced = ''balanced''"
| "rebalance_status_str Moved = ''moved''"
| "rebalance_status_str DryRun = ''dry_run''"
| "rebalance_status_str SkippedDegraded = ''skipped_degraded''"
| "rebalance_status_str SkippedUnsafe = ''skipped_unsafe''"
| "rebalance_status_str SkippedConflict = ''skipped_conflict''"
| "rebalance_status_str SkippedNotFound = ''not_found''"
| "rebalance_status_str Errored = ''error''"

definition rebalance_result_members :: "rebalance_object_result \<Rightarrow> (string \<times> json) list" where
  "rebalance_result_members r =
     [(''object_id'', JStr (ro_object_id r)), (''outcome'', JStr (rebalance_status_str (ro_status r))),
      (''shards_total'', json_size (ro_shards_total r)), (''shards_misplaced'', json_size (ro_shards_misplaced r)),
      (''shards_moved'', json_size (ro_shards_moved r)), (''detail'', JStr (ro_detail r))]"

definition list_json :: "object_metadata list \<Rightarrow> json" where
  "list_json objects = JArr (map (\<lambda>obj. JObj [(''id'', JStr (md_id obj)), (''size'', json_word (md_size obj)),
     (''checksum'', JStr (md_checksum obj))]) objects)"

definition health_json :: "object_health \<Rightarrow> json" where
  "health_json h = JObj
     [(''object_id'', JStr (oh_object_id h)), (''total_shards'', json_word (oh_total_shards h)),
      (''available_shards'', json_word (oh_available_shards h)), (''required_shards'', json_word (oh_required_shards h)),
      (''missing_indices'', JArr (map json_word (oh_missing_indices h))), (''healthy'', JBool (oh_healthy h)),
      (''fully_replicated'', JBool (oh_fully_replicated h))]"

definition reindex_json :: "reindex_report \<Rightarrow> json" where
  "reindex_json report = JObj
     [(''status'', JStr ''ok''), (''versions_scanned'', json_size (rx_versions_scanned report)),
      (''objects_recovered'', json_size (rx_objects_recovered report)),
      (''objects_skipped_existing'', json_size (rx_objects_skipped_existing report)),
      (''degraded_objects'', json_size (rx_degraded_objects report)),
      (''unreadable_versions'', json_size (rx_unreadable_versions report)), (''errors'', json_size (rx_errors report))]"

definition rebalance_json :: "rebalance_report \<Rightarrow> json" where
  "rebalance_json report = JObj
     [(''status'', JStr ''ok''), (''dry_run'', JBool (rr_dry_run report)),
      (''objects_scanned'', json_size (rr_objects_scanned report)), (''objects_balanced'', json_size (rr_objects_balanced report)),
      (''objects_moved'', json_size (rr_objects_moved report)),
      (''objects_skipped_degraded'', json_size (rr_objects_skipped_degraded report)),
      (''objects_skipped_unsafe'', json_size (rr_objects_skipped_unsafe report)),
      (''objects_skipped_conflict'', json_size (rr_objects_skipped_conflict report)),
      (''objects_not_found'', json_size (rr_objects_not_found report)), (''objects_errored'', json_size (rr_objects_errored report)),
      (''shards_moved'', json_size (rr_shards_moved report)),
      (''results'', JArr (map (\<lambda>r. JObj (rebalance_result_members r)) (rr_results report)))]"

section \<open>The handlers\<close>

definition handle_put_object ::
    "('c, 'key) libs \<Rightarrow> base64_lib \<Rightarrow> server_draws \<Rightarrow> http_request \<Rightarrow> ('c, 'key) client \<Rightarrow>
     http_response res \<times> ('c, 'key) client" where
  "handle_put_object L B w rq s = with_id (lb_json L) rq s (\<lambda>object_id.
     case put_payload (lb_json L) B (rq_body rq) of
       Inl msg \<Rightarrow> (reply_error (lb_json L) 400 msg, s)
     | Inr (payload, spec) \<Rightarrow>
         (case StorageClient_put L (sd_put w) s object_id payload spec of
            (Inl e, s') \<Rightarrow> (reply_exn (lb_json L) e, s')
          | (Inr _, s') \<Rightarrow> (reply_ok (lb_json L), s')))"

definition handle_get_object ::
    "('c, 'key) libs \<Rightarrow> base64_lib \<Rightarrow> server_draws \<Rightarrow> http_request \<Rightarrow> ('c, 'key) client \<Rightarrow>
     http_response res \<times> ('c, 'key) client" where
  "handle_get_object L B w rq s = with_id (lb_json L) rq s (\<lambda>object_id.
     case StorageClient_get L (sd_timing w) s object_id of
       (Inl e, s') \<Rightarrow> (reply_exn (lb_json L) e, s')
     | (Inr payload, s') \<Rightarrow> (reply (lb_json L) 200 (JObj [(''data'', JStr (b64_encode B payload))]), s'))"

definition handle_delete_object ::
    "('c, 'key) libs \<Rightarrow> http_request \<Rightarrow> ('c, 'key) client \<Rightarrow> http_response res \<times> ('c, 'key) client" where
  "handle_delete_object L rq s = with_id (lb_json L) rq s (\<lambda>object_id.
     case StorageClient_remove L s object_id of
       (Inl e, s') \<Rightarrow> (reply_exn (lb_json L) e, s')
     | (Inr removed, s') \<Rightarrow> (if removed then reply_ok (lb_json L) else reply_error (lb_json L) 404 ''not found'', s'))"

definition handle_list_objects ::
    "('c, 'key) libs \<Rightarrow> ('c, 'key) client \<Rightarrow> http_response res \<times> ('c, 'key) client" where
  "handle_list_objects L s =
     (case StorageClient_list L s of
        Inl e \<Rightarrow> (reply_exn (lb_json L) e, s)
      | Inr objects \<Rightarrow> (reply (lb_json L) 200 (list_json objects), s))"

definition handle_object_health ::
    "('c, 'key) libs \<Rightarrow> http_request \<Rightarrow> ('c, 'key) client \<Rightarrow> http_response res \<times> ('c, 'key) client" where
  "handle_object_health L rq s = with_id (lb_json L) rq s (\<lambda>object_id.
     case StorageClient_health L s object_id of
       (Inl e, s') \<Rightarrow> (reply_exn (lb_json L) e, s')
     | (Inr h, s') \<Rightarrow> (reply (lb_json L) 200 (health_json h), s'))"

definition handle_object_repair ::
    "('c, 'key) libs \<Rightarrow> server_draws \<Rightarrow> http_request \<Rightarrow> ('c, 'key) client \<Rightarrow> http_response res \<times> ('c, 'key) client" where
  "handle_object_repair L w rq s = with_id (lb_json L) rq s (\<lambda>object_id.
     case StorageClient_repair L (sd_repair w) (sd_timing w) s object_id of
       (Inl e, s') \<Rightarrow> (reply_exn (lb_json L) e, s')
     | (Inr repaired, s') \<Rightarrow> (reply (lb_json L) 200 (JObj [(''status'', JStr ''ok''), (''repaired'', JBool repaired)]), s'))"

definition handle_reindex ::
    "('c, 'key) libs \<Rightarrow> ('c, 'key) client \<Rightarrow> http_response res \<times> ('c, 'key) client" where
  "handle_reindex L s =
     (case reindex L s of
        (Inl e, s') \<Rightarrow> (reply_exn (lb_json L) e, s')
      | (Inr report, s') \<Rightarrow> (reply (lb_json L) 200 (reindex_json report), s'))"

definition handle_object_rebalance ::
    "('c, 'key) libs \<Rightarrow> http_request \<Rightarrow> ('c, 'key) client \<Rightarrow> http_response res \<times> ('c, 'key) client" where
  "handle_object_rebalance L rq s = with_id (lb_json L) rq s (\<lambda>object_id.
     case optional_body (lb_json L) (rq_body rq) of
       Inl msg \<Rightarrow> (reply_error (lb_json L) 400 msg, s)
     | Inr input \<Rightarrow>
         (case policy_fields input of
            Inl msg \<Rightarrow> (reply_error (lb_json L) 400 msg, s)
          | Inr policy \<Rightarrow>
              (case rebalance_object L policy s object_id of
                 (Inl e, s') \<Rightarrow> (reply_exn (lb_json L) e, s')
               | (Inr r, s') \<Rightarrow>
                   (reply (lb_json L) 200 (JObj (rebalance_result_members r @ [(''status'', JStr ''ok'')])), s'))))"

definition handle_rebalance ::
    "('c, 'key) libs \<Rightarrow> http_request \<Rightarrow> ('c, 'key) client \<Rightarrow> http_response res \<times> ('c, 'key) client" where
  "handle_rebalance L rq s =
     (case optional_body (lb_json L) (rq_body rq) of
        Inl msg \<Rightarrow> (reply_error (lb_json L) 400 msg, s)
      | Inr input \<Rightarrow>
          (case scope_fields input of
             Inl msg \<Rightarrow> (reply_error (lb_json L) 400 msg, s)
           | Inr scope \<Rightarrow>
               (case rebalance L scope s of
                  (Inl e, s') \<Rightarrow> (reply_exn (lb_json L) e, s')
                | (Inr report, s') \<Rightarrow> (reply (lb_json L) 200 (rebalance_json report), s'))))"

section \<open>The routes\<close>

datatype route =
    Put_Object | Get_Object | Delete_Object | List_Objects | Object_Health | Object_Repair | Reindex_All
  | Object_Rebalance | Rebalance_All

text \<open>\<open>setup_routes\<close>: the verb and the pattern of each route.\<close>

definition route_of :: "http_verb \<Rightarrow> string \<Rightarrow> route option" where
  "route_of verb pattern = map_of
     [((PUT, ''/objects/:id''), Put_Object), ((GET, ''/objects/:id''), Get_Object), ((DELETE, ''/objects/:id''), Delete_Object),
      ((GET, ''/objects''), List_Objects), ((GET, ''/objects/:id/health''), Object_Health),
      ((POST, ''/objects/:id/repair''), Object_Repair), ((POST, ''/admin/reindex''), Reindex_All),
      ((POST, ''/objects/:id/rebalance''), Object_Rebalance), ((POST, ''/admin/rebalance''), Rebalance_All)] (verb, pattern)"

fun run_route ::
    "('c, 'key) libs \<Rightarrow> base64_lib \<Rightarrow> server_draws \<Rightarrow> route \<Rightarrow> http_request \<Rightarrow> ('c, 'key) client \<Rightarrow>
     http_response res \<times> ('c, 'key) client" where
  "run_route L B w Put_Object rq s = handle_put_object L B w rq s"
| "run_route L B w Get_Object rq s = handle_get_object L B w rq s"
| "run_route L B w Delete_Object rq s = handle_delete_object L rq s"
| "run_route L B w List_Objects rq s = handle_list_objects L s"
| "run_route L B w Object_Health rq s = handle_object_health L rq s"
| "run_route L B w Object_Repair rq s = handle_object_repair L w rq s"
| "run_route L B w Reindex_All rq s = handle_reindex L s"
| "run_route L B w Object_Rebalance rq s = handle_object_rebalance L rq s"
| "run_route L B w Rebalance_All rq s = handle_rebalance L rq s"

definition client_server ::
    "('c, 'key) libs \<Rightarrow> base64_lib \<Rightarrow> server_draws \<Rightarrow> http_verb \<Rightarrow> string \<Rightarrow> http_request \<Rightarrow> ('c, 'key) client \<Rightarrow>
     http_response \<times> ('c, 'key) client" where
  "client_server L B w verb pattern rq s =
     (case route_of verb pattern of
        None \<Rightarrow> (reply_not_found, s)
      | Some route \<Rightarrow> (case run_route L B w route rq s of (r, s') \<Rightarrow> (response_of r, s')))"

end
