(* ===== verification/Client_Server_Properties.thy ===== *)
theory Client_Server_Properties
  imports Client_Server Client_Properties
begin

text \<open>
  What the HTTP surface of the client promises: every reply is well formed, refused and reading
  requests change nothing, and an object that was put over HTTP is what a GET returns.
\<close>

section \<open>Handlers\<close>

text \<open>
  A property of every outcome of a handler that first checks the id.\<close>

lemma with_id_intro:
  assumes "P (Inl (OutOfRange ''map::at''), s)" and "P (reply_error J 400 ''id must not be empty'', s)"
    and "\<And>object_id. map_of (rq_path_params rq) ''id'' = Some object_id \<Longrightarrow> object_id \<noteq> [] \<Longrightarrow> P (handler object_id)"
  shows "P (with_id J rq s handler)"
  using assms by (auto simp: with_id_def split: option.splits)

definition reply_wf :: "json_lib \<Rightarrow> http_response \<Rightarrow> bool" where
  "reply_wf J r \<longleftrightarrow> r = reply_not_found \<or> r = \<lparr>rs_status = 500, rs_body = []\<rparr> \<or>
     (\<exists>j. json_dump J j = Some (rs_body r) \<and>
        (rs_status r = 200 \<and> json_get j ''error'' = None \<or>
         rs_status r \<in> {400, 404, 500} \<and> (\<exists>msg. j = JObj [(''error'', JStr msg)])))"

lemma reply_wf_intros [simp]:
  "reply_wf J \<lparr>rs_status = 500, rs_body = []\<rparr>"
  "s \<in> {400, 404, 500} \<Longrightarrow> reply_wf J (response_of (reply_error J s msg))"
  "reply_wf J (response_of (reply_exn J e))"
  "reply_wf J (response_of (reply_ok J))"
  "json_get j ''error'' = None \<Longrightarrow> reply_wf J (response_of (reply J 200 j))"
  by (auto simp: reply_wf_def reply_error_def reply_ok_def reply_exn_def reply_def split: option.splits)

lemma no_error_member [simp]:
  "json_get (list_json objects) ''error'' = None" "json_get (health_json h) ''error'' = None"
  "json_get (reindex_json rx) ''error'' = None" "json_get (rebalance_json rr) ''error'' = None"
  "map_of (rebalance_result_members r) ''error'' = None"
  by (simp_all add: list_json_def health_json_def reindex_json_def rebalance_json_def rebalance_result_members_def)

lemmas handler_defs = handle_put_object_def handle_get_object_def handle_delete_object_def handle_list_objects_def
  handle_object_health_def handle_object_repair_def handle_reindex_def handle_object_rebalance_def handle_rebalance_def

lemma run_route_wf: "reply_wf (lb_json L) (response_of (fst (run_route L B w route rq s)))"
  by (cases route)
    (auto simp: handler_defs map_add_def intro!: with_id_intro [where P = "\<lambda>x. reply_wf (lb_json L) (response_of (fst x))"]
      split: sum.splits prod.splits)

text \<open>
  C17: Whatever the request, the reply is either an empty one, from the router or for an exception
  that escapes a handler, or a JSON text: with status 200 and no error member, or with status 400,
  404 or 500 and just the error.
\<close>

theorem client_server_replies:
  "reply_wf (lb_json L) (fst (client_server L B w verb pattern rq s))"
  using run_route_wf [of L B w _ rq s]
  by (auto simp: client_server_def reply_wf_def [of _ reply_not_found] split: option.splits prod.splits)
    (metis fst_conv)

text \<open>An outcome with status 400 leaves the state \<open>s\<close> as it was.\<close>

definition refusal_keeps :: "'s \<Rightarrow> http_response res \<times> 's \<Rightarrow> bool" where
  "refusal_keeps s x \<longleftrightarrow> (rs_status (response_of (fst x)) = 400 \<longrightarrow> snd x = s)"

lemma refusal_keeps_intros [simp]:
  "refusal_keeps s (r, s)"
  "refusal_keeps s (reply_exn J e, s')"
  "refusal_keeps s (reply_ok J, s')"
  "refusal_keeps s (reply J 200 j, s')"
  "refusal_keeps s (reply_error J 404 msg, s')"
  by (auto simp: refusal_keeps_def reply_exn_def reply_ok_def reply_error_def reply_def split: option.splits)

lemma run_route_refusal: "refusal_keeps s (run_route L B w route rq s)"
  by (cases route)
    (auto simp: handler_defs intro!: with_id_intro [where P = "refusal_keeps s"] split: sum.splits prod.splits)

text \<open>
  C16: A request that is refused with status 400, or that no route takes, has no effect at all.
\<close>

theorem client_server_refused:
  assumes "client_server L B w verb pattern rq s = (r, s')" and "rs_status r = 400 \<or> route_of verb pattern = None"
  shows "s' = s"
  using assms run_route_refusal [of s L B w _ rq]
  by (auto simp: client_server_def refusal_keeps_def split: option.splits prod.splits) (metis fst_conv snd_conv)

section \<open>Reading is safe\<close>

text \<open>Only the network's own state and the metrics may differ.\<close>

definition read_only ::
    "('c \<Rightarrow> string \<Rightarrow> string \<Rightarrow> bytes option) \<Rightarrow> ('c, 'key) client \<Rightarrow> ('c, 'key) client \<Rightarrow> bool" where
  "read_only stored s s' \<longleftrightarrow> sc_catalog s' = sc_catalog s \<and> sc_ring s' = sc_ring s \<and> sc_active s' = sc_active s \<and>
     sc_fs s' = sc_fs s \<and> stored (sc_cluster s') = stored (sc_cluster s)"

lemma read_only_same [simp]: "read_only stored s s"
  by (simp add: read_only_def)

lemma get_routes: "route_of GET pattern = Some route \<Longrightarrow> route \<in> {Get_Object, List_Objects, Object_Health}"
  by (auto simp: route_of_def split: if_splits)

context shard_service
begin

lemma fetch_locations_same: "shards (snd (fetch_locations send M c a ls)) = shards c"
proof (induction ls arbitrary: c)
  case (Cons l ls)
  obtain r c1 where s: "send c a GET (shard_target l) [] = (r, c1)" by fastforce
  have "shards c1 = shards c" using get_same [of c a "shard_target l" "[]"] by (simp add: s)
  then show ?case using Cons.IH [of c1] by (auto simp: s split: prod.splits)
qed simp

lemma run_fetch_tasks_same: "shards (snd (run_fetch_tasks send M c m)) = shards c"
proof (induction m arbitrary: c)
  case (Cons x m)
  obtain a ls where x: "x = (a, ls)" by (cases x)
  have "shards (snd (fetch_task send M c a ls)) = shards c"
    by (simp add: fetch_task_def fetch_locations_same split: sum.split)
  then show ?case using Cons.IH by (auto simp: x split: prod.splits) (metis snd_conv)
qed simp

lemma probe_shard_same: "shards (snd (probe_shard send c a l)) = shards c"
  using get_same [of c a "shard_target l" "[]"] by (auto simp: probe_shard_def split: sum.splits prod.splits)

lemma health_loop_same: "shards (snd (health_loop send c i locs av ms)) = shards c"
proof (induction locs arbitrary: c i av ms)
  case (Cons loc locs)
  show ?case
  proof (cases "split_location loc")
    case (Some x)
    obtain a l where x: "x = (a, l)" by (cases x)
    obtain b c1 where p: "probe_shard send c a l = (b, c1)" by fastforce
    have "shards c1 = shards c" using probe_shard_same [of c a l] by (simp add: p)
    then show ?thesis using Cons.IH by (cases b) (simp_all add: Some x p)
  qed (simp add: Cons.IH)
qed simp

lemma get_read_only: "lb_send L = send \<Longrightarrow> read_only shards s (snd (StorageClient_get L timing s oid))"
proof -
  assume l: "lb_send L = send"
  have "shards c' = shards c" if "fetch_encrypted_shards send M ord c m = (ss, c')" for M ord c m ss c'
    using run_fetch_tasks_same [of M c "um_iter ord m"] that by (simp add: fetch_encrypted_shards_def)
  then show ?thesis
    by (auto simp: StorageClient_get_def read_only_def l split: sum.splits option.splits prod.splits)
qed

lemma health_read_only: "lb_send L = send \<Longrightarrow> read_only shards s (snd (StorageClient_health L s oid))"
proof -
  assume l: "lb_send L = send"
  have "shards c' = shards c" if "health_loop send c i locs av ms = (x, c')" for c i locs av ms x c'
    using health_loop_same [of c i locs av ms] that by simp
  then show ?thesis
    by (auto simp: StorageClient_health_def read_only_def l Let_def split: sum.splits option.splits prod.splits)
qed

end

text \<open>
  C15: GET is safe: whatever the route, a GET request changes no shard on any node, nothing in the
  catalog and no key.
\<close>

theorem client_server_get_safe:
  assumes lib: "libs_ok L D T" and "client_server L B w GET pattern rq s = (r, s')"
  shows "sc_catalog s' = sc_catalog s \<and> sc_ring s' = sc_ring s \<and> sc_active s' = sc_active s \<and> sc_fs s' = sc_fs s \<and>
    cluster_shards D (sc_cluster s') = cluster_shards D (sc_cluster s)"
proof -
  have l: "lb_send L = cluster_send D (lb_json L) T" using lib by (simp add: libs_ok_def)
  note get = cluster.get_read_only [OF l] and health = cluster.health_read_only [OF l]
  have "read_only (cluster_shards D) s (snd (run_route L B w route rq s))" if "route \<in> {Get_Object, List_Objects, Object_Health}" for route
  proof -
    have "read_only (cluster_shards D) s (snd (handle_get_object L B w rq s))"
      unfolding handle_get_object_def
      by (rule with_id_intro) (auto split: prod.splits sum.splits, (metis get snd_conv)+)
    moreover have "read_only (cluster_shards D) s (snd (handle_object_health L rq s))"
      unfolding handle_object_health_def
      by (rule with_id_intro) (auto split: prod.splits sum.splits, (metis health snd_conv)+)
    moreover have "read_only (cluster_shards D) s (snd (handle_list_objects L s))"
      by (auto simp: handle_list_objects_def split: sum.splits)
    ultimately show ?thesis using that by auto
  qed
  then have route: "read_only (cluster_shards D) s (snd (run_route L B w route rq s))" if "route_of GET pattern = Some route" for route
    using get_routes [OF that] by blast
  have "read_only (cluster_shards D) s s'"
  proof (cases "route_of GET pattern")
    case (Some x)
    then show ?thesis using route [OF Some] assms(2) by (auto simp: client_server_def split: prod.splits)
  qed (use assms(2) in \<open>simp add: client_server_def\<close>)
  then show ?thesis by (simp add: read_only_def)
qed

section \<open>Storing and reading over HTTP\<close>

lemma put_accepted:
  assumes "client_server L B w PUT ''/objects/:id'' rq s = (r, s')" and "rs_status r = 200"
  shows "\<exists>object_id data spec. map_of (rq_path_params rq) ''id'' = Some object_id \<and> object_id \<noteq> [] \<and>
    put_payload (lb_json L) B (rq_body rq) = Inr (data, spec) \<and>
    StorageClient_put L (sd_put w) s object_id data spec = (Inr (), s')"
proof -
  have r: "route_of PUT ''/objects/:id'' = Some Put_Object" by (simp add: route_of_def)
  obtain x where h: "handle_put_object L B w rq s = (x, s')" "r = response_of x"
    using assms(1) by (auto simp: client_server_def r split: prod.splits)
  have "rs_status (response_of (reply_exn J e)) \<noteq> 200" for J e
    by (simp add: reply_exn_def response_of_reply_error_ne_200)
  then show ?thesis
    using h assms(2) response_of_reply_error_ne_200 [of 400]
    by (auto simp: handle_put_object_def with_id_def split: option.splits if_splits sum.splits prod.splits)
qed

text \<open>The reply brings \<open>data\<close>, in Base64, in a JSON object.\<close>

definition carries :: "json_lib \<Rightarrow> base64_lib \<Rightarrow> http_response \<Rightarrow> bytes \<Rightarrow> bool" where
  "carries J B r data \<longleftrightarrow> rs_status r = 200 \<and>
     (\<exists>encoded. json_parse J (rs_body r) = Some (JObj [(''data'', JStr encoded)]) \<and> b64_decode B encoded = Some data)"

text \<open>
  C14: Durability over HTTP. A PUT that is answered with status 200 had a body that describes some
  data and a specification. As long as the catalog entry, the wrapping key and enough of the shards
  it wrote survive, every later GET of the same id is answered with status 200 and a JSON body whose
  \<open>data\<close> member decodes to exactly that data.
\<close>

theorem http_put_then_get:
  assumes lib: "libs_ok L D T" "base64_ok B" "json_ok (lb_json L)" and d: "draws_ok L (sd_put w)"
    and t: "tables_ok (lb_pg L) (sc_catalog s)" "addresses_ok (sc_catalog s)"
    and i: "map_of (rq_path_params rq) ''id'' = Some object_id" "list_all plain_char object_id"
    and p: "client_server L B w PUT ''/objects/:id'' rq s = (r, s1)" "rs_status r = 200"
    and rd: "reads_ok (lb_pg L) (sc_catalog s1)"
  shows "\<exists>data spec nodes keys. put_payload (lb_json L) B (rq_body rq) = Inr (data, spec) \<and>
    length nodes = total_shards spec \<and> distinct nodes \<and> length keys = total_shards spec \<and> distinct keys \<and>
    (\<forall>i<total_shards spec. cluster_shards D (sc_cluster s1) (nodes ! i) (keys ! i) \<noteq> None) \<and>
    (\<forall>s2 w' rq' Up. sc_catalog s2 = sc_catalog s1 \<and> map_of (sc_ring s2) (sc_active s) = map_of (sc_ring s) (sc_active s) \<and>
       enough_survive L D (sd_put w) spec nodes keys s1 s2 Up \<and> map_of (rq_path_params rq') ''id'' = Some object_id \<and>
       json_dump (lb_json L) (JObj [(''data'', JStr (b64_encode B data))]) \<noteq> None \<longrightarrow>
       carries (lb_json L) B (fst (client_server L B w' GET ''/objects/:id'' rq' s2)) data)"
proof -
  obtain data spec where q: "object_id \<noteq> []" "put_payload (lb_json L) B (rq_body rq) = Inr (data, spec)"
    "StorageClient_put L (sd_put w) s object_id data spec = (Inr (), s1)"
    using put_accepted [OF p] i(1) by auto
  obtain nodes keys where n: "length nodes = total_shards spec" "distinct nodes" "length keys = total_shards spec" "distinct keys"
    "\<forall>i<total_shards spec. cluster_shards D (sc_cluster s1) (nodes ! i) (keys ! i) \<noteq> None"
    and get: "\<And>s2 timing Up. sc_catalog s2 = sc_catalog s1 \<Longrightarrow> map_of (sc_ring s2) (sc_active s) = map_of (sc_ring s) (sc_active s) \<Longrightarrow>
       enough_survive L D (sd_put w) spec nodes keys s1 s2 Up \<Longrightarrow> fst (StorageClient_get L timing s2 object_id) = Inr data"
    using put_get_durable [OF lib(1) d t i(2) q(3) rd] by blast
  have r: "route_of GET ''/objects/:id'' = Some Get_Object" by (simp add: route_of_def)
  have reply: "carries (lb_json L) B (fst (client_server L B w' GET ''/objects/:id'' rq' s2)) data"
    if got: "fst (StorageClient_get L (sd_timing w') s2 object_id) = Inr data" and idp: "map_of (rq_path_params rq') ''id'' = Some object_id"
      and dump: "json_dump (lb_json L) (JObj [(''data'', JStr (b64_encode B data))]) \<noteq> None" for s2 w' rq'
  proof -
    obtain body where b: "json_dump (lb_json L) (JObj [(''data'', JStr (b64_encode B data))]) = Some body" using dump by blast
    obtain s3 where g: "StorageClient_get L (sd_timing w') s2 object_id = (Inr data, s3)" using got by (metis prod.collapse)
    have "fst (client_server L B w' GET ''/objects/:id'' rq' s2) = \<lparr>rs_status = 200, rs_body = body\<rparr>"
      using q(1) idp g b by (simp add: client_server_def r handle_get_object_def with_id_def reply_def)
    then show ?thesis using b lib(2,3) by (auto simp: carries_def json_ok_def base64_ok_def)
  qed
  show ?thesis
    by (intro exI [of _ data] exI [of _ spec] exI [of _ nodes] exI [of _ keys] conjI allI impI q(2) n reply, elim conjE, rule get)
      auto
qed

section \<open>What the requests are read as\<close>

text \<open>
  The shard counts of a PUT are cut to 32 bits: a request for 4294967298 data shards is accepted
  and stored with 2.
\<close>

theorem put_fields_truncated:
  "erasure_fields (JObj [(''k'', JInt 4294967298), (''m'', JInt 1), (''shard_size'', JInt 8)]) =
     Some \<lparr>data_shards = 2, parity_shards = 1, shard_size = 8\<rparr>"
  by (simp add: erasure_fields_def unsigned_field_def)

text \<open>
  A body that is JSON but no object is read as no restriction at all: a rebalancing request whose
  body is a list of ids covers the whole catalog, without a dry run and without bounds.
\<close>

theorem non_object_scope:
  "scope_fields (JArr ids) = Inr \<lparr>sp_object_ids = [], sp_max_objects = 0, sp_max_moves = 0, sp_dry_run = False\<rparr>"
  by (simp add: scope_fields_def optional_bool_def optional_size_def optional_strings_def)

end
