(* ===== verification/Catalog_Spec.thy ===== *)
theory Catalog_Spec
  imports Rebalance_Properties Metadata_Properties
begin

text \<open>
  What \<open>MetadataStore\<close> is to its callers: a partial map from canonical ids to metadata, whose
  operations take effect at once or not at all. The specification leaves open when an operation
  fails and whether a failed one took effect; the detailed model with its rows, statements,
  transactions and commits refines it.
\<close>

section \<open>The abstract catalog\<close>

type_synonym object_map = "string \<Rightarrow> object_metadata option"

datatype catalog_call =
    Call_Put object_metadata
  | Call_Conditional object_metadata int
  | Call_Insert object_metadata
  | Call_Remove string
  | Call_Get string

datatype catalog_answer = Failed | Stored | Flag bool | Found "object_metadata option"

definition spec_version :: "object_map \<Rightarrow> string \<Rightarrow> int option" where
  "spec_version m u = map_option md_version (m u)"

definition spec_store :: "object_map \<Rightarrow> string \<Rightarrow> object_metadata \<Rightarrow> int \<Rightarrow> object_map" where
  "spec_store m u md v = m(u \<mapsto> md\<lparr>md_id := u, md_version := v\<rparr>)"

text \<open>
  The effect and the answer of a call that is not refused. \<open>K\<close> gives the canonical form of an id.
\<close>

definition spec_effect :: "(string \<Rightarrow> string option) \<Rightarrow> object_map \<Rightarrow> catalog_call \<Rightarrow> (catalog_answer \<times> object_map) option" where
  "spec_effect K m call = (case call of
     Call_Put md \<Rightarrow> map_option (\<lambda>u. (Stored, spec_store m u md (case spec_version m u of None \<Rightarrow> 1 | Some v \<Rightarrow> v + 1))) (K (md_id md))
   | Call_Conditional md expected \<Rightarrow> map_option (\<lambda>u. if spec_version m u = Some expected
       then (Flag True, spec_store m u md (expected + 1)) else (Flag False, m)) (K (md_id md))
   | Call_Insert md \<Rightarrow> map_option (\<lambda>u. if m u = None then (Flag True, spec_store m u md 1) else (Flag False, m)) (K (md_id md))
   | Call_Remove oid \<Rightarrow> map_option (\<lambda>u. (Flag (m u \<noteq> None), m(u := None))) (K oid)
   | Call_Get oid \<Rightarrow> map_option (\<lambda>u. (Found (m u), m)) (K oid))"

text \<open>One call: it succeeds, or it fails without effect, or it fails and has taken effect.\<close>

inductive spec_step :: "(string \<Rightarrow> string option) \<Rightarrow> object_map \<Rightarrow> catalog_call \<Rightarrow> catalog_answer \<Rightarrow> object_map \<Rightarrow> bool" for K where
  spec_done: "spec_effect K m call = Some (a, m') \<Longrightarrow> spec_step K m call a m'"
| spec_failed: "spec_step K m call Failed m"
| spec_in_doubt: "spec_effect K m call = Some (a, m') \<Longrightarrow> spec_step K m call Failed m'"

inductive spec_run :: "(string \<Rightarrow> string option) \<Rightarrow> object_map \<Rightarrow> catalog_call list \<Rightarrow> catalog_answer list \<Rightarrow> object_map \<Rightarrow> bool" for K where
  spec_run_Nil: "spec_run K m [] [] m"
| spec_run_Cons: "spec_step K m call a m1 \<Longrightarrow> spec_run K m1 calls as m' \<Longrightarrow> spec_run K m (call # calls) (a # as) m'"

section \<open>The detailed catalog\<close>

fun answer :: "('a \<Rightarrow> catalog_answer) \<Rightarrow> 'a res \<times> tables \<Rightarrow> catalog_answer \<times> tables" where
  "answer f (Inl e, t) = (Failed, t)"
| "answer f (Inr x, t) = (f x, t)"

fun run_call :: "postgres \<Rightarrow> msgpack \<Rightarrow> tables \<Rightarrow> catalog_call \<Rightarrow> catalog_answer \<times> tables" where
  "run_call P M t (Call_Put md) = answer (\<lambda>_. Stored) (MetadataStore_put P M t md)"
| "run_call P M t (Call_Conditional md expected) = answer Flag (conditional_put P M t md expected)"
| "run_call P M t (Call_Insert md) = answer Flag (insert_if_absent P M t md)"
| "run_call P M t (Call_Remove oid) = answer Flag (MetadataStore_remove P t oid)"
| "run_call P M t (Call_Get oid) = answer Found (MetadataStore_get P M t oid, t)"

fun run_calls :: "postgres \<Rightarrow> msgpack \<Rightarrow> tables \<Rightarrow> catalog_call list \<Rightarrow> catalog_answer list \<times> tables" where
  "run_calls P M t [] = ([], t)"
| "run_calls P M t (call # calls) =
     (case run_call P M t call of (a, t1) \<Rightarrow> (case run_calls P M t1 calls of (as, t') \<Rightarrow> (a # as, t')))"

text \<open>The tables represent the map: every row converts to the metadata the map has.\<close>

definition represents :: "postgres \<Rightarrow> msgpack \<Rightarrow> tables \<Rightarrow> object_map \<Rightarrow> bool" where
  "represents P M t m \<longleftrightarrow> tables_ok P t \<and> entry M t = m \<and> dom m = dom (catalog t)"

section \<open>Refinement\<close>

lemma represents_lookup:
  assumes "represents P M t m"
  shows "object_at t u = None \<longleftrightarrow> m u = None" and "version_at t u = spec_version m u"
proof -
  have "u \<in> dom m \<longleftrightarrow> u \<in> dom (catalog t)" using assms by (simp add: represents_def)
  then show n: "object_at t u = None \<longleftrightarrow> m u = None" by (auto simp: domIff catalog_def split: option.splits)
  show "version_at t u = spec_version m u"
  proof (cases "object_at t u")
    case None
    then show ?thesis using n by (simp add: version_at_def spec_version_def)
  next
    case (Some r)
    then obtain md where m: "m u = Some md" using n by auto
    have "entry M t u = m u" using assms by (simp add: represents_def)
    then have "md_version md = or_version r"
      using m Some by (auto simp: entry_def catalog_def row_to_object_metadata_def split: if_splits sum.splits)
    then show ?thesis using Some m by (simp add: version_at_def spec_version_def)
  qed
qed

lemma represents_replaced:
  assumes "represents P M t m" and "msgpack_ok M" and "tables_ok P (replaced t u (row_of M md u v) (md_shard_locations md))"
  shows "represents P M (replaced t u (row_of M md u v) (md_shard_locations md)) (spec_store m u md v)"
proof -
  let ?t = "replaced t u (row_of M md u v) (md_shard_locations md)"
  have c: "catalog ?t = (catalog t)(u \<mapsto> (row_of M md u v, md_shard_locations md))"
    by (rule catalog_replaced) (simp add: row_of_def)
  have "entry M ?t w = spec_store m u md v w" for w
  proof (cases "w = u")
    case True
    then show ?thesis by (simp add: entry_def c row_to_metadata_of [OF assms(2)] spec_store_def)
  next
    case False
    then have "entry M ?t w = entry M t w" by (simp add: entry_def c)
    then show ?thesis using False assms(1) by (simp add: represents_def spec_store_def)
  qed
  then have "entry M ?t = spec_store m u md v" by blast
  moreover have "dom (spec_store m u md v) = dom (catalog ?t)"
    using assms(1) unfolding c represents_def by (auto simp: spec_store_def)
  ultimately show ?thesis using assms(3) by (simp add: represents_def)
qed

text \<open>
  The outcome of a transaction that was ready to commit \<open>t'\<close> with answer \<open>v\<close>.\<close>

lemma commit_outcomes:
  "commit P t t' v = (r, t'') \<Longrightarrow> r = Inr v \<and> t'' = t' \<or> (\<exists>e. r = Inl e) \<and> (t'' = t \<or> t'' = t')"
  by (auto simp: commit_def split: commit_outcome.splits)

lemma spec_commit:
  assumes c: "commit P t t1 v = (r, t')" and e: "spec_effect K m call = Some (f v, m1)"
    and R: "represents P M t m" "represents P M t1 m1" and a: "answer f (r, t') = (a, t'')"
  shows "\<exists>m'. spec_step K m call a m' \<and> represents P M t'' m'"
proof -
  have t: "t'' = t'" using a by (cases r) simp_all
  from commit_outcomes [OF c] show ?thesis
  proof (elim disjE conjE exE)
    assume "r = Inr v" "t' = t1"
    then show ?thesis using a R(2) spec_done [OF e] by auto
  next
    fix x assume "r = Inl x" "t' = t"
    then show ?thesis using a R(1) spec_failed by auto
  next
    fix x assume "r = Inl x" "t' = t1"
    then show ?thesis using a R(2) spec_in_doubt [OF e] by auto
  qed
qed

lemma spec_refused: "represents P M t m \<Longrightarrow> \<exists>m'. spec_step K m call Failed m' \<and> represents P M t m'"
  using spec_failed by blast

lemma run_call_refines:
  assumes P: "postgres_ok P" and M: "msgpack_ok M" and R: "represents P M t m" and run: "run_call P M t call = (a, t')"
  shows "\<exists>m'. spec_step (pg_uuid P) m call a m' \<and> represents P M t' m'"
proof -
  have ok: "tables_ok P t" using R by (simp add: represents_def)
  note look = represents_lookup [OF R]
  show ?thesis
  proof (cases call)
    case (Call_Put md)
    show ?thesis
    proof (cases "put_transaction P M t md")
      case (Inl e)
      then show ?thesis using run spec_refused [OF R] by (auto simp: Call_Put MetadataStore_put_def)
    next
      case (Inr t1)
      then obtain u where u: "pg_uuid P (md_id md) = Some u" "t1 = replaced t u (row_of M md u (next_version t u)) (md_shard_locations md)"
        using put_transaction_spec [OF ok Inr] by blast
      have "tables_ok P t1" using put_transaction_ok [OF P ok Inr] .
      then have R1: "represents P M t1 (spec_store m u md (next_version t u))" using represents_replaced [OF R M] u(2) by simp
      obtain r t2 where c: "commit P t t1 () = (r, t2)" by fastforce
      have "next_version t u = (case spec_version m u of None \<Rightarrow> 1 | Some v \<Rightarrow> v + 1)"
        using look(2) [of u] by (auto simp: next_version_def version_at_def split: option.splits)
      then have e: "spec_effect (pg_uuid P) m call = Some (Stored, spec_store m u md (next_version t u))"
        by (simp add: spec_effect_def Call_Put u(1))
      show ?thesis using run by (intro spec_commit [where f = "\<lambda>_. Stored", OF c e R R1]) (simp add: Call_Put MetadataStore_put_def Inr c)
    qed
  next
    case (Call_Conditional md expected)
    show ?thesis
    proof (cases "conditional_put_transaction P M t md expected")
      case (Inl e)
      then show ?thesis using run spec_refused [OF R] by (auto simp: Call_Conditional conditional_put_def)
    next
      case (Inr x)
      obtain b t1 where x: "x = (b, t1)" by (cases x)
      obtain u where u: "pg_uuid P (md_id md) = Some u"
        "if b then version_at t u = Some expected \<and> t1 = replaced t u (row_of M md u (expected + 1)) (md_shard_locations md)
         else t1 = t \<and> version_at t u \<noteq> Some expected"
        using conditional_put_transaction_spec [OF ok Inr [unfolded x]] by (auto simp: version_at_def split: if_splits)
      have "tables_ok P t1" using conditional_put_transaction_ok [OF ok Inr [unfolded x]] .
      then have R1: "represents P M t1 (if b then spec_store m u md (expected + 1) else m)"
        using represents_replaced [OF R M] u(2) R by (cases b) simp_all
      obtain r t2 where c: "commit P t t1 b = (r, t2)" by fastforce
      have e: "spec_effect (pg_uuid P) m call = Some (Flag b, if b then spec_store m u md (expected + 1) else m)"
        using u look(2) [of u] by (cases b) (simp_all add: spec_effect_def Call_Conditional)
      show ?thesis using run by (intro spec_commit [where f = "Flag", OF c e R R1]) (simp add: Call_Conditional conditional_put_def Inr x c)
    qed
  next
    case (Call_Insert md)
    show ?thesis
    proof (cases "insert_if_absent_transaction P M t md")
      case (Inl e)
      then show ?thesis using run spec_refused [OF R] by (auto simp: Call_Insert insert_if_absent_def)
    next
      case (Inr x)
      obtain b t1 where x: "x = (b, t1)" by (cases x)
      obtain u where u: "pg_uuid P (md_id md) = Some u"
        "if b then object_at t u = None \<and> t1 = replaced t u (row_of M md u 1) (md_shard_locations md)
         else t1 = t \<and> object_at t u \<noteq> None"
        using insert_if_absent_transaction_spec [OF ok Inr [unfolded x]] by blast
      have "tables_ok P t1" using insert_if_absent_transaction_ok [OF P ok Inr [unfolded x]] .
      then have R1: "represents P M t1 (if b then spec_store m u md 1 else m)"
        using represents_replaced [OF R M] u(2) R by (cases b) simp_all
      obtain r t2 where c: "commit P t t1 b = (r, t2)" by fastforce
      have e: "spec_effect (pg_uuid P) m call = Some (Flag b, if b then spec_store m u md 1 else m)"
        using u look(1) [of u] by (cases b) (simp_all add: spec_effect_def Call_Insert)
      show ?thesis using run by (intro spec_commit [where f = "Flag", OF c e R R1]) (simp add: Call_Insert insert_if_absent_def Inr x c)
    qed
  next
    case (Call_Remove oid)
    show ?thesis
    proof (cases "sql_remove P t oid")
      case (Inl e)
      then show ?thesis using run spec_refused [OF R] by (auto simp: Call_Remove MetadataStore_remove_def)
    next
      case (Inr x)
      obtain n t1 where x: "x = (n, t1)" by (cases x)
      obtain u where u: "pg_uuid P oid = Some u" "0 < n \<longleftrightarrow> object_at t u \<noteq> None" "catalog t1 = (catalog t)(u := None)" "tables_ok P t1"
        using remove_transaction_spec [OF ok Inr [unfolded x]] by blast
      have "entry M t1 = m(u := None)" using R u(3) by (auto simp: represents_def entry_def fun_eq_iff)
      then have R1: "represents P M t1 (m(u := None))" using R u(3,4) by (simp add: represents_def)
      obtain r t2 where c: "commit P t t1 (0 < n) = (r, t2)" by fastforce
      have e: "spec_effect (pg_uuid P) m call = Some (Flag (0 < n), m(u := None))"
        using u(1,2) look(1) [of u] by (simp add: spec_effect_def Call_Remove)
      show ?thesis using run by (intro spec_commit [where f = "Flag", OF c e R R1]) (simp add: Call_Remove MetadataStore_remove_def Inr x c)
    qed
  next
    case (Call_Get oid)
    show ?thesis
    proof (cases "MetadataStore_get P M t oid")
      case (Inl e)
      then show ?thesis using run spec_refused [OF R] by (auto simp: Call_Get)
    next
      case (Inr x)
      have "\<exists>u. pg_uuid P oid = Some u \<and> x = m u"
      proof (cases x)
        case None
        then obtain u where u: "pg_uuid P oid = Some u" "filter (\<lambda>r. or_id r = u) (t_objects t) = []"
          using Inr by (auto simp: MetadataStore_get_def MetadataStore_get_between_def sql_get_object_metadata_def with_uuid_Inr
            split: list.splits) (metis neq_Nil_conv)
        then have "object_at t u = None" by (auto simp: object_at_def find_None_iff filter_empty_conv)
        then show ?thesis using None u(1) look(1) [of u] by auto
      next
        case (Some md)
        from get_entry [OF ok Inr [unfolded Some]] R show ?thesis by (auto simp: Some represents_def)
      qed
      then have "spec_effect (pg_uuid P) m call = Some (Found x, m)" by (auto simp: spec_effect_def Call_Get)
      then show ?thesis using run R spec_done by (fastforce simp: Call_Get Inr)
    qed
  qed
qed

text \<open>
  C9: The metadata store is a map. Whatever calls are made and however statements and commits fail,
  the answers are ones the abstract catalog gives: every call takes effect at once on the one object
  it names or not at all, a call that reports success has taken effect, and afterwards the tables
  still represent the map.
\<close>

theorem catalog_refines_map:
  assumes "postgres_ok P" and "msgpack_ok M" and "represents P M t m" and "run_calls P M t calls = (as, t')"
  shows "\<exists>m'. spec_run (pg_uuid P) m calls as m' \<and> represents P M t' m'"
  using assms(3,4)
proof (induction calls arbitrary: t m as)
  case Nil
  then show ?case using spec_run_Nil by auto
next
  case (Cons call calls)
  obtain a t1 as1 where c: "run_call P M t call = (a, t1)" "run_calls P M t1 calls = (as1, t')" "as = a # as1"
    using Cons.prems(2) by (auto split: prod.splits)
  obtain m1 where m1: "spec_step (pg_uuid P) m call a m1" "represents P M t1 m1"
    using run_call_refines [OF assms(1,2) Cons.prems(1) c(1)] by blast
  obtain m' where "spec_run (pg_uuid P) m1 calls as1 m'" "represents P M t' m'" using Cons.IH [OF m1(2) c(2)] by blast
  then show ?case using spec_run_Cons [OF m1(1)] c(3) by blast
qed

lemma represents_empty: "represents P M init_schema Map.empty"
  by (auto simp: represents_def tables_ok_def init_schema_def entry_def catalog_def object_at_def fun_eq_iff)

abbreviation calls1 :: "catalog_call list" where
  "calls1 \<equiv> [Call_Put md0, Call_Get oid0, Call_Conditional md0 7, Call_Remove oid0]"

theorem catalog_refines_map_witness:
  "\<exists>m'. spec_run (pg_uuid ref_pg) Map.empty calls1 [Stored, Found (Some (md0\<lparr>md_version := 1\<rparr>)), Flag False, Flag True] m' \<and>
     represents ref_pg ref_msgpack (snd (run_calls ref_pg ref_msgpack init_schema calls1)) m'"
proof -
  have "fst (run_calls ref_pg ref_msgpack init_schema calls1) = [Stored, Found (Some (md0\<lparr>md_version := 1\<rparr>)), Flag False, Flag True]"
    by code_simp
  then have "run_calls ref_pg ref_msgpack init_schema calls1 =
      ([Stored, Found (Some (md0\<lparr>md_version := 1\<rparr>)), Flag False, Flag True], snd (run_calls ref_pg ref_msgpack init_schema calls1))"
    by (metis prod.collapse)
  from catalog_refines_map [OF postgres_ok_ref msgpack_ok_ref represents_empty this] show ?thesis .
qed

end
