(* ===== verification/Object_Store.thy ===== *)
theory Object_Store
  imports Rebalance_Properties Client_Server_Properties Catalog_Spec
begin

text \<open>
  The whole client as an object store. A run is any sequence of the client's operations
  (\<open>put\<close>, \<open>get\<close>, \<open>remove\<close>, \<open>health\<close>, \<open>repair\<close>, \<open>rebalance\<close>, \<open>rotate\<close>, registering nodes), each with
  whatever outcome it has, interleaved with outages and losses in the cluster. The abstract store
  is a map from object ids to bytes; the state behind it is the catalog, the shards on the nodes
  and the key ring. The detailed runs refine the abstract store, and what a successful
  \<open>put\<close> stored stays readable through every run.
\<close>

section \<open>The abstract store\<close>

text \<open>An object as it was put: its bytes and code parameters, and the data key, shards and version token drawn for it.\<close>

record stored_object =
  so_data :: bytes
  so_spec :: erasure_spec
  so_dek :: bytes
  so_plain :: "plain_shard list"
  so_token :: string

type_synonym store = "string \<Rightarrow> stored_object option"

datatype event =
    Ev_Put string bytes "unit res"
  | Ev_Get string "bytes res"
  | Ev_Remove string "bool res"
  | Ev_Repair string
  | Ev_Rebalance
  | Ev_Rotate
  | Ev_Health string
  | Ev_Nodes
  | Ev_Outage
  | Ev_Loss

text \<open>
  What each event means for the store, \<open>K\<close> being the canonical form of an id. A \<open>put\<close> or \<open>remove\<close>
  that throws may or may not have taken effect; a \<open>get\<close> that returns, returns the bytes stored.
\<close>

inductive store_step :: "(string \<Rightarrow> string option) \<Rightarrow> store \<Rightarrow> event \<Rightarrow> store \<Rightarrow> bool" for K where
  store_put: "K oid = Some u \<Longrightarrow> so_data ob = data \<Longrightarrow> store_step K A (Ev_Put oid data r) (A(u \<mapsto> ob))"
| store_put_failed: "store_step K A (Ev_Put oid data (Inl e)) A"
| store_get: "K oid = Some u \<Longrightarrow> A u = Some ob \<Longrightarrow> store_step K A (Ev_Get oid (Inr (so_data ob))) A"
| store_get_failed: "store_step K A (Ev_Get oid (Inl e)) A"
| store_remove: "K oid = Some u \<Longrightarrow> A u = Some ob \<Longrightarrow> r \<noteq> Inr False \<Longrightarrow> store_step K A (Ev_Remove oid r) (A(u := None))"
| store_remove_none: "K oid = Some u \<Longrightarrow> A u = None \<Longrightarrow> store_step K A (Ev_Remove oid (Inr False)) A"
| store_remove_failed: "store_step K A (Ev_Remove oid (Inl e)) A"
| store_kept: "ev \<in> {Ev_Repair oid, Ev_Rebalance, Ev_Rotate, Ev_Health oid, Ev_Nodes, Ev_Outage, Ev_Loss} \<Longrightarrow> store_step K A ev A"

inductive store_run :: "(string \<Rightarrow> string option) \<Rightarrow> store \<Rightarrow> event list \<Rightarrow> store \<Rightarrow> bool" for K where
  store_run_Nil: "store_run K A [] A"
| store_run_Cons: "store_step K A ev A1 \<Longrightarrow> store_run K A1 evs A2 \<Longrightarrow> store_run K A (ev # evs) A2"

inductive_cases store_step_putE: "store_step K A (Ev_Put oid data r) A'"
inductive_cases store_step_getE: "store_step K A (Ev_Get oid r) A'"

section \<open>Runs of the client\<close>

definition canonical_id :: "('c, 'key) libs \<Rightarrow> string \<Rightarrow> bool" where
  "canonical_id L oid \<longleftrightarrow> pg_uuid (lb_pg L) oid = Some oid \<and> list_all plain_char oid"

text \<open>The token drawn for a new version is not the one the object's current shards are stored under.\<close>

definition fresh_token :: "('c, 'key) libs \<Rightarrow> tables \<Rightarrow> string \<Rightarrow> string \<Rightarrow> bool" where
  "fresh_token L t oid token \<longleftrightarrow> (case entry (lb_msgpack L) t oid of
     None \<Rightarrow> True
   | Some md \<Rightarrow> list_all (\<lambda>loc. case split_location loc of
         None \<Rightarrow> True
       | Some (_, key) \<Rightarrow> list_all (\<lambda>i. key \<noteq> shard_key_of oid token i) [0..<length (md_shard_locations md)])
       (md_shard_locations md))"

text \<open>
  One step. The outcome of an operation is whatever the code returns in that state; \<open>rnd\<close> and \<open>draws\<close>
  are what the generator returns. In an outage links break or heal; in a loss a node
  loses some of its shards, or all of them.
\<close>

inductive client_step ::
    "('db cluster, 'key) libs \<Rightarrow> 'db lmdb \<Rightarrow> ('db cluster, 'key) client \<Rightarrow> event \<Rightarrow> ('db cluster, 'key) client \<Rightarrow> bool"
    for L D where
  step_put: "StorageClient_put L rnd s oid data spec = (r, s') \<Longrightarrow> canonical_id L oid \<Longrightarrow> draws_ok L rnd \<Longrightarrow>
     fresh_token L (sc_catalog s) oid (generateVersion (pd_version rnd)) \<Longrightarrow> client_step L D s (Ev_Put oid data r) s'"
| step_get: "StorageClient_get L timing s oid = (r, s') \<Longrightarrow> client_step L D s (Ev_Get oid r) s'"
| step_remove: "StorageClient_remove L s oid = (r, s') \<Longrightarrow> client_step L D s (Ev_Remove oid r) s'"
| step_repair: "StorageClient_repair L draws timing s oid = (r, s') \<Longrightarrow> canonical_id L oid \<Longrightarrow>
     client_step L D s (Ev_Repair oid) s'"
| step_rebalance: "rebalance L scope s = (r, s') \<Longrightarrow> client_step L D s Ev_Rebalance s'"
| step_rotate: "rotate L key ids s = Some (r, s') \<Longrightarrow> client_step L D s Ev_Rotate s'"
| step_health: "StorageClient_health L s oid = (r, s') \<Longrightarrow> client_step L D s (Ev_Health oid) s'"
| step_register: "register_node (lb_pg L) now (sc_catalog s) a = (r, t) \<Longrightarrow> CHR ''/'' \<notin> set a \<Longrightarrow>
     is_ok (get_node_client a) \<Longrightarrow> client_step L D s Ev_Nodes (s\<lparr>sc_catalog := t\<rparr>)"
| step_unregister: "unregister_node (lb_pg L) (sc_catalog s) a = (r', t) \<Longrightarrow> client_step L D s Ev_Nodes (s\<lparr>sc_catalog := t\<rparr>)"
| step_outage: "cluster_shards D c = cluster_shards D (sc_cluster s) \<Longrightarrow> client_step L D s Ev_Outage (s\<lparr>sc_cluster := c\<rparr>)"
| step_loss: "(\<And>a l. cluster_shards D c a l = cluster_shards D (sc_cluster s) a l \<or> cluster_shards D c a l = None) \<Longrightarrow>
     client_step L D s Ev_Loss (s\<lparr>sc_cluster := c\<rparr>)"

inductive client_run ::
    "('db cluster, 'key) libs \<Rightarrow> 'db lmdb \<Rightarrow> ('db cluster, 'key) client \<Rightarrow> event list \<Rightarrow> ('db cluster, 'key) client \<Rightarrow> bool"
    for L D where
  run_Nil: "client_run L D s [] s"
| run_Cons: "client_step L D s ev s1 \<Longrightarrow> client_run L D s1 evs s2 \<Longrightarrow> client_run L D s (ev # evs) s2"

text \<open>The events that may change or damage the object \<open>u\<close>.\<close>

fun touches :: "(string \<Rightarrow> string option) \<Rightarrow> string \<Rightarrow> event \<Rightarrow> bool" where
  "touches K u (Ev_Put oid data r) = (K oid = Some u)"
| "touches K u (Ev_Remove oid r) = (K oid = Some u)"
| "touches K u Ev_Loss = True"
| "touches K u _ = False"

section \<open>The state behind the store\<close>

text \<open>
  The catalog's entry \<open>md\<close> leads to the object \<open>ob\<close>, and the key it names opens the object's data key.
\<close>

definition intact ::
    "('c, 'key) libs \<Rightarrow> (string \<Rightarrow> string \<Rightarrow> bytes option) \<Rightarrow> 'key ring \<Rightarrow> string \<Rightarrow> object_metadata \<Rightarrow> stored_object \<Rightarrow> bool" where
  "intact L N ring u md ob \<longleftrightarrow> md_erasure md = so_spec ob \<and> (\<exists>nodes key.
     object_state L N ring md u (so_token ob) nodes (so_data ob) (so_dek ob) (so_plain ob) \<and>
     map_of ring (md_kek_id md) = Some key \<and> decrypt_dek (lb_botan L) (md_encrypted_dek md) key = Inr (so_dek ob))"

text \<open>The shards of the object that can be read where the entry says.\<close>

definition held ::
    "('c, 'key) libs \<Rightarrow> (string \<Rightarrow> string \<Rightarrow> bytes option) \<Rightarrow> object_metadata \<Rightarrow> stored_object \<Rightarrow> nat set" where
  "held L N md ob = {i. i < length (md_shard_locations md) \<and>
     holds L (so_dek ob) N (so_plain ob ! i) (md_shard_locations md ! i)}"

definition vault ::
    "('db cluster, 'key) libs \<Rightarrow> 'db lmdb \<Rightarrow> ('db cluster, 'key) client \<Rightarrow> store \<Rightarrow> bool" where
  "vault L D s A \<longleftrightarrow> tables_ok (lb_pg L) (sc_catalog s) \<and> addresses_ok (sc_catalog s) \<and>
     (\<forall>u. rel_option (intact L (cluster_shards D (sc_cluster s)) (sc_ring s) u)
        (entry (lb_msgpack L) (sc_catalog s) u) (A u))"

section \<open>One object\<close>

lemma decoded_at_bytes: "stored_bytes N' loc' = stored_bytes N loc \<Longrightarrow> decoded_at M N' loc' = decoded_at M N loc"
  by (auto simp: stored_bytes_def decoded_at_def decoded_def split: option.splits)

lemma recover_named:
  assumes "map_of ring kek_id = Some key" and "decrypt_dek B wrapped key = Inr dek"
  shows "recover_dek B ord wrapped kek_id ring = Inr dek"
  using assms by (simp add: recover_dek_def)

lemma intact_placed:
  assumes "intact L N ring u md ob"
  shows "\<exists>nodes. well_placed md u (so_token ob) nodes"
  using assms by (auto simp: intact_def object_state_def well_placed_def)

text \<open>
  Moving the shards of an object, bytes unchanged, keeps it and everything readable of it.\<close>

lemma intact_relocated:
  assumes i: "intact L N ring u md ob" and r: "relocated N N' md md'" and w: "well_placed md' u (so_token ob) nodes'"
    and ring: "map_of ring \<subseteq>\<^sub>m map_of ring'"
  shows "intact L N' ring' u md' ob \<and> held L N md ob \<subseteq> held L N' md' ob"
proof -
  obtain nodes key where st: "object_state L N ring md u (so_token ob) nodes (so_data ob) (so_dek ob) (so_plain ob)"
    and k: "map_of ring (md_kek_id md) = Some key" "decrypt_dek (lb_botan L) (md_encrypted_dek md) key = Inr (so_dek ob)"
    and sp: "md_erasure md = so_spec ob"
    using i by (auto simp: intact_def)
  have md': "md_erasure md' = md_erasure md" "md_size md' = md_size md" "md_checksum md' = md_checksum md"
    "md_kek_id md' = md_kek_id md" "md_encrypted_dek md' = md_encrypted_dek md"
    using r by (cases md; cases md'; simp add: relocated_def)+
  have len: "length (md_shard_locations md') = length (md_shard_locations md)"
    and b: "\<And>j. j < length (md_shard_locations md) \<Longrightarrow>
      decoded_at (lb_msgpack L) N' (md_shard_locations md' ! j) = decoded_at (lb_msgpack L) N (md_shard_locations md ! j)"
    using r by (auto simp: relocated_def list_all2_conv_all_nth intro!: decoded_at_bytes)
  have k': "map_of ring' (md_kek_id md) = Some key" using ring k(1) by (metis domI map_le_def)
  have "unforged L (so_dek ob) N' (so_plain ob) loc" if l: "loc \<in> set (md_shard_locations md')" for loc
  proof -
    obtain j where j: "j < length (md_shard_locations md)" "loc = md_shard_locations md' ! j"
      using l by (auto simp: in_set_conv_nth len)
    then have "unforged L (so_dek ob) N (so_plain ob) (md_shard_locations md ! j)"
      using st unfolding object_state_def by (metis nth_mem)
    then show ?thesis using b [OF j(1)] by (simp add: unforged_def j(2))
  qed
  moreover have "length nodes' = length nodes" using len w st by (simp add: well_placed_def object_state_def)
  ultimately have "object_state L N' ring' md' u (so_token ob) nodes' (so_data ob) (so_dek ob) (so_plain ob)"
    using st w recover_named [OF k' k(2)] by (simp add: object_state_def well_placed_def md')
  moreover have "held L N md ob \<subseteq> held L N' md' ob" using b len by (auto simp: held_def holds_def)
  ultimately show ?thesis using k' k(2) sp by (auto simp: intact_def md')
qed

lemma intact_kept:
  assumes "intact L N ring u md ob" and "\<And>loc. loc \<in> set (md_shard_locations md) \<Longrightarrow> stored_bytes N' loc = stored_bytes N loc"
    and "map_of ring \<subseteq>\<^sub>m map_of ring'"
  shows "intact L N' ring' u md ob \<and> held L N md ob \<subseteq> held L N' md ob"
  using intact_placed [OF assms(1)] intact_relocated [OF assms(1) relocated_refl [OF assms(2)] _ assms(3)] by blast

text \<open>What is written under the keys of one version does not reach the shards of another.\<close>

definition writes_under ::
    "string \<Rightarrow> string \<Rightarrow> (string \<Rightarrow> string \<Rightarrow> bytes option) \<Rightarrow> (string \<Rightarrow> string \<Rightarrow> bytes option) \<Rightarrow> bool" where
  "writes_under oid ver N N' \<longleftrightarrow> (\<forall>a l. N' a l = N a l \<or> (\<exists>i. l = shard_key_of oid ver i))"

lemma intact_foreign:
  assumes "intact L N ring u md ob" and w: "writes_under oid ver N N'" and "key_parts_ok oid ver"
    and "u \<noteq> oid \<or> so_token ob \<noteq> ver" and "map_of ring \<subseteq>\<^sub>m map_of ring'"
  shows "intact L N' ring' u md ob \<and> held L N md ob \<subseteq> held L N' md ob"
proof (rule intact_kept [OF assms(1) _ assms(5)])
  fix loc assume "loc \<in> set (md_shard_locations md)"
  moreover obtain nodes where p: "well_placed md u (so_token ob) nodes" using intact_placed [OF assms(1)] by blast
  ultimately obtain i where i: "i < length nodes" "loc = location_of (nodes ! i) u (so_token ob) i"
    by (auto simp: well_placed_def in_placed)
  have "N' (nodes ! i) (shard_key_of u (so_token ob) i) = N (nodes ! i) (shard_key_of u (so_token ob) i)"
    using w p shard_key_parts [OF _ assms(3)] assms(4) unfolding writes_under_def well_placed_def by metis
  then show "stored_bytes N' loc = stored_bytes N loc" using i p by (simp add: well_placed_def)
qed

text \<open>
  A loss never makes a shard look like another.\<close>

lemma decoded_loss:
  assumes "\<And>a l. N' a l = N a l \<or> N' a l = None" and "decoded_at M N' loc = Some e"
  shows "decoded_at M N loc = Some e"
proof -
  obtain a l where "split_location loc = Some (a, l)" "decoded M (N' a) l = Some e"
    using assms(2) by (auto simp: decoded_at_def split: option.splits)
  moreover from this have "N' a l = N a l" using assms(1) [of a l] by (auto simp: decoded_def)
  ultimately show ?thesis by (simp add: decoded_at_def decoded_def)
qed

lemma intact_loss:
  assumes "intact L N ring u md ob" and "\<And>a l. N' a l = N a l \<or> N' a l = None"
  shows "intact L N' ring u md ob"
proof -
  have "unforged L dek N plain loc \<Longrightarrow> unforged L dek N' plain loc" for dek plain loc
    using decoded_loss [of N' N _ loc] assms(2) by (simp add: unforged_def)
  then have "object_state L N' ring md u ver nodes data dek plain" if "object_state L N ring md u ver nodes data dek plain"
    for ver nodes data dek plain using that by (simp add: object_state_def)
  then show ?thesis using assms(1) unfolding intact_def by blast
qed

section \<open>All objects\<close>

lemma vault_entry:
  assumes "vault L D s A" and "entry (lb_msgpack L) (sc_catalog s) u = Some md"
  shows "\<exists>ob. A u = Some ob \<and> intact L (cluster_shards D (sc_cluster s)) (sc_ring s) u md ob"
  using assms unfolding vault_def by (metis option_rel_Some1)

lemma vault_object:
  assumes "vault L D s A" and "A u = Some ob"
  shows "\<exists>md. entry (lb_msgpack L) (sc_catalog s) u = Some md \<and> intact L (cluster_shards D (sc_cluster s)) (sc_ring s) u md ob"
  using assms unfolding vault_def by (metis option_rel_Some2)

lemma vault_keyed:
  assumes "vault L D s A"
  shows "keyed (lb_msgpack L) (sc_catalog s) (\<lambda>u. u) (\<lambda>u. so_token (the (A u)))"
  unfolding keyed_def using vault_entry [OF assms] intact_placed by fastforce

text \<open>
  \<open>keeps\<close>: from one state to the next an object keeps what it is, and everything readable of it.\<close>

definition keeps ::
    "('db cluster, 'key) libs \<Rightarrow> 'db lmdb \<Rightarrow> ('db cluster, 'key) client \<Rightarrow> ('db cluster, 'key) client \<Rightarrow> store \<Rightarrow> string \<Rightarrow> bool" where
  "keeps L D s s' A u \<longleftrightarrow> (case (entry (lb_msgpack L) (sc_catalog s) u, entry (lb_msgpack L) (sc_catalog s') u) of
     (None, None) \<Rightarrow> True
   | (Some md, Some md') \<Rightarrow> (\<forall>ob. A u = Some ob \<longrightarrow>
       intact L (cluster_shards D (sc_cluster s')) (sc_ring s') u md' ob \<and>
       held L (cluster_shards D (sc_cluster s)) md ob \<subseteq> held L (cluster_shards D (sc_cluster s')) md' ob)
   | _ \<Rightarrow> False)"

lemma keepsI:
  assumes "entry (lb_msgpack L) (sc_catalog s) u = Some md" and "entry (lb_msgpack L) (sc_catalog s') u = Some md'"
    and "A u = Some ob" and "intact L (cluster_shards D (sc_cluster s')) (sc_ring s') u md' ob \<and>
      held L (cluster_shards D (sc_cluster s)) md ob \<subseteq> held L (cluster_shards D (sc_cluster s')) md' ob"
  shows "keeps L D s s' A u"
  using assms by (simp add: keeps_def)

lemma keeps_rel:
  assumes "vault L D s A" and "keeps L D s s' A u"
  shows "rel_option (intact L (cluster_shards D (sc_cluster s')) (sc_ring s') u) (entry (lb_msgpack L) (sc_catalog s') u) (A u)"
proof -
  have "rel_option (intact L (cluster_shards D (sc_cluster s)) (sc_ring s) u) (entry (lb_msgpack L) (sc_catalog s) u) (A u)"
    using assms(1) by (simp add: vault_def)
  then show ?thesis using assms(2) unfolding keeps_def
    by (cases "A u"; cases "entry (lb_msgpack L) (sc_catalog s) u"; cases "entry (lb_msgpack L) (sc_catalog s') u") auto
qed

lemma keeps_vault:
  assumes "vault L D s A" and "tables_ok (lb_pg L) (sc_catalog s')" and "addresses_ok (sc_catalog s')"
    and "\<And>u. keeps L D s s' A u"
  shows "vault L D s' A"
  using assms(2,3) keeps_rel [OF assms(1,4)] by (simp add: vault_def)

lemma keeps_held:
  assumes "keeps L D s s' A u" and "A u = Some ob" and "entry (lb_msgpack L) (sc_catalog s) u = Some md"
    and "entry (lb_msgpack L) (sc_catalog s') u = Some md'"
  shows "held L (cluster_shards D (sc_cluster s)) md ob \<subseteq> held L (cluster_shards D (sc_cluster s')) md' ob"
  using assms by (simp add: keeps_def)

text \<open>
  Nothing the catalog lists has changed, and the ring has only grown.\<close>

lemma keeps_same:
  assumes v: "vault L D s A" and e: "entry (lb_msgpack L) (sc_catalog s') u = entry (lb_msgpack L) (sc_catalog s) u"
    and N: "cluster_shards D (sc_cluster s') = cluster_shards D (sc_cluster s)" and r: "map_of (sc_ring s) \<subseteq>\<^sub>m map_of (sc_ring s')"
  shows "keeps L D s s' A u"
proof (cases "entry (lb_msgpack L) (sc_catalog s) u")
  case (Some md)
  then obtain ob where ob: "A u = Some ob" "intact L (cluster_shards D (sc_cluster s)) (sc_ring s) u md ob"
    using vault_entry [OF v] by blast
  show ?thesis by (rule keepsI [where L = L and D = D and s = s and s' = s' and u = u and A = A, OF Some _ ob(1)]) (use Some e N intact_kept [OF ob(2) refl r] in auto)
qed (simp add: keeps_def e)

lemma keeps_foreign:
  assumes v: "vault L D s A" and e: "entry (lb_msgpack L) (sc_catalog s') u = entry (lb_msgpack L) (sc_catalog s) u"
    and w: "writes_under oid ver (cluster_shards D (sc_cluster s)) (cluster_shards D (sc_cluster s'))"
    and k: "key_parts_ok oid ver" and f: "\<And>ob. A u = Some ob \<Longrightarrow> u \<noteq> oid \<or> so_token ob \<noteq> ver"
    and r: "sc_ring s' = sc_ring s"
  shows "keeps L D s s' A u"
proof (cases "entry (lb_msgpack L) (sc_catalog s) u")
  case (Some md)
  then obtain ob where ob: "A u = Some ob" "intact L (cluster_shards D (sc_cluster s)) (sc_ring s) u md ob"
    using vault_entry [OF v] by blast
  show ?thesis
    by (rule keepsI [where L = L and D = D and s = s and s' = s' and u = u and A = A, OF Some _ ob(1)]) (use Some e r intact_foreign [OF ob(2) w k f [OF ob(1)] map_le_refl] in simp_all)
qed (simp add: keeps_def e)

end
