(* ===== verification/Object_Store_Steps.thy ===== *)
theory Object_Store_Steps
  imports Object_Store
begin

text \<open>
  Each step of the client as a step of the store: what every operation does to the objects it is
  about, and that it keeps the others.
\<close>

section \<open>The steps, one by one\<close>

lemma rebalance_keeps_all:
  assumes lib: "libs_ok L D T" and v: "vault L D s A" and r: "rebalance L scope s = (r, s')"
  shows "keeps L D s s' A u \<and> tables_ok (lb_pg L) (sc_catalog s') \<and> addresses_ok (sc_catalog s')"
proof -
  have t: "tables_ok (lb_pg L) (sc_catalog s)" "addresses_ok (sc_catalog s)" using v by (simp_all add: vault_def)
  note R = rebalance_state [OF lib t vault_keyed [OF v] r]
  have "rel_option (relocated (cluster_shards D (sc_cluster s)) (cluster_shards D (sc_cluster s')))
      (entry (lb_msgpack L) (sc_catalog s) u) (entry (lb_msgpack L) (sc_catalog s') u)"
    using R by (simp add: same_content_def)
  then have "keeps L D s s' A u"
  proof (cases rule: option.rel_cases)
    case None
    then show ?thesis by (simp add: keeps_def)
  next
    case (Some md md')
    obtain ob where ob: "A u = Some ob" "intact L (cluster_shards D (sc_cluster s)) (sc_ring s) u md ob"
      using vault_entry [OF v Some(1)] by blast
    obtain nodes' where "well_placed md' u (so_token ob) nodes'"
      using R Some(2) ob(1) unfolding keyed_def by fastforce
    from intact_relocated [OF ob(2) Some(3) this map_le_refl] show ?thesis using R by (intro keepsI [where L = L and D = D and s = s and s' = s' and u = u and A = A, OF Some(1,2) ob(1)]) simp
  qed
  then show ?thesis using R t(2) addresses_nodes by blast
qed

text \<open>
  Repair writes under the object's own keys; its entry moves along, or nothing is committed.\<close>

lemma intact_repaired:
  assumes st: "object_state L N ring md u (so_token ob) nodes (so_data ob) (so_dek ob) (so_plain ob)"
    and k: "map_of ring (md_kek_id md) = Some key" "decrypt_dek (lb_botan L) (md_encrypted_dek md) key = Inr (so_dek ob)"
    and w: "writes_genuine L (so_dek ob) N N' (so_plain ob) u (so_token ob)" and I: "isal_ok (lb_isal L)"
    and md: "md_id md = u" "md_erasure md = so_spec ob"
  shows "intact L N' ring u md ob \<and> held L N md ob \<subseteq> held L N' md ob"
    and "healed L (so_dek ob) N N' (so_plain ob) u (so_token ob) nodes nodes' \<Longrightarrow>
      intact L N' ring u (md\<lparr>md_shard_locations := placed u (so_token ob) nodes', md_version := v\<rparr>) ob \<and>
      held L N md ob \<subseteq> held L N' (md\<lparr>md_shard_locations := placed u (so_token ob) nodes', md_version := v\<rparr>) ob"
proof -
  note o = st [unfolded object_state_def]
  have keep: "holds L (so_dek ob) N' (so_plain ob ! j) (location_of (nodes ! j) u (so_token ob) j)"
    if "j < length nodes" "holds L (so_dek ob) N (so_plain ob ! j) (location_of (nodes ! j) u (so_token ob) j)" for j
    using holds_kept [OF w _ that] o by blast
  have "object_state L N' ring md u (so_token ob) nodes (so_data ob) (so_dek ob) (so_plain ob)"
    using o unforged_kept [OF w] by (simp add: object_state_def)
  moreover have "held L N md ob \<subseteq> held L N' md ob" using keep o by (auto simp: held_def)
  ultimately show "intact L N' ring u md ob \<and> held L N md ob \<subseteq> held L N' md ob" using k md(2) by (auto simp: intact_def)
  let ?md = "md\<lparr>md_shard_locations := placed u (so_token ob) nodes', md_version := v\<rparr>"
  assume h: "healed L (so_dek ob) N N' (so_plain ob) u (so_token ob) nodes nodes'"
  have "md\<lparr>md_shard_locations := placed u (so_token ob) nodes', md_id := u, md_version := v\<rparr> = ?md"
    using md(1) by (cases md) simp
  then have "object_state L N' ring ?md u (so_token ob) nodes' (so_data ob) (so_dek ob) (so_plain ob)"
    using healed_state [OF st w h I, of v u] by simp
  moreover have "held L N md ob \<subseteq> held L N' ?md ob" using keep o h by (auto simp: held_def healed_def)
  ultimately show "intact L N' ring u ?md ob \<and> held L N md ob \<subseteq> held L N' ?md ob" using k md(2) by (auto simp: intact_def)
qed

lemma writes_genuine_under: "writes_genuine L dek N N' plain oid ver \<Longrightarrow> writes_under oid ver N N'"
  unfolding writes_genuine_def writes_under_def by blast

lemma repair_not_found:
  assumes "\<And>md. MetadataStore_get (lb_pg L) (lb_msgpack L) (sc_catalog s) oid \<noteq> Inr (Some md)"
    and "StorageClient_repair L rnd timing s oid = (r, s')"
  shows "s' = s"
  using assms by (auto simp: StorageClient_repair_def repair_between_def split: if_splits sum.splits option.splits)

lemma repair_keeps_all:
  assumes lib: "libs_ok L D T" and v: "vault L D s A" and c: "canonical_id L oid"
    and r: "StorageClient_repair L rnd timing s oid = (r, s')"
  shows "keeps L D s s' A u \<and> tables_ok (lb_pg L) (sc_catalog s') \<and> addresses_ok (sc_catalog s')"
proof (cases "\<exists>md. MetadataStore_get (lb_pg L) (lb_msgpack L) (sc_catalog s) oid = Inr (Some md)")
  case False
  then have "s' = s" using repair_not_found [OF _ r] by blast
  then show ?thesis using v keeps_same [OF v] by (simp add: vault_def)
next
  case True
  then obtain md where md: "MetadataStore_get (lb_pg L) (lb_msgpack L) (sc_catalog s) oid = Inr (Some md)" by blast
  have t: "tables_ok (lb_pg L) (sc_catalog s)" "addresses_ok (sc_catalog s)" using v by (simp_all add: vault_def)
  have id: "md_id md = oid" "entry (lb_msgpack L) (sc_catalog s) oid = Some md"
    using get_entry [OF t(1) md] c by (auto simp: canonical_id_def)
  obtain ob where ob: "A oid = Some ob" "intact L (cluster_shards D (sc_cluster s)) (sc_ring s) oid md ob"
    using vault_entry [OF v id(2)] by blast
  obtain nodes key where st: "object_state L (cluster_shards D (sc_cluster s)) (sc_ring s) md oid (so_token ob) nodes
      (so_data ob) (so_dek ob) (so_plain ob)"
    and k: "map_of (sc_ring s) (md_kek_id md) = Some key" "decrypt_dek (lb_botan L) (md_encrypted_dek md) key = Inr (so_dek ob)"
    and sp: "md_erasure md = so_spec ob"
    using ob(2) by (auto simp: intact_def)
  let ?N = "cluster_shards D (sc_cluster s)" and ?N' = "cluster_shards D (sc_cluster s')"
  note O = repair_outcome [OF lib t(2) md st r]
  then have w: "writes_genuine L (so_dek ob) ?N ?N' (so_plain ob) oid (so_token ob)" and ring: "sc_ring s' = sc_ring s" by blast+
  have l: "isal_ok (lb_isal L)" "msgpack_ok (lb_msgpack L)" "postgres_ok (lb_pg L)" using lib by (simp_all add: libs_ok_def)
  note R = intact_repaired [OF st k w l(1) id(1) sp]
  have kp: "key_parts_ok oid (so_token ob)" using st by (simp add: object_state_def)
  have rest: "keeps L D s s' A u"
    if "u \<noteq> oid" "entry (lb_msgpack L) (sc_catalog s') u = entry (lb_msgpack L) (sc_catalog s) u"
    by (rule keeps_foreign [OF v that(2) writes_genuine_under [OF w] kp _ ring]) (use that in simp)
  consider "sc_catalog s' = sc_catalog s" | nodes' rr where
    "healed L (so_dek ob) ?N ?N' (so_plain ob) oid (so_token ob) nodes nodes'"
    "conditional_put (lb_pg L) (lb_msgpack L) (sc_catalog s) (md\<lparr>md_shard_locations := placed oid (so_token ob) nodes'\<rparr>)
      (md_version md) = (rr, sc_catalog s')" using O by blast
  then show ?thesis
  proof cases
    case 1
    have "keeps L D s s' A oid"
      by (rule keepsI [where L = L and D = D and s = s and s' = s' and u = oid and A = A, OF id(2) _ ob(1)]) (use 1 id R(1) ring in simp_all)
    then show ?thesis using rest t 1 by (cases "u = oid") simp_all
  next
    case 2
    have "pg_uuid (lb_pg L) (md_id (md\<lparr>md_shard_locations := placed oid (so_token ob) nodes'\<rparr>)) =
        Some (md_id (md\<lparr>md_shard_locations := placed oid (so_token ob) nodes'\<rparr>))" using get_entry [OF t(1) md] by simp
    note E = entry_conditional_put [OF t(1) l(2,3) 2(2) this]
    then have ok: "tables_ok (lb_pg L) (sc_catalog s') \<and> addresses_ok (sc_catalog s')" using t(2) addresses_nodes by blast
    have E': "sc_catalog s' = sc_catalog s \<or> entry (lb_msgpack L) (sc_catalog s') = (entry (lb_msgpack L) (sc_catalog s))
        (oid \<mapsto> md\<lparr>md_shard_locations := placed oid (so_token ob) nodes', md_version := md_version md + 1\<rparr>)"
      using conjunct2 [OF conjunct2 [OF E]] by (auto simp: id(1))
    then have e: "entry (lb_msgpack L) (sc_catalog s') u = entry (lb_msgpack L) (sc_catalog s) u" if "u \<noteq> oid" for u
      using that by auto
    have "keeps L D s s' A oid"
    proof (cases "sc_catalog s' = sc_catalog s")
      case True
      show ?thesis by (rule keepsI [where L = L and D = D and s = s and s' = s' and u = oid and A = A, OF id(2) _ ob(1)]) (use True id R(1) ring in simp_all)
    next
      case False
      then have "entry (lb_msgpack L) (sc_catalog s') oid =
          Some (md\<lparr>md_shard_locations := placed oid (so_token ob) nodes', md_version := md_version md + 1\<rparr>)"
        using E' by auto
      then show ?thesis by (rule keepsI [where L = L and D = D and s = s and s' = s' and u = oid and A = A, OF id(2) _ ob(1)]) (use R(2) [OF 2(1)] ring in simp)
    qed
    then show ?thesis using rest e ok by (cases "u = oid") auto
  qed
qed

text \<open>
  A state that differs from a vault in one object.\<close>

lemma vault_changed:
  assumes "vault L D s A" and "tables_ok (lb_pg L) (sc_catalog s')" and "addresses_ok (sc_catalog s')"
    and "\<And>w. w \<noteq> u \<Longrightarrow> keeps L D s s' A w"
    and "rel_option (intact L (cluster_shards D (sc_cluster s')) (sc_ring s') u) (entry (lb_msgpack L) (sc_catalog s') u) x"
  shows "vault L D s' (A(u := x))"
  using assms(2,3,5) keeps_rel [OF assms(1)] assms(4) by (simp add: vault_def)

section \<open>What put and remove do to the catalog\<close>

lemma put_entry:
  assumes "tables_ok P t" and "msgpack_ok M" and "postgres_ok P" and "MetadataStore_put P M t md = (r, t')"
    and "pg_uuid P (md_id md) = Some u"
  shows "tables_ok P t' \<and> t_nodes t' = t_nodes t \<and> (t' = t \<and> \<not> is_ok r \<or>
    (\<exists>v. entry M t' = (entry M t)(u \<mapsto> md\<lparr>md_id := u, md_version := v\<rparr>)))"
proof (cases "put_transaction P M t md")
  case (Inl e)
  then show ?thesis using assms by (auto simp: MetadataStore_put_def)
next
  case (Inr t1)
  have t1: "t1 = replaced t u (row_of M md u (next_version t u)) (md_shard_locations md)"
    using put_transaction_spec [OF assms(1) Inr] assms(5) by auto
  have "entry M t1 = (entry M t)(u \<mapsto> md\<lparr>md_id := u, md_version := next_version t u\<rparr>)"
    by (simp add: t1 entry_def catalog_replaced fun_eq_iff row_to_metadata_of [OF assms(2)])
  moreover have "t_nodes t1 = t_nodes t" by (simp add: t1 replaced_def)
  moreover have "tables_ok P t1" by (rule put_transaction_ok [OF assms(3,1) Inr])
  moreover have "t' = t1 \<or> t' = t \<and> \<not> is_ok r"
    using assms(4) Inr commit_outcomes by (fastforce simp: MetadataStore_put_def)
  ultimately show ?thesis using assms(1) by blast
qed

lemma remove_entry:
  assumes "tables_ok P t" and "MetadataStore_remove P t oid = (r, t')" and "pg_uuid P oid = Some u"
    and "entry M t u \<noteq> None"
  shows "tables_ok P t' \<and> t_nodes t' = t_nodes t \<and> (t' = t \<and> \<not> is_ok r \<or> entry M t' = (entry M t)(u := None) \<and> r \<noteq> Inr False)"
proof (cases "sql_remove P t oid")
  case (Inl e)
  then show ?thesis using assms by (auto simp: MetadataStore_remove_def)
next
  case (Inr x)
  obtain n t1 where x: "sql_remove P t oid = Inr (n, t1)" using Inr by (cases x) simp
  note R = remove_transaction_spec [OF assms(1) x]
  have "object_at t u \<noteq> None" using assms(4) by (auto simp: entry_def catalog_def split: option.splits)
  then have n: "0 < n" "catalog t1 = (catalog t)(u := None)" "tables_ok P t1" "t_nodes t1 = t_nodes t" using R assms(3) by auto
  then have "entry M t1 = (entry M t)(u := None)" by (simp add: entry_def fun_eq_iff)
  moreover have "r = Inr True \<and> t' = t1 \<or> \<not> is_ok r \<and> (t' = t \<or> t' = t1)"
    using assms(2) x n(1) commit_outcomes by (fastforce simp: MetadataStore_remove_def)
  ultimately show ?thesis using assms(1) n by auto
qed

lemma get_none:
  assumes "tables_ok P t" and "MetadataStore_get P M t oid = Inr None"
  shows "\<exists>u. pg_uuid P oid = Some u \<and> entry M t u = None"
proof -
  obtain u where u: "pg_uuid P oid = Some u"
    using assms(2) by (auto simp: MetadataStore_get_def MetadataStore_get_between_def sql_get_object_metadata_def with_uuid_Inr)
  have f: "filter (\<lambda>r. or_id r = u) (t_objects t) = (case object_at t u of None \<Rightarrow> [] | Some r \<Rightarrow> [r])"
    using filter_object_at assms(1) by (simp add: tables_ok_def)
  have "catalog t u = None"
    using assms(2) u by (auto simp: MetadataStore_get_def MetadataStore_get_between_def sql_get_object_metadata_def
        sql_get_locations_def with_uuid_Inr f catalog_def split: list.splits if_splits option.splits sum.splits)
  then show ?thesis using u by (simp add: entry_def)
qed

section \<open>get\<close>

lemma get_decode_sound:
  assumes I: "isal_ok (lb_isal L)" and st: "object_state L N ring md oid ver nodes data dek plain"
    and sound: "\<And>e. e \<in> set ss \<Longrightarrow> opened (lb_botan L) dek e = None \<or> opened (lb_botan L) dek e \<in> Some ` set plain"
    and g: "get_decode L ring md ss = Inr d"
  shows "d = data"
proof -
  note o = st [unfolded object_state_def]
  let ?surv = "List.map_filter (opened (lb_botan L) dek) ss"
  have enc: "encode (lb_isal L) data (md_erasure md) = Inr plain" using o by blast
  have "unat (md_size md) = length data" using encoded_size [OF enc I] o by simp
  then have "decode (lb_isal L) ?surv (md_erasure md) (length data) = Inr d"
    using g o by (auto simp: get_decode_def decrypt_best_effort split: if_splits)
  moreover have "set ?surv \<subseteq> set plain" using sound by (force simp: set_map_filter)
  ultimately show ?thesis using decode_sound [OF I enc] by blast
qed

lemma get_returns:
  assumes lib: "libs_ok L D T" and v: "vault L D s A" and g: "StorageClient_get L timing s oid = (Inr d, s')"
  shows "\<exists>u ob. pg_uuid (lb_pg L) oid = Some u \<and> A u = Some ob \<and> d = so_data ob"
proof -
  obtain md m ss c where md: "MetadataStore_get (lb_pg L) (lb_msgpack L) (sc_catalog s) oid = Inr (Some md)"
    and m: "parse_shard_locations (md_shard_locations md) = Inr m"
    and f: "fetch_encrypted_shards (lb_send L) (lb_msgpack L) (lb_ord L) (sc_cluster s) m = (ss, c)"
    and d: "get_decode L (sc_ring s) md ss = Inr d"
    using g by (auto simp: StorageClient_get_def split: if_splits sum.splits option.splits prod.splits)
  have t: "tables_ok (lb_pg L) (sc_catalog s)" using v by (simp add: vault_def)
  have l: "lb_send L = cluster_send D (lb_json L) T" "isal_ok (lb_isal L)" "order_ok (lb_ord L)"
    using lib by (simp_all add: libs_ok_def)
  note e = get_entry [OF t md]
  obtain ob nodes where ob: "A (md_id md) = Some ob" and st: "object_state L (cluster_shards D (sc_cluster s)) (sc_ring s) md
      (md_id md) (so_token ob) nodes (so_data ob) (so_dek ob) (so_plain ob)"
    using vault_entry [OF v] e unfolding intact_def by blast
  note o = st [unfolded object_state_def]
  have "\<forall>loc\<in>set (md_shard_locations md). location_plain loc" using o placed_plain by metis
  note F = cluster.fetch_listed [OF l(3) libs_ok_cluster [OF lib] this m f [unfolded l(1)]]
  have "d = so_data ob"
  proof (rule get_decode_sound [OF l(2) st _ d])
    show "opened (lb_botan L) (so_dek ob) e = None \<or> opened (lb_botan L) (so_dek ob) e \<in> Some ` set (so_plain ob)"
      if "e \<in> set ss" for e using F that o unfolding unforged_def by blast
  qed
  then show ?thesis using e ob by blast
qed

text \<open>
  And it does return, as long as enough of the shards that are held can be reached.\<close>

lemma get_returns_held:
  assumes lib: "libs_ok L D T" and v: "vault L D s A" and rd: "reads_ok (lb_pg L) (sc_catalog s)"
    and u: "pg_uuid (lb_pg L) oid = Some u" "oid \<noteq> []" "A u = Some ob" "entry (lb_msgpack L) (sc_catalog s) u = Some md"
    and up: "Up \<subseteq> held L (cluster_shards D (sc_cluster s)) md ob"
      "\<And>i. i \<in> Up \<Longrightarrow> askable (cluster_up D (sc_cluster s)) (md_shard_locations md ! i)"
    and enough: "unat (data_shards (md_erasure md)) \<le> card Up"
    and inv: "isal_invertible (lb_isal L) (length (md_shard_locations md)) (unat (data_shards (md_erasure md))) \<or>
      {..<unat (data_shards (md_erasure md))} \<subseteq> Up"
  shows "fst (StorageClient_get L timing s oid) = Inr (so_data ob)"
proof -
  have t: "tables_ok (lb_pg L) (sc_catalog s)" using v by (simp add: vault_def)
  have l: "lb_send L = cluster_send D (lb_json L) T" "isal_ok (lb_isal L)" "order_ok (lb_ord L)"
    using lib by (simp_all add: libs_ok_def)
  have md: "MetadataStore_get (lb_pg L) (lb_msgpack L) (sc_catalog s) oid = Inr (Some md)"
    using get_catalog [OF t u(1) rd] u(4) by (auto simp: entry_def split: option.splits prod.splits sum.splits)
  have "intact L (cluster_shards D (sc_cluster s)) (sc_ring s) u md ob"
    using vault_entry [OF v u(4)] u(3) by simp
  then obtain nodes where st: "object_state L (cluster_shards D (sc_cluster s)) (sc_ring s) md
      u (so_token ob) nodes (so_data ob) (so_dek ob) (so_plain ob)" by (auto simp: intact_def)
  note o = st [unfolded object_state_def]
  have "\<exists>s'. StorageClient_get L timing s oid = (Inr (so_data ob), s') \<and> sc_catalog s' = sc_catalog s \<and>
      cluster_shards D (sc_cluster s') = cluster_shards D (sc_cluster s)"
  proof (rule cluster.get_of_state [OF l libs_ok_cluster [OF lib] md u(2) st _ enough])
    fix i assume i: "i \<in> Up"
    then have h: "i < length nodes" "holds L (so_dek ob) (cluster_shards D (sc_cluster s)) (so_plain ob ! i) (md_shard_locations md ! i)"
      using up(1) o by (auto simp: held_def)
    then show "i < length nodes \<and> cluster_up D (sc_cluster s) (nodes ! i) \<and> is_ok (get_node_client (nodes ! i)) \<and>
        holds L (so_dek ob) (cluster_shards D (sc_cluster s)) (so_plain ob ! i) (md_shard_locations md ! i)"
      using up(2) [OF i] o by (simp add: askable_def)
  qed (use inv o in simp)
  then show ?thesis by auto
qed

section \<open>remove\<close>

lemma remove_effect:
  assumes lib: "libs_ok L D T" and v: "vault L D s A" and r: "StorageClient_remove L s oid = (r, s')"
  shows "\<exists>A'. store_step (pg_uuid (lb_pg L)) A (Ev_Remove oid r) A' \<and> vault L D s' A' \<and>
    (\<forall>u. pg_uuid (lb_pg L) oid \<noteq> Some u \<longrightarrow> keeps L D s s' A u \<and> A' u = A u)"
proof -
  have t: "tables_ok (lb_pg L) (sc_catalog s)" "addresses_ok (sc_catalog s)" using v by (simp_all add: vault_def)
  have same: ?thesis if "s' = s" "store_step (pg_uuid (lb_pg L)) A (Ev_Remove oid r) A"
    using that v keeps_same [OF v] by (intro exI [of _ A]) simp
  show ?thesis
  proof (cases "\<exists>md m. oid \<noteq> [] \<and> MetadataStore_get (lb_pg L) (lb_msgpack L) (sc_catalog s) oid = Inr (Some md) \<and>
      parse_shard_locations (md_shard_locations md) = Inr m")
    case False
    show ?thesis
    proof (cases "r = Inr False")
      case True
      then have n: "MetadataStore_get (lb_pg L) (lb_msgpack L) (sc_catalog s) oid = Inr None" "s' = s"
        using r False by (auto simp: StorageClient_remove_def split: if_splits sum.splits option.splits)
      obtain u where u: "pg_uuid (lb_pg L) oid = Some u" "entry (lb_msgpack L) (sc_catalog s) u = None"
        using get_none [OF t(1) n(1)] by blast
      then have "A u = None" using vault_object [OF v, of u] by (cases "A u") auto
      then show ?thesis using same n(2) store_remove_none [of "pg_uuid (lb_pg L)" oid u A] u(1) True by simp
    next
      case no: False
      then have "s' = s" "\<exists>e. r = Inl e"
        using r False by (auto simp: StorageClient_remove_def split: if_splits sum.splits option.splits)
      then show ?thesis using same store_remove_failed by auto
    qed
  next
    case True
    then obtain md m where md: "oid \<noteq> []" "MetadataStore_get (lb_pg L) (lb_msgpack L) (sc_catalog s) oid = Inr (Some md)"
      and m: "parse_shard_locations (md_shard_locations md) = Inr m" by blast
    define u where "u = md_id md"
    let ?N = "cluster_shards D (sc_cluster s)" and ?N' = "cluster_shards D (sc_cluster s')"
    have c: "sc_cluster s' = remove_from_nodes (lb_send L) (lb_ord L) (sc_cluster s) m" and ring: "sc_ring s' = sc_ring s"
      and mr: "MetadataStore_remove (lb_pg L) (sc_catalog s) oid = (r, sc_catalog s')"
      using r md m by (auto simp: StorageClient_remove_def Let_def split: prod.splits)
    note e = get_entry [OF t(1) md(2), folded u_def]
    obtain ob where ob: "A u = Some ob" "intact L ?N (sc_ring s) u md ob" using vault_entry [OF v] e by blast
    obtain nodes where w: "well_placed md u (so_token ob) nodes" using intact_placed [OF ob(2)] by blast
    note w' = w [unfolded well_placed_def]
    have "\<forall>loc\<in>set (md_shard_locations md). location_plain loc" using w' placed_plain by metis
    from remove_shards [OF lib m this, of "sc_cluster s", folded c]
    have N: "?N' a l = ?N a l \<or> ?N' a l = None \<and> (\<exists>loc\<in>set (md_shard_locations md). split_location loc = Some (a, l))" for a l .
    have under: "writes_under u (so_token ob) ?N ?N'"
      unfolding writes_under_def
    proof (intro allI)
      fix a l
      have "\<exists>i. l = shard_key_of u (so_token ob) i" if "loc \<in> set (md_shard_locations md)" "split_location loc = Some (a, l)" for loc
        using that w' by (auto simp: in_placed)
      then show "?N' a l = ?N a l \<or> (\<exists>i. l = shard_key_of u (so_token ob) i)" using N [of a l] by blast
    qed
    have "entry (lb_msgpack L) (sc_catalog s) u \<noteq> None" using e by simp
    note E = remove_entry [OF t(1) mr conjunct1 [OF e] this]
    then have ok: "tables_ok (lb_pg L) (sc_catalog s')" "addresses_ok (sc_catalog s')" using t(2) addresses_nodes by blast+
    have dich: "sc_catalog s' = sc_catalog s \<and> \<not> is_ok r \<or>
        entry (lb_msgpack L) (sc_catalog s') = (entry (lb_msgpack L) (sc_catalog s))(u := None) \<and> r \<noteq> Inr False"
      using E by blast
    have kp: "key_parts_ok u (so_token ob)" using w' by blast
    have others: "keeps L D s s' A w" if "w \<noteq> u" for w
      by (rule keeps_foreign [OF v _ under kp _ ring]) (use that dich in auto)
    from dich show ?thesis
    proof (elim disjE conjE)
      assume same: "sc_catalog s' = sc_catalog s" "\<not> is_ok r"
      obtain ex where ex: "r = Inl ex" using same(2) by (cases r) auto
      have "intact L ?N' (sc_ring s') u md ob" unfolding ring
      proof (rule intact_loss [OF ob(2)])
        show "?N' a l = ?N a l \<or> ?N' a l = None" for a l using N [of a l] by (elim disjE) simp_all
      qed
      then have "rel_option (intact L ?N' (sc_ring s') u) (entry (lb_msgpack L) (sc_catalog s') u) (Some ob)"
        using e by (simp add: same(1))
      from vault_changed [OF v ok others this] have "vault L D s' A" using ob(1) by (simp add: fun_upd_idem)
      moreover have "store_step (pg_uuid (lb_pg L)) A (Ev_Remove oid r) A" unfolding ex by (rule store_remove_failed)
      ultimately show ?thesis using others e by (intro exI [of _ A]) auto
    next
      assume gone: "entry (lb_msgpack L) (sc_catalog s') = (entry (lb_msgpack L) (sc_catalog s))(u := None)" "r \<noteq> Inr False"
      have "vault L D s' (A(u := None))" by (rule vault_changed [OF v ok others]) (simp_all add: gone(1))
      moreover have "store_step (pg_uuid (lb_pg L)) A (Ev_Remove oid r) (A(u := None))"
        using e ob(1) gone(2) by (intro store_remove) blast+
      ultimately show ?thesis using others e by (intro exI [of _ "A(u := None)"]) auto
    qed
  qed
qed

section \<open>put\<close>

lemma fresh_tokenD:
  assumes "isal_ok (lb_isal L)" and "intact L N ring u md ob" and "entry (lb_msgpack L) t u = Some md" and "fresh_token L t u token"
  shows "so_token ob \<noteq> token"
proof
  assume eq: "so_token ob = token"
  obtain nodes where st: "object_state L N ring md u token nodes (so_data ob) (so_dek ob) (so_plain ob)"
    using assms(2) eq by (auto simp: intact_def)
  note o = st [unfolded object_state_def]
  have "spec_ok (md_erasure md)" using encode_total [OF _ assms(1)] o by blast
  then have n: "0 < length nodes" using o by (simp add: spec_ok_def total_shards_def)
  then have "location_of (nodes ! 0) u token 0 \<in> set (md_shard_locations md)" using o by (auto simp: in_placed)
  then have "list_all (\<lambda>i. shard_key_of u token 0 \<noteq> shard_key_of u token i) [0..<length (md_shard_locations md)]"
    using assms(3,4) o n unfolding fresh_token_def by (fastforce simp: list_all_iff)
  then show False using n o by (auto simp: list_all_iff dest!: bspec [of _ _ 0])
qed

text \<open>
  What a \<open>put\<close> has written once its entry is in the catalog: the object, every shard of it readable.\<close>

lemma new_intact:
  assumes lib: "libs_ok L D T" and d: "draws_ok L rnd" and p: "put_prepare L rnd ring active oid data spec = Inr p"
    and plain: "list_all plain_char oid" "key_parts_ok oid (pr_version p)" "nodes_plain nodes"
    and len: "length nodes = total_shards spec"
    and N: "\<forall>i<total_shards spec. N (nodes ! i) (shard_key_of oid (pr_version p) i) = Some (pr_serialized p ! i)"
    and md: "md = (put_metadata oid data spec p (placed oid (pr_version p) nodes))\<lparr>md_id := u, md_version := v\<rparr>"
  shows "\<exists>ob. so_data ob = data \<and> so_spec ob = spec \<and> intact L N ring oid md ob \<and> held L N md ob = {..<total_shards spec}"
proof -
  have l: "isal_ok (lb_isal L)" "gcm_ok (lb_botan L)" "kem_ok (lb_botan L)" "msgpack_ok (lb_msgpack L)"
    using lib by (simp_all add: libs_ok_def)
  obtain pls es kek where e: "encode (lb_isal L) data spec = Inr pls"
    "encrypt_shards (lb_botan L) (pd_nonces rnd) 0 pls (pd_dek rnd) = Inr es" "map_of ring active = Some kek"
    "encrypt_dek (lb_botan L) (pd_seed rnd) (pd_wrap_nonce rnd) (pd_dek rnd) kek = Inr (pr_wrapped_dek p)"
    "pr_kek_id p = active" "pr_version p = generateVersion (pd_version rnd)"
    "pr_checksum p = bytes_to_hex (checksum_sha256 (lb_botan L) data)"
    "pr_serialized p = map (\<lambda>e. StoredShard_serialize (lb_msgpack L)
      \<lparr>ss_manifest = put_manifest rnd oid data spec p, ss_shard = e\<rparr>) es"
    using put_prepare_spec [OF p] by blast
  have les: "length es = total_shards spec" "length pls = total_shards spec"
    using encode_total [OF e(1) l(1)] arg_cong [OF encrypt_shards_index [OF e(2)], of length] by simp_all
  have opi: "opened (lb_botan L) (pd_dek rnd) (es ! i) = Some (pls ! i)" if "i < total_shards spec" for i
    using that les arg_cong [OF opened_encrypted [OF l(2) e(2)], of "\<lambda>xs. xs ! i"] by simp
  have dec: "decoded_at (lb_msgpack L) N (location_of (nodes ! i) oid (pr_version p) i) = Some (es ! i)"
    if "i < total_shards spec" for i
    using that N plain(3) len les l(4) by (simp add: decoded_at_def decoded_def e(8))
  have dek: "decrypt_dek (lb_botan L) (pr_wrapped_dek p) kek = Inr (pd_dek rnd)"
    using decrypt_dek_wrapped [OF l(2,3) _ _ e(4)] d by (simp add: draws_ok_def)
  let ?ob = "\<lparr>so_data = data, so_spec = spec, so_dek = pd_dek rnd, so_plain = pls, so_token = pr_version p\<rparr>"
  have un: "unforged L (pd_dek rnd) N pls loc" if "loc \<in> set (placed oid (pr_version p) nodes)" for loc
    using that dec opi les len by (auto simp: unforged_def in_placed)
  have mdf: "md_erasure md = spec" "md_size md = word_of_nat (length data)" "md_checksum md = pr_checksum p"
    "md_encrypted_dek md = pr_wrapped_dek p" "md_kek_id md = active" "md_shard_locations md = placed oid (pr_version p) nodes"
    by (simp_all add: md put_metadata_def e(5))
  have "list_all plain_char (pr_version p)" unfolding e(6) by (rule plain_version)
  then have "object_state L N ring md oid (pr_version p) nodes data (pd_dek rnd) pls"
    using e plain len un recover_named [OF e(3) dek] by (simp add: object_state_def mdf)
  then have "intact L N ring oid md ?ob" using e(3) dek by (auto simp: intact_def mdf)
  moreover have "held L N md ?ob = {..<total_shards spec}" using dec opi len by (auto simp: held_def holds_def mdf)
  ultimately show ?thesis by (intro exI [of _ ?ob]) simp
qed

lemma put_effect:
  assumes lib: "libs_ok L D T" and v: "vault L D s A" and c: "canonical_id L oid" and d: "draws_ok L rnd"
    and f: "fresh_token L (sc_catalog s) oid (generateVersion (pd_version rnd))"
    and r: "StorageClient_put L rnd s oid data spec = (r, s')"
  shows "\<exists>A'. store_step (pg_uuid (lb_pg L)) A (Ev_Put oid data r) A' \<and> vault L D s' A' \<and>
    (\<forall>u. u \<noteq> oid \<longrightarrow> keeps L D s s' A u \<and> A' u = A u) \<and>
    (is_ok r \<longrightarrow> (\<exists>ob md. A' oid = Some ob \<and> so_data ob = data \<and> so_spec ob = spec \<and>
       entry (lb_msgpack L) (sc_catalog s') oid = Some md \<and> held L (cluster_shards D (sc_cluster s')) md ob = {..<total_shards spec}))"
proof (cases "s' = s \<and> \<not> is_ok r")
  case True
  then obtain e where "r = Inl e" by (cases r) auto
  then show ?thesis using True v keeps_same [OF v] store_put_failed by (intro exI [of _ A]) auto
next
  case False
  let ?ver = "generateVersion (pd_version rnd)" and ?N = "cluster_shards D (sc_cluster s)" and ?N' = "cluster_shards D (sc_cluster s')"
  have t: "tables_ok (lb_pg L) (sc_catalog s)" "addresses_ok (sc_catalog s)" using v by (simp_all add: vault_def)
  have l: "lb_send L = cluster_send D (lb_json L) T" "isal_ok (lb_isal L)" "order_ok (lb_ord L)" "msgpack_ok (lb_msgpack L)"
    "postgres_ok (lb_pg L)" using lib by (simp_all add: libs_ok_def)
  have pl: "list_all plain_char oid" and id: "pg_uuid (lb_pg L) oid = Some oid" using c by (simp_all add: canonical_id_def)
  obtain elig p nodes plc ra where P: "put_validate L (sc_catalog s) oid data spec = Inr elig"
    "put_prepare L rnd (sc_ring s) (sc_active s) oid data spec = Inr p"
    "hrw_intended_nodes oid elig (length (pr_serialized p)) = Inr nodes"
    "placement_strategy oid (pr_version p) (pr_serialized p) nodes = Inr plc"
    and ap: "apply_placement (lb_send L) (lb_ord L) (sc_cluster s) plc = (ra, sc_cluster s')"
    and ring: "sc_ring s' = sc_ring s"
    and fin: "sc_catalog s' = sc_catalog s \<and> \<not> is_ok r \<or>
     (\<exists>locs. ra = Inr () \<and> build_shard_locations (lb_ord L) plc = Inr locs \<and>
        MetadataStore_put (lb_pg L) (lb_msgpack L) (sc_catalog s) (put_metadata oid data spec p locs) = (r, sc_catalog s'))"
    using put_phases [OF r] False by (elim disjE exE conjE) (use that in blast)+
  note plan = put_plan [OF l(2) pl P]
  have ver: "pr_version p = ?ver" using put_prepare_spec [OF P(2)] by blast
  have kp: "key_parts_ok oid ?ver" using plan ver by simp
  have "writes_under oid ?ver ?N ?N'"
    using cluster.put_keys [OF l(1-3) libs_ok_cluster [OF lib] pl r] unfolding writes_under_def by blast
  note foreign = keeps_foreign [OF v _ this kp _ ring]
  have tok: "so_token ob \<noteq> ?ver" if a: "A oid = Some ob" for ob
  proof -
    obtain md where "entry (lb_msgpack L) (sc_catalog s) oid = Some md" "intact L ?N (sc_ring s) oid md ob"
      using vault_object [OF v a] by blast
    then show ?thesis using fresh_tokenD [OF l(2) _ _ f] by blast
  qed
  show ?thesis
  proof (cases "sc_catalog s' = sc_catalog s \<and> \<not> is_ok r")
    case True
    then have k: "keeps L D s s' A u" for u using foreign tok by (cases "u = oid") auto
    then have "vault L D s' A" using keeps_vault [OF v] t True by simp
    moreover obtain e where "r = Inl e" using True by (cases r) auto
    ultimately show ?thesis using k store_put_failed by (intro exI [of _ A]) auto
  next
    case no: False
    then obtain locs where q: "apply_placement (cluster_send D (lb_json L) T) (lb_ord L) (sc_cluster s) plc = (Inr (), sc_cluster s')"
      "build_shard_locations (lb_ord L) plc = Inr locs"
      "MetadataStore_put (lb_pg L) (lb_msgpack L) (sc_catalog s) (put_metadata oid data spec p locs) = (r, sc_catalog s')"
      using fin ap l(1) by auto
    note Q = cluster.put_placed [OF l(2,3) libs_ok_cluster [OF lib] pl P q(1,2)]
    have len: "length nodes = total_shards spec" using plan by blast
    have locs: "locs = placed oid (pr_version p) nodes" using Q len by (simp add: placed_def)
    have np: "nodes_plain nodes"
      using plan list_nodes_registered t(2) unfolding nodes_plain_def addresses_ok_def by fastforce
    have kp': "key_parts_ok oid (pr_version p)" using kp ver by simp
    have st: "\<forall>i<total_shards spec. ?N' (nodes ! i) (shard_key_of oid (pr_version p) i) = Some (pr_serialized p ! i)"
      using Q by blast
    have "pg_uuid (lb_pg L) (md_id (put_metadata oid data spec p locs)) = Some oid" using id by (simp add: put_metadata_def)
    note E = put_entry [OF t(1) l(4,5) q(3) this]
    then have ok: "tables_ok (lb_pg L) (sc_catalog s') \<and> addresses_ok (sc_catalog s')" using t(2) addresses_nodes by blast
    obtain vn where en: "entry (lb_msgpack L) (sc_catalog s') = (entry (lb_msgpack L) (sc_catalog s))
        (oid \<mapsto> (put_metadata oid data spec p locs)\<lparr>md_id := oid, md_version := vn\<rparr>)" using E no by blast
    let ?md = "(put_metadata oid data spec p locs)\<lparr>md_id := oid, md_version := vn\<rparr>"
    obtain ob where ob: "so_data ob = data" "so_spec ob = spec" "intact L ?N' (sc_ring s) oid ?md ob" "held L ?N' ?md ob = {..<total_shards spec}"
      using new_intact [OF lib d P(2) pl kp' np len st refl, of vn oid] unfolding locs by blast
    have eo: "entry (lb_msgpack L) (sc_catalog s') oid = Some ?md" by (simp add: en)
    have others: "keeps L D s s' A u" if "u \<noteq> oid" for u by (rule foreign) (use that en in simp_all)
    have "rel_option (intact L ?N' (sc_ring s') oid) (entry (lb_msgpack L) (sc_catalog s') oid) (Some ob)"
      using ob(3) by (simp only: eo ring option.rel_inject)
    from vault_changed [OF v conjunct1 [OF ok] conjunct2 [OF ok] others this] have v': "vault L D s' (A(oid \<mapsto> ob))" .
    have "\<exists>ob' md. (A(oid \<mapsto> ob)) oid = Some ob' \<and> so_data ob' = data \<and> so_spec ob' = spec \<and>
       entry (lb_msgpack L) (sc_catalog s') oid = Some md \<and> held L ?N' md ob' = {..<total_shards spec}"
      using eo ob(1,2,4) by (intro exI [of _ ob] exI [of _ ?md]) simp
    moreover have "\<forall>u. u \<noteq> oid \<longrightarrow> keeps L D s s' A u \<and> (A(oid \<mapsto> ob)) u = A u" using others by simp
    moreover have "store_step (pg_uuid (lb_pg L)) A (Ev_Put oid data r) (A(oid \<mapsto> ob))"
      by (rule store_put) (use id ob(1) in simp_all)
    ultimately show ?thesis using v' by blast
  qed
qed

section \<open>Every step is a step of the store\<close>

lemma rotate_grows:
  assumes "rotate L key ids s = Some (r, s')"
  shows "sc_catalog s' = sc_catalog s \<and> sc_cluster s' = sc_cluster s \<and> map_of (sc_ring s) \<subseteq>\<^sub>m map_of (sc_ring s')"
proof (cases key)
  case None
  then show ?thesis using assms by (simp add: rotate_def)
next
  case (Some k)
  then obtain id where id: "fresh_kek_id ids (sc_ring s) 0 = Some id" using assms by (auto simp: rotate_def split: option.splits)
  have "map_of (sc_ring s) id = None" using fresh_kek_id_new [OF id] .
  moreover have "map_of (sc_ring s') = (map_of (sc_ring s))(id \<mapsto> k)" "sc_catalog s' = sc_catalog s" "sc_cluster s' = sc_cluster s"
    using assms Some id calculation by (auto simp: rotate_def Let_def map_of_um_emplace split: prod.splits)
  ultimately show ?thesis by (auto simp: map_le_def)
qed

lemma nodes_entry:
  "register_node P now t a = (r, t') \<Longrightarrow> entry M t' = entry M t"
  "unregister_node P t a = (r', t') \<Longrightarrow> entry M t' = entry M t"
proof -
  have e: "entry M t' = entry M t" if "t_objects t' = t_objects t" "t_locations t' = t_locations t" for t t'
    using that by (simp add: entry_def catalog_def object_at_def locations_at_def fun_eq_iff)
  show "register_node P now t a = (r, t') \<Longrightarrow> entry M t' = entry M t"
    by (auto simp: register_node_def sql_register_node_def split: sum.splits if_splits dest!: commit_tables intro!: e)
  show "unregister_node P t a = (r', t') \<Longrightarrow> entry M t' = entry M t"
    by (auto simp: unregister_node_def sql_unregister_node_def split: sum.splits if_splits dest!: commit_tables intro!: e)
qed

lemma nodes_addresses:
  "register_node P now t a = (r, t') \<Longrightarrow> addresses_ok t \<Longrightarrow> CHR ''/'' \<notin> set a \<Longrightarrow> is_ok (get_node_client a) \<Longrightarrow> addresses_ok t'"
  "unregister_node P t a = (r', t') \<Longrightarrow> addresses_ok t \<Longrightarrow> addresses_ok t'"
  by (auto simp: register_node_def sql_register_node_def unregister_node_def sql_unregister_node_def addresses_ok_def
      split: sum.splits if_splits dest!: commit_tables)

lemma step_refines:
  assumes lib: "libs_ok L D T" and v: "vault L D s A" and step: "client_step L D s ev s'"
  shows "\<exists>A'. store_step (pg_uuid (lb_pg L)) A ev A' \<and> vault L D s' A' \<and>
    (\<forall>u. \<not> touches (pg_uuid (lb_pg L)) u ev \<longrightarrow> keeps L D s s' A u \<and> A' u = A u)"
proof -
  let ?K = "pg_uuid (lb_pg L)"
  have t: "tables_ok (lb_pg L) (sc_catalog s)" "addresses_ok (sc_catalog s)" using v by (simp_all add: vault_def)
  have l: "lb_send L = cluster_send D (lb_json L) T" using lib by (simp add: libs_ok_def)
  have fin: ?thesis if "store_step ?K A ev A" "\<And>u. keeps L D s s' A u" "tables_ok (lb_pg L) (sc_catalog s')" "addresses_ok (sc_catalog s')"
    using that keeps_vault [OF v] by (intro exI [of _ A]) simp
  have same: ?thesis if "store_step ?K A ev A" "sc_catalog s' = sc_catalog s"
    "cluster_shards D (sc_cluster s') = cluster_shards D (sc_cluster s)" "map_of (sc_ring s) \<subseteq>\<^sub>m map_of (sc_ring s')"
    by (rule fin) (use that t keeps_same [OF v] in simp_all)
  note kept = store_kept [where K = ?K]
  from step show ?thesis
  proof cases
    case (step_put rnd oid data spec r)
    have id: "?K oid = Some oid" using step_put by (simp add: canonical_id_def)
    show ?thesis using put_effect [OF lib v step_put(3,4,5,2)] id unfolding step_put(1) by auto
  next
    case (step_get timing oid r)
    have "store_step ?K A ev A"
    proof (cases r)
      case (Inr d)
      obtain u ob where "?K oid = Some u" "A u = Some ob" "d = so_data ob"
        using get_returns [OF lib v step_get(2) [unfolded Inr]] by blast
      then show ?thesis unfolding step_get(1) Inr by (simp add: store_get)
    qed (simp add: step_get(1) store_get_failed)
    then show ?thesis using same cluster.get_read_only [OF l, where s = s and timing = timing and oid = oid] step_get by (simp add: read_only_def)
  next
    case (step_remove oid r)
    then show ?thesis using remove_effect [OF lib v, of oid r] by auto
  next
    case (step_repair draws timing oid r)
    then show ?thesis using fin repair_keeps_all [OF lib v] kept by blast
  next
    case (step_rebalance scope r)
    then show ?thesis using fin rebalance_keeps_all [OF lib v] kept by blast
  next
    case (step_rotate key ids r)
    then show ?thesis using same rotate_grows [OF step_rotate(2)] kept by simp
  next
    case (step_health oid r)
    then show ?thesis using same cluster.health_read_only [OF l, where s = s and oid = oid] kept by (simp add: read_only_def)
  next
    case (step_register now a r tb)
    then show ?thesis
      using fin [OF _ keeps_same [OF v]] register_node_ok [OF t(1)] nodes_entry(1) nodes_addresses(1) [OF _ t(2)] kept
      by simp
  next
    case (step_unregister a r tb)
    then show ?thesis
      using fin [OF _ keeps_same [OF v]] unregister_node_ok [OF t(1)] nodes_entry(2) nodes_addresses(2) [OF _ t(2)] kept
      by simp
  next
    case (step_outage c)
    then show ?thesis using same kept by simp
  next
    case (step_loss c)
    have il: "intact L (cluster_shards D c) (sc_ring s) u md ob" if "intact L (cluster_shards D (sc_cluster s)) (sc_ring s) u md ob"
      for u md ob by (rule intact_loss [OF that]) (rule step_loss(3))
    have "rel_option (intact L (cluster_shards D c) (sc_ring s) u) (entry (lb_msgpack L) (sc_catalog s) u) (A u)" for u
      using v il by (auto simp: vault_def intro: option.rel_mono_strong)
    then have "vault L D s' A" using v step_loss by (simp add: vault_def)
    then show ?thesis using kept step_loss by (intro exI [of _ A]) simp
  qed
qed

end
