(* ===== verification/Object_Store_Properties.thy ===== *)
theory Object_Store_Properties
  imports Object_Store_Steps Client_Witnesses
begin

text \<open>
  Whole runs of the client: they refine the abstract store, and a stored object survives them.
\<close>

section \<open>Runs\<close>

text \<open>
  C3: The client refines an abstract store. Take any run of operations on any objects, each with
  whatever outcome it has, over a network that drops what it likes and nodes that lose what they
  like: the answers are those of one map from ids to bytes, in which a successful \<open>put\<close> or
  \<open>remove\<close> takes effect, a failed one takes effect or not, \<open>repair\<close>, \<open>rebalance\<close> and \<open>rotate\<close>
  change nothing, and every \<open>get\<close> that returns, returns the bytes stored last.
\<close>

theorem client_refines_store:
  assumes "libs_ok L D T" and "vault L D s A" and "client_run L D s evs s'"
  shows "\<exists>A'. store_run (pg_uuid (lb_pg L)) A evs A' \<and> vault L D s' A'"
  using assms(3,2)
proof (induction arbitrary: A rule: client_run.induct)
  case run_Nil
  then show ?case using store_run_Nil by blast
next
  case (run_Cons s ev s1 evs s2)
  obtain A1 where A1: "store_step (pg_uuid (lb_pg L)) A ev A1" "vault L D s1 A1"
    using step_refines [OF assms(1) run_Cons.prems run_Cons.hyps(1)] by blast
  obtain A2 where "store_run (pg_uuid (lb_pg L)) A1 evs A2" "vault L D s2 A2" using run_Cons.IH [OF A1(2)] by blast
  then show ?case using store_run_Cons [OF A1(1)] by blast
qed

text \<open>
  Without losses, what can be read of an object that nobody puts or removes only grows.\<close>

lemma run_keeps_held:
  assumes "libs_ok L D T" and "vault L D s A" and "client_run L D s evs s'"
    and "list_all (\<lambda>ev. \<not> touches (pg_uuid (lb_pg L)) u ev) evs"
    and "A u = Some ob" and "entry (lb_msgpack L) (sc_catalog s) u = Some md"
  shows "\<exists>A' md'. vault L D s' A' \<and> A' u = Some ob \<and> entry (lb_msgpack L) (sc_catalog s') u = Some md' \<and>
    held L (cluster_shards D (sc_cluster s)) md ob \<subseteq> held L (cluster_shards D (sc_cluster s')) md' ob"
  using assms(3,2,4-)
proof (induction arbitrary: A md rule: client_run.induct)
  case (run_Nil s)
  then show ?case by blast
next
  case (run_Cons s ev s1 evs s2)
  obtain A1 where A1: "vault L D s1 A1" "keeps L D s s1 A u" "A1 u = A u"
    using step_refines [OF assms(1) run_Cons.prems(1) run_Cons.hyps(1)] run_Cons.prems(2) by auto
  obtain md1 where md1: "entry (lb_msgpack L) (sc_catalog s1) u = Some md1"
    using vault_object [OF A1(1), of u ob] A1(3) run_Cons.prems(3) by auto
  obtain A' md' where "vault L D s2 A'" "A' u = Some ob" "entry (lb_msgpack L) (sc_catalog s2) u = Some md'"
    "held L (cluster_shards D (sc_cluster s1)) md1 ob \<subseteq> held L (cluster_shards D (sc_cluster s2)) md' ob"
    using run_Cons.IH [OF A1(1) _ _ md1] run_Cons.prems A1(3) by auto
  then show ?case using keeps_held [OF A1(2) run_Cons.prems(3,4) md1] by blast
qed

text \<open>The shards of an object whose listed nodes answer.\<close>

definition reachable_shards ::
    "('db cluster, 'key) libs \<Rightarrow> 'db lmdb \<Rightarrow> ('db cluster, 'key) client \<Rightarrow> string \<Rightarrow> nat set" where
  "reachable_shards L D s oid = (case entry (lb_msgpack L) (sc_catalog s) oid of
     None \<Rightarrow> {}
   | Some md \<Rightarrow> {i. i < length (md_shard_locations md) \<and> askable (cluster_up D (sc_cluster s)) (md_shard_locations md ! i)})"

text \<open>
  C4: A stored object survives. After a successful \<open>put\<close>, whatever operations run on other objects and
  however often this one is read, repaired or rebalanced, whatever keys are rotated in, nodes
  registered or unregistered and links cut: as long as nobody puts or removes the object and no
  node loses shards, \<open>get\<close> returns its bytes whenever \<open>k\<close> of the locations listed by then
  answer, if any \<open>k\<close> shards decode (\<open>isal_invertible\<close>: the square submatrices of the generator are
  invertible), and in any case when the \<open>k\<close> data shards are among those that answer.
\<close>

theorem stored_object_survives:
  assumes "libs_ok L D T" and "vault L D s A" and "canonical_id L oid" and "draws_ok L rnd"
    and "fresh_token L (sc_catalog s) oid (generateVersion (pd_version rnd))"
    and "StorageClient_put L rnd s oid data spec = (Inr (), s1)"
    and "client_run L D s1 evs s2" and "list_all (\<lambda>ev. \<not> touches (pg_uuid (lb_pg L)) oid ev) evs"
    and "reads_ok (lb_pg L) (sc_catalog s2)"
    and "unat (data_shards spec) \<le> card (reachable_shards L D s2 oid)"
    and "isal_invertible (lb_isal L) (total_shards spec) (unat (data_shards spec)) \<or>
      {..<unat (data_shards spec)} \<subseteq> reachable_shards L D s2 oid"
  shows "fst (StorageClient_get L timing s2 oid) = Inr data"
proof -
  obtain A1 ob md1 where A1: "vault L D s1 A1" "A1 oid = Some ob" "so_data ob = data" "so_spec ob = spec"
    "entry (lb_msgpack L) (sc_catalog s1) oid = Some md1" "held L (cluster_shards D (sc_cluster s1)) md1 ob = {..<total_shards spec}"
    using put_effect [OF assms(1-6)] by auto
  obtain A2 md2 where A2: "vault L D s2 A2" "A2 oid = Some ob" "entry (lb_msgpack L) (sc_catalog s2) oid = Some md2"
    "{..<total_shards spec} \<subseteq> held L (cluster_shards D (sc_cluster s2)) md2 ob"
    using run_keeps_held [OF assms(1) A1(1) assms(7,8) A1(2,5)] A1(6) by auto
  have "intact L (cluster_shards D (sc_cluster s2)) (sc_ring s2) oid md2 ob" using vault_entry [OF A2(1,3)] A2(2) by auto
  then have sp: "md_erasure md2 = spec" "length (md_shard_locations md2) = total_shards spec" "oid \<noteq> []"
    using A1(4) by (auto simp: intact_def object_state_def key_parts_ok_def)
  have id: "pg_uuid (lb_pg L) oid = Some oid" using assms(3) by (simp add: canonical_id_def)
  have R: "reachable_shards L D s2 oid = {i. i < total_shards spec \<and> askable (cluster_up D (sc_cluster s2)) (md_shard_locations md2 ! i)}"
    using A2(3) sp(2) by (simp add: reachable_shards_def)
  have "fst (StorageClient_get L timing s2 oid) = Inr (so_data ob)"
  proof (rule get_returns_held [OF assms(1) A2(1) assms(9) id sp(3) A2(2,3)])
    show "reachable_shards L D s2 oid \<subseteq> held L (cluster_shards D (sc_cluster s2)) md2 ob" using A2(4) by (auto simp: R)
  qed (use assms(10,11) sp in \<open>simp_all add: R\<close>)
  then show ?thesis using A1(3) by simp
qed

section \<open>Witnesses\<close>

text \<open>
  An empty store; then one object is put, a node goes down, and the object is read.\<close>

lemma vault0: "vault ref_libs ref_lmdb client0 Map.empty"
proof -
  have "tables_ok (lb_pg ref_libs) (sc_catalog client0)" by (simp add: tables_ok_def client0_def)
  moreover have "addresses_ok (sc_catalog client0)" by code_simp
  moreover have "entry (lb_msgpack ref_libs) (sc_catalog client0) u = None" for u
    by (simp add: entry_def catalog_def object_at_def client0_def)
  ultimately show ?thesis by (simp add: vault_def)
qed

definition client1_down :: "(ref_db cluster, nat) client" where
  "client1_down = client1\<lparr>sc_cluster := (sc_cluster client1)\<lparr>cl_link := (\<lambda>t a. if a = ''a:1'' then Unreachable else Delivered)\<rparr>\<rparr>"

lemma put1_step:
  "StorageClient_put ref_libs draws0 client0 oid0 data1 spec2 = (Inr (), client1)"
  "canonical_id ref_libs oid0" "draws_ok ref_libs draws0"
  "fresh_token ref_libs (sc_catalog client0) oid0 (generateVersion (pd_version draws0))"
proof -
  show "StorageClient_put ref_libs draws0 client0 oid0 data1 spec2 = (Inr (), client1)" using put1 by (metis prod.collapse)
  show "canonical_id ref_libs oid0" "fresh_token ref_libs (sc_catalog client0) oid0 (generateVersion (pd_version draws0))"
    by code_simp+
  show "draws_ok ref_libs draws0" by (simp add: draws_ok_def draws0_def ref_libs_def ref_botan_def)
qed

lemma outage1: "client_step ref_libs ref_lmdb client1 Ev_Outage client1_down"
  unfolding client1_down_def by (rule step_outage) (simp add: cluster_shards_def fun_eq_iff)

lemma entry1: "\<exists>md. entry (lb_msgpack ref_libs) (sc_catalog client1) oid0 = Some md \<and> md_shard_locations md = locs1"
proof -
  obtain p where p: "MetadataStore_put ref_pg ref_msgpack (sc_catalog client0) (put_metadata oid0 data1 spec2 p locs1) =
      (Inr (), sc_catalog client1)" using put1_stored by blast
  have "tables_ok ref_pg (sc_catalog client0)" by (simp add: tables_ok_def client0_def)
  moreover have "pg_uuid ref_pg (md_id (put_metadata oid0 data1 spec2 p locs1)) = Some oid0"
    using oid0_uuid(1) by (simp add: put_metadata_def)
  ultimately obtain v where "entry ref_msgpack (sc_catalog client1) = (entry ref_msgpack (sc_catalog client0))
      (oid0 \<mapsto> (put_metadata oid0 data1 spec2 p locs1)\<lparr>md_id := oid0, md_version := v\<rparr>)"
    using put_entry [OF _ msgpack_ok_ref postgres_ok_ref p] by auto
  then show ?thesis by (simp add: ref_libs_def put_metadata_def)
qed

lemma split1:
  "split_location (locs1 ! 0) = Some (''c:3'', tl (drop 3 (locs1 ! 0)))" "split_location (locs1 ! 1) = Some (''b:2'', tl (drop 3 (locs1 ! 1)))"
  "split_location (locs1 ! 2) = Some (''a:1'', tl (drop 3 (locs1 ! 2)))"
  "is_ok (get_node_client ''c:3'')" "is_ok (get_node_client ''b:2'')"
  by code_simp+

lemma reachable1: "reachable_shards ref_libs ref_lmdb client1_down oid0 = {0, 1}"
proof -
  let ?N = "cluster_shards ref_lmdb (sc_cluster client1)"
  obtain md where md: "entry (lb_msgpack ref_libs) (sc_catalog client1) oid0 = Some md" "md_shard_locations md = locs1"
    using entry1 by blast
  obtain A ob md' where "entry (lb_msgpack ref_libs) (sc_catalog client1) oid0 = Some md'"
    "held ref_libs ?N md' ob = {..<total_shards spec2}"
    using put_effect [OF libs_ok_ref vault0 put1_step(2-4,1)] by auto
  then have h: "held ref_libs ?N md ob = {..<total_shards spec2}" using md(1) by simp
  have nodes: "cl_nodes (sc_cluster client1) a \<noteq> None" if "i < 3" "split_location (locs1 ! i) = Some (a, l)" for i a l
  proof -
    have "i \<in> held ref_libs ?N md ob" using h that(1) by (simp add: total_shards_def)
    then obtain e where "decoded_at (lb_msgpack ref_libs) ?N (locs1 ! i) = Some e" by (auto simp: held_def holds_def md(2))
    then have "?N a l \<noteq> None" using that(2) by (auto simp: decoded_at_def decoded_def split: option.splits)
    then show ?thesis by (auto simp: cluster_shards_def split: option.splits)
  qed
  have up: "cluster_up ref_lmdb (sc_cluster client1_down) a \<longleftrightarrow> a \<noteq> ''a:1''" if "cl_nodes (sc_cluster client1) a \<noteq> None" for a
    using that by (auto simp: cluster_up_def client1_down_def)
  have ask: "askable (cluster_up ref_lmdb (sc_cluster client1_down)) (locs1 ! i) \<longleftrightarrow> i < 2" if n: "i < 3" for i
  proof -
    consider "i = 0" | "i = 1" | "i = 2" using n by linarith
    then show ?thesis
      by cases (use up nodes [OF n] split1 in \<open>simp_all only: askable_def option.case prod.case\<close>, simp_all)
  qed
  have len: "length locs1 = 3" by simp
  have "sc_catalog client1_down = sc_catalog client1" by (simp add: client1_down_def)
  then have "reachable_shards ref_libs ref_lmdb client1_down oid0 =
      {i. i < length locs1 \<and> askable (cluster_up ref_lmdb (sc_cluster client1_down)) (locs1 ! i)}"
    by (simp only: reachable_shards_def md option.case)
  also have "\<dots> = {i. i < 3 \<and> i < 2}" unfolding len using ask by blast
  also have "\<dots> = {0, 1}" by auto
  finally show ?thesis .
qed

theorem client_refines_store_witness:
  "\<exists>A'. store_run (pg_uuid ref_pg) Map.empty [Ev_Put oid0 data1 (Inr ()), Ev_Outage] A' \<and> vault ref_libs ref_lmdb client1_down A'"
proof -
  have "client_run ref_libs ref_lmdb client0 [Ev_Put oid0 data1 (Inr ()), Ev_Outage] client1_down"
    using step_put [OF put1_step] outage1 by (blast intro: run_Cons run_Nil)
  from client_refines_store [OF libs_ok_ref vault0 this] show ?thesis by (simp add: ref_libs_def)
qed

theorem stored_object_survives_witness:
  "fst (StorageClient_get ref_libs zero_timing client1_down oid0) = Inr data1"
proof (rule stored_object_survives [OF libs_ok_ref vault0 put1_step(2-4,1)])
  show "client_run ref_libs ref_lmdb client1 [Ev_Outage] client1_down" using outage1 by (blast intro: run_Cons run_Nil)
  show "reads_ok (lb_pg ref_libs) (sc_catalog client1_down)" by (simp add: ref_libs_def)
qed (simp_all add: reachable1 lessThan_nat_numeral lessThan_Suc)

end
