(* ===== verification/Object_Store_Frames.thy ===== *)
theory Object_Store_Frames
  imports Object_Store_Steps
begin

text \<open>
  What an operation on the objects \<open>U\<close> leaves alone: every key of every node that is not a key of
  one of them, and every other entry of the catalog.
\<close>

definition confined ::
    "('db cluster, 'key) libs \<Rightarrow> 'db lmdb \<Rightarrow> string set \<Rightarrow> ('db cluster, 'key) client \<Rightarrow> ('db cluster, 'key) client \<Rightarrow> bool" where
  "confined L D U s s' \<longleftrightarrow>
     (\<forall>a l. cluster_shards D (sc_cluster s') a l = cluster_shards D (sc_cluster s) a l \<or>
        (\<exists>u\<in>U. \<exists>ver n. l = shard_key_of u ver n)) \<and>
     (\<forall>w. w \<notin> U \<longrightarrow> entry (lb_msgpack L) (sc_catalog s') w = entry (lb_msgpack L) (sc_catalog s) w)"

lemma confined_refl [simp]: "confined L D U s s"
  by (simp add: confined_def)

lemma confined_trans: "confined L D U s s1 \<Longrightarrow> confined L D U s1 s2 \<Longrightarrow> confined L D U s s2"
  unfolding confined_def by metis

lemma confined_mono: "confined L D U s s' \<Longrightarrow> U \<subseteq> V \<Longrightarrow> confined L D V s s'"
  unfolding confined_def by blast

lemma confinedI:
  assumes "writes_under u ver (cluster_shards D (sc_cluster s)) (cluster_shards D (sc_cluster s'))"
    and "\<And>w. w \<noteq> u \<Longrightarrow> entry (lb_msgpack L) (sc_catalog s') w = entry (lb_msgpack L) (sc_catalog s) w"
  shows "confined L D {u} s s'"
  using assms unfolding confined_def writes_under_def by blast

lemma read_only_confined:
  "sc_catalog s' = sc_catalog s \<Longrightarrow> cluster_shards D (sc_cluster s') = cluster_shards D (sc_cluster s) \<Longrightarrow> confined L D U s s'"
  by (simp add: confined_def)

text \<open>
  The keys of different objects are different, so every other object keeps its entry and its shards.\<close>

lemma shard_key_object:
  assumes "CHR ''/'' \<notin> set u" and "CHR ''/'' \<notin> set w" and "shard_key_of u ver i = shard_key_of w ver' j"
  shows "u = w"
proof -
  have k: "takeWhile (\<lambda>d. d \<noteq> CHR ''/'') (shard_key_of a b n) = a" if "CHR ''/'' \<notin> set a" for a b n
    using that by (simp add: shard_key_of_def cpp_simps)
  show ?thesis using k [OF assms(1), of ver i] k [OF assms(2), of ver' j] assms(3) by simp
qed

lemma confined_bystander:
  assumes v: "vault L D s A" and c: "confined L D U s s'" and U: "\<forall>u\<in>U. CHR ''/'' \<notin> set u"
    and w: "w \<notin> U" and md: "entry (lb_msgpack L) (sc_catalog s) w = Some md"
  shows "entry (lb_msgpack L) (sc_catalog s') w = Some md \<and> (\<forall>loc\<in>set (md_shard_locations md).
    stored_bytes (cluster_shards D (sc_cluster s')) loc = stored_bytes (cluster_shards D (sc_cluster s)) loc)"
proof (intro conjI ballI)
  show "entry (lb_msgpack L) (sc_catalog s') w = Some md" using c w md by (simp add: confined_def)
  fix loc assume loc: "loc \<in> set (md_shard_locations md)"
  obtain ob :: stored_object and nodes where p: "well_placed md w (so_token ob) nodes"
    using vault_entry [OF v md] intact_placed by blast
  then obtain i where i: "i < length nodes" "loc = location_of (nodes ! i) w (so_token ob) i"
    using loc by (auto simp: well_placed_def in_placed)
  have "CHR ''/'' \<notin> set w" using p by (simp add: well_placed_def key_parts_ok_def)
  then have "shard_key_of w (so_token ob) i \<noteq> shard_key_of u ver n" if "u \<in> U" for u ver n
    using shard_key_object U that w by metis
  then have "cluster_shards D (sc_cluster s') (nodes ! i) (shard_key_of w (so_token ob) i) =
      cluster_shards D (sc_cluster s) (nodes ! i) (shard_key_of w (so_token ob) i)"
    using c unfolding confined_def by blast
  then show "stored_bytes (cluster_shards D (sc_cluster s')) loc = stored_bytes (cluster_shards D (sc_cluster s)) loc"
    using i p by (simp add: well_placed_def)
qed

text \<open>
  The shards at the listed locations of an object are under its keys.\<close>

lemma listed_key:
  assumes "well_placed md u ver nodes" and "loc \<in> set (md_shard_locations md)" and "split_location loc = Some (a, l)"
  shows "\<exists>n. l = shard_key_of u ver n"
  using assms unfolding well_placed_def by (auto simp: in_placed)

lemma put_confined:
  assumes lib: "libs_ok L D T" and v: "vault L D s A" and c: "canonical_id L oid"
    and r: "StorageClient_put L rnd s oid data spec = (r, s')"
  shows "confined L D {oid} s s'"
proof (rule confinedI)
  have l: "lb_send L = cluster_send D (lb_json L) T" "isal_ok (lb_isal L)" "order_ok (lb_ord L)" "msgpack_ok (lb_msgpack L)"
    "postgres_ok (lb_pg L)" using lib by (simp_all add: libs_ok_def)
  have pl: "list_all plain_char oid" and id: "pg_uuid (lb_pg L) oid = Some oid" using c by (simp_all add: canonical_id_def)
  show "writes_under oid (generateVersion (pd_version rnd)) (cluster_shards D (sc_cluster s)) (cluster_shards D (sc_cluster s'))"
    using cluster.put_keys [OF l(1-3) libs_ok_cluster [OF lib] pl r] unfolding writes_under_def by blast
  have t: "tables_ok (lb_pg L) (sc_catalog s)" using v by (simp add: vault_def)
  consider "sc_catalog s' = sc_catalog s" | p locs where
    "MetadataStore_put (lb_pg L) (lb_msgpack L) (sc_catalog s) (put_metadata oid data spec p locs) = (r, sc_catalog s')"
    using put_phases [OF r] by blast
  then show "entry (lb_msgpack L) (sc_catalog s') w = entry (lb_msgpack L) (sc_catalog s) w" if w: "w \<noteq> oid" for w
  proof cases
    case 2
    have "pg_uuid (lb_pg L) (md_id (put_metadata oid data spec p locs)) = Some oid" using id by (simp add: put_metadata_def)
    from put_entry [OF t l(4,5) 2 this] w show ?thesis by auto
  qed simp
qed

lemma repair_confined:
  assumes lib: "libs_ok L D T" and v: "vault L D s A" and c: "canonical_id L oid"
    and r: "StorageClient_repair L rnd timing s oid = (r, s')"
  shows "confined L D {oid} s s'"
proof (cases "\<exists>md. MetadataStore_get (lb_pg L) (lb_msgpack L) (sc_catalog s) oid = Inr (Some md)")
  case False
  then have "s' = s" using repair_not_found [OF _ r] by blast
  then show ?thesis by simp
next
  case True
  then obtain md where md: "MetadataStore_get (lb_pg L) (lb_msgpack L) (sc_catalog s) oid = Inr (Some md)" by blast
  have t: "tables_ok (lb_pg L) (sc_catalog s)" "addresses_ok (sc_catalog s)" using v by (simp_all add: vault_def)
  have l: "msgpack_ok (lb_msgpack L)" "postgres_ok (lb_pg L)" using lib by (simp_all add: libs_ok_def)
  have id: "md_id md = oid" "entry (lb_msgpack L) (sc_catalog s) oid = Some md"
    using get_entry [OF t(1) md] c by (auto simp: canonical_id_def)
  obtain ob :: stored_object and nodes where st: "object_state L (cluster_shards D (sc_cluster s)) (sc_ring s) md oid (so_token ob) nodes
      (so_data ob) (so_dek ob) (so_plain ob)" using vault_entry [OF v id(2)] by (auto simp: intact_def)
  note O = repair_outcome [OF lib t(2) md st r]
  show ?thesis
  proof (rule confinedI)
    show "writes_under oid (so_token ob) (cluster_shards D (sc_cluster s)) (cluster_shards D (sc_cluster s'))"
      using O writes_genuine_under by blast
    fix w assume w: "w \<noteq> oid"
    consider "sc_catalog s' = sc_catalog s" | locs rr where
      "conditional_put (lb_pg L) (lb_msgpack L) (sc_catalog s) (md\<lparr>md_shard_locations := locs\<rparr>) (md_version md) = (rr, sc_catalog s')"
      using O by blast
    then show "entry (lb_msgpack L) (sc_catalog s') w = entry (lb_msgpack L) (sc_catalog s) w"
    proof cases
      case 2
      have "pg_uuid (lb_pg L) (md_id (md\<lparr>md_shard_locations := locs\<rparr>)) = Some (md_id (md\<lparr>md_shard_locations := locs\<rparr>))"
        using get_entry [OF t(1) md] by simp
      from entry_conditional_put [OF t(1) l 2 this] w show ?thesis by (auto simp: id(1))
    qed simp
  qed
qed

lemma remove_confined:
  assumes lib: "libs_ok L D T" and v: "vault L D s A" and c: "canonical_id L oid"
    and r: "StorageClient_remove L s oid = (r, s')"
  shows "confined L D {oid} s s'"
proof (cases "\<exists>md m. oid \<noteq> [] \<and> MetadataStore_get (lb_pg L) (lb_msgpack L) (sc_catalog s) oid = Inr (Some md) \<and>
      parse_shard_locations (md_shard_locations md) = Inr m")
  case False
  then have "s' = s" using r by (auto simp: StorageClient_remove_def split: if_splits sum.splits option.splits)
  then show ?thesis by simp
next
  case True
  then obtain md m where md: "oid \<noteq> []" "MetadataStore_get (lb_pg L) (lb_msgpack L) (sc_catalog s) oid = Inr (Some md)"
    and m: "parse_shard_locations (md_shard_locations md) = Inr m" by blast
  have t: "tables_ok (lb_pg L) (sc_catalog s)" using v by (simp add: vault_def)
  have id: "md_id md = oid" "entry (lb_msgpack L) (sc_catalog s) oid = Some md" "pg_uuid (lb_pg L) oid = Some oid"
    using get_entry [OF t md(2)] c by (auto simp: canonical_id_def)
  have cl: "sc_cluster s' = remove_from_nodes (lb_send L) (lb_ord L) (sc_cluster s) m"
    and mr: "MetadataStore_remove (lb_pg L) (sc_catalog s) oid = (r, sc_catalog s')"
    using r md m by (auto simp: StorageClient_remove_def Let_def split: prod.splits)
  obtain ob :: stored_object where "intact L (cluster_shards D (sc_cluster s)) (sc_ring s) oid md ob" using vault_entry [OF v id(2)] by blast
  then obtain nodes where w: "well_placed md oid (so_token ob) nodes" using intact_placed by blast
  have "\<forall>loc\<in>set (md_shard_locations md). location_plain loc" using w placed_plain unfolding well_placed_def by metis
  note R = remove_shards [OF lib m this, of "sc_cluster s", folded cl]
  show ?thesis
  proof (rule confinedI)
    show "writes_under oid (so_token ob) (cluster_shards D (sc_cluster s)) (cluster_shards D (sc_cluster s'))"
      unfolding writes_under_def using R listed_key [OF w] by metis
    show "entry (lb_msgpack L) (sc_catalog s') w = entry (lb_msgpack L) (sc_catalog s) w" if "w \<noteq> oid" for w
      using remove_entry [OF t mr id(3), of "lb_msgpack L"] id(2) that by auto
  qed
qed

end
