(* ===== verification/Programs_Properties.thy ===== *)
theory Programs_Properties
  imports Programs Object_Store_Properties Object_Store_Frames
begin

text \<open>
  The benchmark drivers over the verified client: their identifiers do not collide, the driver never
  sees wrong bytes and leaves other objects alone, and the metadata benchmark cleans up after itself.
\<close>

section \<open>Identifiers\<close>

definition hex_code :: "char \<Rightarrow> nat" where
  "hex_code c = (if is_digit c then char_code c - 48 else char_code c - 87)"

definition hex_value :: "string \<Rightarrow> nat" where
  "hex_value s = foldl (\<lambda>a c. 16 * a + hex_code c) 0 s"

lemma hex_digits_lt: "d \<in> set (hex_digits n) \<Longrightarrow> d < 16"
proof (induction n arbitrary: d rule: hex_digits.induct)
  case (1 n)
  then show ?case by (subst (asm) hex_digits.simps) (auto split: if_splits)
qed

lemma hex_digit_code:
  assumes "d < 16"
  shows "hex_code (hex_digit (word_of_nat d)) = d \<and> hex_digit (word_of_nat d) \<noteq> CHR ''-'' \<and> plain_char (hex_digit (word_of_nat d))"
proof -
  have "list_all (\<lambda>d. hex_code (hex_digit (word_of_nat d)) = d \<and> hex_digit (word_of_nat d) \<noteq> CHR ''-'' \<and>
      plain_char (hex_digit (word_of_nat d))) [0..<16]" by code_simp
  then show ?thesis using assms by (simp add: list_all_iff)
qed

lemma hex_value_append: "hex_value (s @ [c]) = 16 * hex_value s + hex_code c"
  by (simp add: hex_value_def)

lemma hex_value_string: "hex_value (hex_string n) = n"
proof (induction n rule: hex_digits.induct)
  case (1 n)
  show ?case
  proof (cases "n < 16")
    case True
    then show ?thesis using hex_digit_code [of n] by (simp add: hex_string_def hex_digits.simps [of n] hex_value_def)
  next
    case False
    then have "hex_string n = hex_string (n div 16) @ [hex_digit (word_of_nat (n mod 16))]"
      by (simp add: hex_string_def hex_digits.simps [of n])
    then show ?thesis using 1 False hex_digit_code [of "n mod 16"] by (simp add: hex_value_append)
  qed
qed

lemma hex_value_padded: "hex_value (zero_padded w s) = hex_value s"
proof -
  have "hex_value (replicate n CHR ''0'' @ s) = hex_value s" for n
    by (induction n) (simp_all add: hex_value_def hex_code_def is_digit_def char_code_def)
  then show ?thesis by (simp add: zero_padded_def)
qed

lemma padded_chars: "c \<in> set (zero_padded w (hex_string n)) \<Longrightarrow> c \<noteq> CHR ''-'' \<and> plain_char c"
proof -
  assume c: "c \<in> set (zero_padded w (hex_string n))"
  have "plain_char CHR ''0''" by code_simp
  then show ?thesis using c hex_digit_code [OF hex_digits_lt, of _ n] by (auto simp: zero_padded_def hex_string_def)
qed

lemma run_uuid_inj: "run_uuid i = run_uuid j \<longleftrightarrow> i = j"
proof
  assume "run_uuid i = run_uuid j"
  then have "zero_padded 12 (hex_string i) = zero_padded 12 (hex_string j)" by (simp add: run_uuid_def)
  from arg_cong [OF this, of hex_value] show "i = j" by (simp add: hex_value_padded hex_value_string)
qed simp

lemma make_uuid_inj: "make_uuid g n = make_uuid h m \<longleftrightarrow> g = h \<and> n = m"
proof
  let ?z = "\<lambda>w (k::nat). zero_padded w (hex_string k)" and ?tw = "takeWhile (\<lambda>c. c \<noteq> CHR ''-'')"
  assume "make_uuid g n = make_uuid h m"
  then have e: "?z 4 (unat g) @ ''-'' @ ?z 12 (unat n) = ?z 4 (unat h) @ ''-'' @ ?z 12 (unat m)" by (simp add: make_uuid_def)
  have tw: "?tw (?z 4 k @ ''-'' @ s) = ?z 4 k" for k s using padded_chars [of _ 4 k] by (simp add: cpp_simps)
  have z: "?z 4 (unat g) = ?z 4 (unat h)" using arg_cong [OF e, of ?tw] by (simp only: tw)
  then have "?z 12 (unat n) = ?z 12 (unat m)" using e by simp
  from arg_cong [OF z, of hex_value] arg_cong [OF this, of hex_value] show "g = h \<and> n = m"
    by (simp add: hex_value_padded hex_value_string word_unat_eq_iff)
qed simp

lemma run_uuid_make_uuid: "run_uuid i = make_uuid g n \<Longrightarrow> g = 0"
proof -
  let ?z = "\<lambda>w (k::nat). zero_padded w (hex_string k)" and ?tw = "takeWhile (\<lambda>c. c \<noteq> CHR ''-'')"
  assume "run_uuid i = make_uuid g n"
  then have e: "''0000'' @ ''-'' @ ?z 12 i = ?z 4 (unat g) @ ''-'' @ ?z 12 (unat n)" by (simp add: run_uuid_def make_uuid_def)
  have tw: "?tw (?z 4 k @ ''-'' @ s) = ?z 4 k" for k s using padded_chars [of _ 4 k] by (simp add: cpp_simps)
  have "''0000'' = ?z 4 (unat g)" using arg_cong [OF e, of ?tw] by (simp only: tw) simp
  from arg_cong [OF this, of hex_value] show "g = 0"
    by (simp add: hex_value_padded hex_value_string) (simp add: hex_value_def hex_code_def is_digit_def char_code_def unat_eq_0)
qed

section \<open>Lists of numbers\<close>

fun comma_separated :: "nat list \<Rightarrow> string" where
  "comma_separated [] = []"
| "comma_separated [n] = to_string n"
| "comma_separated (n # m # ns) = to_string n @ '','' @ comma_separated (m # ns)"

text \<open>
  A list of numbers in the environment is read as it was written.\<close>

lemma numeral_token:
  "csv_tokens (to_string n) = [to_string n]" "csv_tokens (to_string n @ CHR '','' # rest) = to_string n # csv_tokens rest"
proof -
  have nc: "\<forall>c\<in>set (to_string n). c \<noteq> CHR '',''" using to_string_digits [of "CHR '',''" n] by (auto simp: is_digit_def char_code_def)
  have ne: "to_string n \<noteq> []" by simp
  have dw: "dropWhile (\<lambda>c. c \<noteq> CHR '','') (to_string n) = []" using nc unfolding dropWhile_eq_Nil_conv .
  show "csv_tokens (to_string n) = [to_string n]"
    using nc ne by (subst csv_tokens.simps) (simp add: csv_tokens.simps [of "[]"] dw)
  show "csv_tokens (to_string n @ CHR '','' # rest) = to_string n # csv_tokens rest"
    using nc ne by (subst csv_tokens.simps) (simp add: cpp_simps)
qed

lemma comma_tokens: "ns \<noteq> [] \<Longrightarrow> csv_tokens (comma_separated ns) = map to_string ns"
  by (induction ns rule: comma_separated.induct) (simp_all add: numeral_token)

lemma parse_list_round:
  assumes "\<forall>n\<in>set ns. n < 2 ^ 64" and "ns \<noteq> []"
  shows "parse_list cast (comma_separated ns) fallback = Inr (map cast ns)"
proof -
  have "parse_tokens cast (map to_string ns) = Inr (map cast ns)"
    using assms(1) by (induction ns) (simp_all add: stoull_def stoul_to_string)
  moreover have "comma_separated ns \<noteq> []" using assms(2) by (cases ns rule: comma_separated.cases) simp_all
  ultimately show ?thesis using assms(2) by (simp add: parse_list_def comma_tokens)
qed

section \<open>Fault injection\<close>

lemma choose_failures_spec:
  assumes "choose_failures wanted locs m d = (m', d')" and "distinct (map fst m)"
  shows "distinct (map fst m') \<and> (\<forall>a. set (pushed m' a) \<subseteq> set (pushed m a) \<union> {l. \<exists>loc\<in>set locs. split_location loc = Some (a, l)})"
  using assms
proof (induction wanted locs m d rule: choose_failures.induct)
  case (2 wanted loc rest m d)
  show ?case
  proof (cases "wanted \<le> d")
    case True
    then show ?thesis using 2 by auto
  next
    case False
    show ?thesis
    proof (cases "split_location loc")
      case None
      then show ?thesis using 2 False by fastforce
    next
      case (Some al)
      obtain a l where al: "split_location loc = Some (a, l)" using Some by (cases al) simp
      have c: "choose_failures wanted rest (um_push m a l) (Suc d) = (m', d')" using 2(3) False al by simp
      have "distinct (map fst m') \<and> (\<forall>b. set (pushed m' b) \<subseteq> set (pushed (um_push m a l) b) \<union>
          {l. \<exists>loc\<in>set rest. split_location loc = Some (b, l)})"
        using 2(2) [OF False al refl c] 2(4) by (simp add: distinct_um_push)
      moreover have "set (pushed (um_push m a l) b) \<subseteq> set (pushed m b) \<union> {l. split_location loc = Some (b, l)}" for b
        using al by (cases "b = a") auto
      ultimately show ?thesis unfolding list.set by blast
    qed
  qed
qed auto

text \<open>
  Injected faults are losses, of shards of that object.\<close>

lemma inject_loses:
  assumes lib: "libs_ok L D T" and v: "vault L D s A" and r: "inject_failures L s oid wanted = (r, s')"
  shows "(s' = s \<or> client_step L D s Ev_Loss s') \<and> (canonical_id L oid \<longrightarrow> confined L D {oid} s s')"
proof (cases "s' = s")
  case False
  obtain md m d where md: "MetadataStore_get (lb_pg L) (lb_msgpack L) (sc_catalog s) oid = Inr (Some md)"
    and m: "choose_failures (unat wanted) (md_shard_locations md) [] 0 = (m, d)"
    and s': "s' = s\<lparr>sc_cluster := remove_from_nodes (lb_send L) (lb_ord L) (sc_cluster s) m\<rparr>"
    using r False by (auto simp: inject_failures_def split: if_splits sum.splits option.splits prod.splits)
  have l: "lb_send L = cluster_send D (lb_json L) T" "order_ok (lb_ord L)" using lib by (simp_all add: libs_ok_def)
  have "tables_ok (lb_pg L) (sc_catalog s)" using v by (simp add: vault_def)
  note e = get_entry [OF this md]
  obtain ob :: stored_object and nodes where w: "well_placed md (md_id md) (so_token ob) nodes"
    using vault_entry [OF v conjunct2 [OF conjunct2 [OF e]]] intact_placed by blast
  have lp: "\<forall>loc\<in>set (md_shard_locations md). location_plain loc" using w placed_plain unfolding well_placed_def by metis
  note C = choose_failures_spec [OF m, simplified]
  have pl: "\<forall>(a, ls)\<in>set m. \<forall>l\<in>set ls. plain_location l"
  proof clarify
    fix a ls l assume "(a, ls) \<in> set m" "l \<in> set ls"
    then have "l \<in> set (pushed m a)" using C by (simp add: pushed_def)
    then obtain loc where "loc \<in> set (md_shard_locations md)" "split_location loc = Some (a, l)" using C by blast
    then show "plain_location l" using lp by (force simp: location_plain_def)
  qed
  note R = conjunct2 [OF cluster.remove_from_nodes_spec [OF l(2) conjunct1 [OF C] libs_ok_cluster [OF lib] pl refl],
      rule_format, of "sc_cluster s", folded l(1)]
  have "cluster_shards D (remove_from_nodes (lb_send L) (lb_ord L) (sc_cluster s) m) a l = cluster_shards D (sc_cluster s) a l \<or>
      cluster_shards D (remove_from_nodes (lb_send L) (lb_ord L) (sc_cluster s) m) a l = None" for a l
    using R [of a l] by (elim disjE) simp_all
  then have loss: "client_step L D s Ev_Loss s'" unfolding s' by (rule step_loss)
  have "writes_under (md_id md) (so_token ob) (cluster_shards D (sc_cluster s)) (cluster_shards D (sc_cluster s'))"
    unfolding writes_under_def s'
  proof (intro allI)
    fix a l
    have "\<exists>n. l = shard_key_of (md_id md) (so_token ob) n" if "l \<in> set (pushed m a)"
      using that C listed_key [OF w] by blast
    then show "cluster_shards D (sc_cluster (s\<lparr>sc_cluster := remove_from_nodes (lb_send L) (lb_ord L) (sc_cluster s) m\<rparr>)) a l =
        cluster_shards D (sc_cluster s) a l \<or> (\<exists>i. l = shard_key_of (md_id md) (so_token ob) i)"
      using R [of a l] by auto
  qed
  then have "confined L D {md_id md} s s'" by (rule confinedI) (simp add: s')
  then have "confined L D {oid} s s'" if "canonical_id L oid" using that e by (simp add: canonical_id_def)
  then show ?thesis using loss by blast
qed simp

inductive_cases store_step_lossE: "store_step K A Ev_Loss A'"

section \<open>The driver\<close>

abbreviation mismatch :: line where
  "mismatch \<equiv> Err ''  GET data mismatch''"

lemma no_mismatch:
  "mismatch \<notin> set (reported ''  PUT failed: '' r)" "mismatch \<notin> set (reported ''  GET failed: '' r)"
  "mismatch \<notin> set (reported ''  REPAIR failed: '' r)"
  by (auto simp: reported_def split: sum.splits if_splits)

lemma benchmark_run_sound:
  assumes lib: "libs_ok L D T" and v: "vault L D s A" and c: "canonical_id L (run_uuid i)" and d: "draws_ok L (bd_put draws)"
    and n: "A (run_uuid i) = None" and r: "benchmark_run L draws wanted i k m osize s = (r, out, s')"
  shows "mismatch \<notin> set out \<and> (\<exists>A'. vault L D s' A' \<and> (\<forall>u. u \<noteq> run_uuid i \<longrightarrow> A' u = A u)) \<and>
    confined L D {run_uuid i} s s'"
proof (cases "k = 0")
  case True
  then show ?thesis using r v by (auto simp: benchmark_run_def)
next
  case False
  let ?K = "pg_uuid (lb_pg L)" and ?id = "run_uuid i" and ?data = "bd_data draws (unat osize)"
  let ?spec = "\<lparr>data_shards = k, parity_shards = m, shard_size = (osize + ucast k - 1) div ucast k\<rparr>"
  have K: "?K ?id = Some ?id" using c by (simp add: canonical_id_def)
  have "entry (lb_msgpack L) (sc_catalog s) ?id = None" using v n by (metis not_Some_eq vault_entry)
  then have f: "fresh_token L (sc_catalog s) ?id (generateVersion (pd_version (bd_put draws)))" by (simp add: fresh_token_def)
  obtain rp s1 where p: "StorageClient_put L (bd_put draws) s ?id ?data ?spec = (rp, s1)" by fastforce
  obtain A1 where A1: "store_step ?K A (Ev_Put ?id ?data rp) A1" "vault L D s1 A1" "\<forall>u. u \<noteq> ?id \<longrightarrow> A1 u = A u"
    using step_refines [OF lib v step_put [OF p c d f]] K by auto
  have C1: "confined L D {?id} s s1" by (rule put_confined [OF lib v c p])
  show ?thesis
  proof (cases rp)
    case (Inl e)
    then show ?thesis using r p False A1 C1 by (auto simp: benchmark_run_def run_line_def Let_def no_mismatch)
  next
    case rp: (Inr x)
    obtain ob where ob: "A1 ?id = Some ob" "so_data ob = ?data" using A1(1) K unfolding rp by (auto elim: store_step_putE)
    obtain rg s2 where g: "StorageClient_get L (bd_get draws) s1 ?id = (rg, s2)" by fastforce
    have g_ok: "d = ?data" if "rg = Inr d" for d
      using get_returns [OF lib A1(2) g [unfolded that]] ob K by auto
    obtain A2 where A2: "vault L D s2 A2" "\<forall>u. A2 u = A1 u" using step_refines [OF lib A1(2) step_get [OF g]] by auto
    have "lb_send L = cluster_send D (lb_json L) T" using lib by (simp add: libs_ok_def)
    from cluster.get_read_only [OF this, where s = s1 and timing = "bd_get draws" and oid = ?id]
    have C2: "confined L D {?id} s s2"
      using g by (intro confined_trans [OF C1] read_only_confined) (simp_all add: read_only_def)
    obtain ri s3 where j: "(if 0 < wanted then inject_failures L s2 ?id wanted else (Inr 0, s2)) = (ri, s3)" by fastforce
    have J: "(s3 = s2 \<or> client_step L D s2 Ev_Loss s3) \<and> confined L D {?id} s2 s3"
      using inject_loses [OF lib A2(1), of ?id wanted ri s3] j c by (auto split: if_splits)
    then have A3: "vault L D s3 A2" using step_refines [OF lib A2(1)] store_step_lossE A2(1) by metis
    have C3: "confined L D {?id} s s3" using confined_trans [OF C2] J by blast
    obtain rr s4 where q: "StorageClient_repair L (bd_repair draws) (bd_repair_timing draws) s3 ?id = (rr, s4)" by fastforce
    obtain A4 where A4: "vault L D s4 A4" "\<forall>u. A4 u = A2 u" using step_refines [OF lib A3 step_repair [OF q c]] by auto
    have C4: "confined L D {?id} s s4" by (rule confined_trans [OF C3 repair_confined [OF lib A3 c q]])
    obtain rm s5 where x: "StorageClient_remove L s4 ?id = (rm, s5)" by fastforce
    obtain A5 where A5: "vault L D s5 A5" "\<forall>u. u \<noteq> ?id \<longrightarrow> A5 u = A4 u"
      using step_refines [OF lib A4(1) step_remove [OF x]] K by auto
    have C5: "confined L D {?id} s s5" by (rule confined_trans [OF C4 remove_confined [OF lib A4(1) c x]])
    have "mismatch \<notin> set out" using r p g j q x False g_ok rp
      by (auto simp: benchmark_run_def run_line_def Let_def no_mismatch split: sum.splits if_splits)
    moreover have "s' = s2 \<or> s' = s3 \<or> s' = s4 \<or> s' = s5" using r p g j q x False rp
      by (auto simp: benchmark_run_def Let_def split: sum.splits)
    ultimately show ?thesis using A1(3) A2 A3 A4 A5 C2 C3 C4 C5 by (intro conjI, simp) (metis, metis)
  qed
qed

text \<open>
  Many runs: the same with the ids of all of them.\<close>

lemma benchmark_loop_sound:
  assumes "libs_ok L D T" and "vault L D s A" and "benchmark_loop L draws wanted i runs s = (r, out, s')"
    and "\<forall>j<length runs. canonical_id L (run_uuid (i + j)) \<and> draws_ok L (bd_put (draws (i + j))) \<and> A (run_uuid (i + j)) = None"
  shows "mismatch \<notin> set out \<and> (\<exists>A'. vault L D s' A' \<and> (\<forall>u. u \<notin> run_uuid ` {i..<i + length runs} \<longrightarrow> A' u = A u)) \<and>
    confined L D (run_uuid ` {i..<i + length runs}) s s'"
  using assms(2-4)
proof (induction runs arbitrary: i s A out)
  case Nil
  then show ?case by auto
next
  case (Cons run rest)
  let ?U = "run_uuid ` {i..<i + length (run # rest)}" and ?V = "run_uuid ` {Suc i..<Suc i + length rest}"
  have "{i..<i + length (run # rest)} = insert i {Suc i..<Suc i + length rest}" by auto
  then have UV: "?U = insert (run_uuid i) ?V" by (simp only: image_insert)
  obtain k m osize where run: "run = (k, m, osize)" by (cases run)
  obtain r1 out1 s1 where b: "benchmark_run L (draws i) wanted i k m osize s = (r1, out1, s1)" by (metis prod.exhaust)
  have now: "canonical_id L (run_uuid i)" "draws_ok L (bd_put (draws i))" "A (run_uuid i) = None"
    using Cons.prems(3) [rule_format, of 0] by simp_all
  obtain A1 where A1: "mismatch \<notin> set out1" "vault L D s1 A1" "\<forall>u. u \<noteq> run_uuid i \<longrightarrow> A1 u = A u"
    and C1: "confined L D {run_uuid i} s s1"
    using benchmark_run_sound [OF assms(1) Cons.prems(1) now b] by blast
  have C1': "confined L D ?U s s1" by (rule confined_mono [OF C1]) (auto simp: UV)
  show ?case
  proof (cases r1)
    case (Inl e)
    then have "out = out1" "s' = s1" using Cons.prems(2) b by (simp_all add: run)
    then show ?thesis using A1 C1' UV by auto
  next
    case (Inr x)
    obtain out2 where o: "benchmark_loop L draws wanted (Suc i) rest s1 = (r, out2, s')" "out = out1 @ out2"
      using Cons.prems(2) b Inr by (auto simp: run split: prod.splits)
    have later: "\<forall>j<length rest. canonical_id L (run_uuid (Suc i + j)) \<and> draws_ok L (bd_put (draws (Suc i + j))) \<and>
        A1 (run_uuid (Suc i + j)) = None"
    proof (intro allI impI)
      fix j assume "j < length rest"
      then show "canonical_id L (run_uuid (Suc i + j)) \<and> draws_ok L (bd_put (draws (Suc i + j))) \<and> A1 (run_uuid (Suc i + j)) = None"
        using Cons.prems(3) [rule_format, of "Suc j"] A1(3) by (simp add: run_uuid_inj)
    qed
    obtain A2 where A2: "mismatch \<notin> set out2" "vault L D s' A2" "\<forall>u. u \<notin> ?V \<longrightarrow> A2 u = A1 u" and C2: "confined L D ?V s1 s'"
      using Cons.IH [OF A1(2) o(1) later] by blast
    have "confined L D ?U s s'" by (rule confined_trans [OF C1' confined_mono [OF C2]]) (auto simp: UV)
    moreover have "\<forall>u. u \<notin> ?U \<longrightarrow> A2 u = A u" using A1(3) A2(3) unfolding UV by simp
    ultimately show ?thesis using A1(1) A2(1,2) o(2) by auto
  qed
qed

lemma run_uuid_no_slash: "CHR ''/'' \<notin> set (run_uuid i)"
proof -
  have "list_all (\<lambda>d. hex_digit (word_of_nat d) \<noteq> CHR ''/'') [0..<16]" by code_simp
  then have "CHR ''/'' \<notin> set (hex_string n)" for n using hex_digits_lt [of _ n] by (auto simp: hex_string_def list_all_iff)
  then show ?thesis by (simp add: run_uuid_def zero_padded_def)
qed

text \<open>
  C20: The benchmark driver over any number of runs, with any faults injected, from a client whose
  catalog and nodes hold an abstract store: it never reads bytes other than those it has put; what
  it leaves behind is again such a store, with the same objects but for its own run ids; and it
  touches nothing else: on every node it writes and deletes under the keys of its own ids only, so
  that every other object keeps its catalog entry and, at each listed location, the same bytes.
\<close>

theorem benchmark_sound:
  assumes "libs_ok L D T" and "vault L D s A" and "benchmark_loop L draws wanted i runs s = (r, out, s')"
    and "\<forall>j<length runs. canonical_id L (run_uuid (i + j)) \<and> draws_ok L (bd_put (draws (i + j))) \<and> A (run_uuid (i + j)) = None"
  defines "ids \<equiv> run_uuid ` {i..<i + length runs}"
  shows "mismatch \<notin> set out \<and>
    (\<exists>A'. vault L D s' A' \<and> (\<forall>u. u \<notin> ids \<longrightarrow> A' u = A u)) \<and>
    (\<forall>a l. cluster_shards D (sc_cluster s') a l = cluster_shards D (sc_cluster s) a l \<or>
       (\<exists>u\<in>ids. \<exists>ver n. l = shard_key_of u ver n)) \<and>
    (\<forall>u md. u \<notin> ids \<and> entry (lb_msgpack L) (sc_catalog s) u = Some md \<longrightarrow>
       entry (lb_msgpack L) (sc_catalog s') u = Some md \<and>
       (\<forall>loc\<in>set (md_shard_locations md).
          stored_bytes (cluster_shards D (sc_cluster s')) loc = stored_bytes (cluster_shards D (sc_cluster s)) loc))"
proof -
  note S = benchmark_loop_sound [OF assms(1-4), folded ids_def]
  have c: "confined L D ids s s'" using S by blast
  have "\<forall>u\<in>ids. CHR ''/'' \<notin> set u" using run_uuid_no_slash by (auto simp: ids_def)
  note B = confined_bystander [OF assms(2) c this]
  have "\<forall>a l. cluster_shards D (sc_cluster s') a l = cluster_shards D (sc_cluster s) a l \<or>
       (\<exists>u\<in>ids. \<exists>ver n. l = shard_key_of u ver n)" using c by (simp add: confined_def)
  moreover have "\<forall>u md. u \<notin> ids \<and> entry (lb_msgpack L) (sc_catalog s) u = Some md \<longrightarrow>
       entry (lb_msgpack L) (sc_catalog s') u = Some md \<and>
       (\<forall>loc\<in>set (md_shard_locations md).
          stored_bytes (cluster_shards D (sc_cluster s')) loc = stored_bytes (cluster_shards D (sc_cluster s)) loc)"
    using B by blast
  ultimately show ?thesis using S by blast
qed

section \<open>The list sweep\<close>

text \<open>The catalogs \<open>c\<close> and \<open>c'\<close> agree outside \<open>ids\<close>.\<close>

definition agree_outside :: "string set \<Rightarrow> (string \<Rightarrow> 'a) \<Rightarrow> (string \<Rightarrow> 'a) \<Rightarrow> bool" where
  "agree_outside ids c c' \<longleftrightarrow> (\<forall>u. u \<notin> ids \<longrightarrow> c' u = c u)"

lemma put_each_effect:
  assumes "postgres_ok P"
  shows "put_each P M shards t ids = (r, t') \<Longrightarrow> tables_ok P t \<Longrightarrow> \<forall>u\<in>set ids. pg_uuid P u = Some u \<Longrightarrow>
    tables_ok P t' \<and> t_nodes t' = t_nodes t \<and> agree_outside (set ids) (catalog t) (catalog t')"
proof (induction ids arbitrary: t)
  case (Cons u ids)
  obtain r1 t1 where p: "MetadataStore_put P M t (make_metadata u shards) = (r1, t1)" by fastforce
  have ok: "tables_ok P t1" by (rule store_write_ok [OF assms Cons.prems(2) write_put [OF p]])
  have id: "md_id (make_metadata u shards) = u" by (simp add: make_metadata_def)
  have rep: "catalog (replaced t u (row_of M md u v) ls) = (catalog t)(u \<mapsto> (row_of M md u v, ls))" for md v ls
    by (rule catalog_replaced) (simp add: row_of_def)
  have eff: "t_nodes t1 = t_nodes t \<and> agree_outside {u} (catalog t) (catalog t1)"
    using put_cases [OF Cons.prems(2) p] Cons.prems(3) unfolding id agree_outside_def
    by (elim disjE exE) (auto simp: rep, simp_all add: replaced_def)
  show ?case
  proof (cases r1)
    case (Inl e)
    then show ?thesis using Cons.prems(1) p ok eff by (simp add: agree_outside_def)
  next
    case (Inr x)
    then have "put_each P M shards t1 ids = (r, t')" using Cons.prems(1) p by simp
    from Cons.IH [OF this ok] Cons.prems(3) eff show ?thesis by (auto simp: agree_outside_def)
  qed
qed (simp add: agree_outside_def)

lemma remove_each_effect:
  shows "remove_each P t ids = (r, t') \<Longrightarrow> tables_ok P t \<Longrightarrow> \<forall>u\<in>set ids. pg_uuid P u = Some u \<Longrightarrow>
    tables_ok P t' \<and> t_nodes t' = t_nodes t \<and> agree_outside (set ids) (catalog t) (catalog t') \<and>
    (is_ok r \<longrightarrow> (\<forall>u\<in>set ids. catalog t' u = None))"
proof (induction ids arbitrary: t)
  case (Cons u ids)
  obtain r1 t1 where p: "MetadataStore_remove P t u = (r1, t1)" by fastforce
  have eff: "tables_ok P t1 \<and> t_nodes t1 = t_nodes t \<and> agree_outside {u} (catalog t) (catalog t1) \<and> (is_ok r1 \<longrightarrow> catalog t1 u = None)"
  proof (cases "sql_remove P t u")
    case (Inl e)
    then show ?thesis using p Cons.prems(2) by (auto simp: MetadataStore_remove_def agree_outside_def)
  next
    case (Inr x)
    obtain n t2 where x: "sql_remove P t u = Inr (n, t2)" using Inr by (cases x) simp
    have "t1 = t2 \<or> t1 = t \<and> \<not> is_ok r1" using p x commit_outcomes by (fastforce simp: MetadataStore_remove_def)
    then show ?thesis using remove_transaction_spec [OF Cons.prems(2) x] Cons.prems(2,3) by (auto simp: agree_outside_def)
  qed
  show ?case
  proof (cases r1)
    case (Inl e)
    then show ?thesis using Cons.prems(1) p eff by (auto simp: agree_outside_def)
  next
    case (Inr x)
    then have "remove_each P t1 ids = (r, t')" using Cons.prems(1) p by simp
    note IH = Cons.IH [OF this conjunct1 [OF eff]]
    then have "catalog t' u = None" if "is_ok r" using eff Inr that Cons.prems(3) by (cases "u \<in> set ids") (auto simp: agree_outside_def)
    then show ?thesis using IH eff Cons.prems(3) by (auto simp: agree_outside_def)
  qed
qed (simp add: agree_outside_def)

lemma sorted_le_last: "sorted xs \<Longrightarrow> x \<in> set xs \<Longrightarrow> x \<le> last xs"
  by (induction xs) auto

lemma list_ids_mono: "b \<le> c \<Longrightarrow> set (list_ids a b) \<subseteq> set (list_ids 0 c)"
  by (auto simp: list_ids_def)

lemma sweep_loop_effect:
  assumes "postgres_ok P"
  shows "sweep_loop P M shards clock i inserted targets t = (r, rows, t') \<Longrightarrow> tables_ok P t \<Longrightarrow> \<forall>n\<in>set targets. n \<le> upto_n \<Longrightarrow>
    \<forall>u\<in>set (list_ids 0 upto_n). pg_uuid P u = Some u \<Longrightarrow>
    tables_ok P t' \<and> t_nodes t' = t_nodes t \<and> agree_outside (set (list_ids 0 upto_n)) (catalog t) (catalog t') \<and>
    length rows \<le> length targets \<and> (is_ok r \<longrightarrow> length rows = length targets)"
proof (induction targets arbitrary: i inserted t rows)
  case (Cons target targets)
  obtain r1 t1 where p: "put_each P M shards t (list_ids inserted target) = (r1, t1)" by fastforce
  have sub: "set (list_ids inserted target) \<subseteq> set (list_ids 0 upto_n)" using Cons.prems(3) by (intro list_ids_mono) simp
  then have P1: "tables_ok P t1" "t_nodes t1 = t_nodes t" "agree_outside (set (list_ids 0 upto_n)) (catalog t) (catalog t1)"
    using put_each_effect [OF assms p Cons.prems(2)] Cons.prems(4) by (auto simp: agree_outside_def)
  consider "rows = []" "t' = t1" "\<not> is_ok r" | rows2 n where
    "sweep_loop P M shards clock (Suc i) (max inserted target) targets t1 = (r, rows2, t')" "rows = (n, shards, clock i) # rows2"
    using Cons.prems(1) p by (auto split: sum.splits prod.splits)
  then show ?case
  proof cases
    case 2
    from Cons.IH [OF 2(1) P1(1)] Cons.prems(3,4) P1 2(2) show ?thesis by (auto simp: agree_outside_def)
  qed (use P1 in simp)
qed (simp add: agree_outside_def)

lemma list_sweep_cleans_up:
  assumes "postgres_ok P" and "tables_ok P t"
    and "parse_list (\<lambda>n. n) (env_or env ''META_LIST_SIZES'' []) [10, 50, 100, 250, 500, 1000] = Inr sizes"
    and "\<forall>n\<in>set sizes. \<forall>u\<in>set (list_ids 0 n). pg_uuid P u = Some u \<and> catalog t u = None"
    and "run_list_sweep P M env clock can_open open_store t = (Inr (), rows, t')"
  shows "tables_ok P t' \<and> catalog t' = catalog t \<and> t_nodes t' = t_nodes t \<and> length rows = length sizes"
proof -
  let ?targets = "sort sizes" and ?mx = "if sort sizes = [] then 0 else last (sort sizes)"
  have mx: "\<forall>n\<in>set ?targets. n \<le> ?mx"
  proof
    fix n assume n: "n \<in> set ?targets"
    then have "?targets \<noteq> []" by (metis empty_iff list.set(1))
    then show "n \<le> ?mx" using sorted_le_last [of ?targets n] n by simp
  qed
  have ids: "\<forall>u\<in>set (list_ids 0 ?mx). pg_uuid P u = Some u \<and> catalog t u = None"
    using assms(4) last_in_set [of "sort sizes"] by (auto simp: list_ids_def)
  obtain shards t1 where l: "sweep_loop P M shards clock 0 0 ?targets t = (Inr (), rows, t1)"
    "remove_each P t1 (list_ids 0 ?mx) = (Inr (), t')"
    using assms(5) unfolding run_list_sweep_def assms(3)
    by (auto simp: Let_def split: sum.splits prod.splits if_splits)
  note S = sweep_loop_effect [OF assms(1) l(1) assms(2) mx]
  have S': "tables_ok P t1 \<and> t_nodes t1 = t_nodes t \<and> agree_outside (set (list_ids 0 ?mx)) (catalog t) (catalog t1) \<and> length rows = length sizes"
    using S ids by auto
  note R = remove_each_effect [OF l(2) conjunct1 [OF S']]
  have "catalog t' u = catalog t u" for u
    using R S' ids by (cases "u \<in> set (list_ids 0 ?mx)") (auto simp: agree_outside_def)
  then show ?thesis using R S' ids by auto
qed

section \<open>The throughput runs\<close>

lemma worker_index_less:
  assumes "dataset \<noteq> 0"
  shows "unat (worker_index dataset tid i) < unat dataset"
proof -
  have "0 < unat dataset" using assms by (simp add: unat_gt_0)
  then show ?thesis by (simp only: worker_index_def unat_mod mod_less_divisor)
qed

lemma worker_ids_in_dataset:
  assumes "worker_ids ops dataset tid = Inr ids"
  shows "length ids = unat ops \<and> set ids \<subseteq> set (throughput_ids dataset)"
proof -
  have ids: "ids = map (\<lambda>i. make_uuid kThroughputGroup (ucast (worker_index dataset tid (word_of_nat i)))) [0..<unat ops]"
    and d: "ops \<noteq> 0 \<longrightarrow> dataset \<noteq> 0"
    using assms unfolding worker_ids_def by (metis sum.distinct(1) sum.inject(2))+
  have "u \<in> set (throughput_ids dataset)" if u: "u \<in> set ids" for u
  proof -
    obtain i where i: "i < unat ops" "u = make_uuid kThroughputGroup (ucast (worker_index dataset tid (word_of_nat i)))"
      using u unfolding ids by auto
    let ?x = "worker_index dataset tid (word_of_nat i)"
    have "unat ?x < unat dataset" using i(1) d by (intro worker_index_less) auto
    moreover have "u = make_uuid kThroughputGroup (word_of_nat (unat ?x))" unfolding i(2) of_nat_unat ..
    ultimately show ?thesis unfolding throughput_ids_def set_map set_upt by (intro image_eqI [of _ _ "unat ?x"]) simp_all
  qed
  then show ?thesis unfolding ids by auto
qed

lemma throughput_cleans_up:
  assumes "postgres_ok P" and "tables_ok P t"
    and "env_uint env ''META_DATASET'' 200 = Inr dataset"
    and ids: "\<forall>u\<in>set (throughput_ids dataset). pg_uuid P u = Some u \<and> catalog t u = None"
    and "run_throughput P M env durations can_open open_setup open_store open_cleanup t = (Inr (), rows, t')"
  shows "tables_ok P t' \<and> catalog t' = catalog t \<and> t_nodes t' = t_nodes t"
proof -
  obtain shards t1 where l: "put_each P M shards t (throughput_ids dataset) = (Inr (), t1)"
    "remove_each P t1 (throughput_ids dataset) = (Inr (), t')"
    using assms(5) unfolding run_throughput_def assms(3)
    by (auto split: sum.splits prod.splits if_splits)
  have S: "tables_ok P t1 \<and> t_nodes t1 = t_nodes t \<and> agree_outside (set (throughput_ids dataset)) (catalog t) (catalog t1)"
    using put_each_effect [OF assms(1) l(1) assms(2)] ids by simp
  note R = remove_each_effect [OF l(2) conjunct1 [OF S]]
  have "catalog t' u = catalog t u" for u
    using R S ids by (cases "u \<in> set (throughput_ids dataset)") (auto simp: agree_outside_def)
  then show ?thesis using R S ids by auto
qed

text \<open>
  C21: The metadata benchmark, in any mode and with any sizes from the environment, when it exits with
  code 0 and none of its ids is in use, leaves the catalog and the node list as it found them; a
  list sweep has then written one row per size.
\<close>

theorem metadata_benchmark_cleans_up:
  assumes "postgres_ok P" and "tables_ok P t"
    and "parse_list (\<lambda>n. n) (env_or env ''META_LIST_SIZES'' []) [10, 50, 100, 250, 500, 1000] = Inr sizes"
    and "\<forall>n\<in>set sizes. \<forall>u\<in>set (list_ids 0 n). pg_uuid P u = Some u \<and> catalog t u = None"
    and "env_uint env ''META_DATASET'' 200 = Inr dataset"
    and "\<forall>u\<in>set (throughput_ids dataset). pg_uuid P u = Some u \<and> catalog t u = None"
    and "metadata_benchmark_main P M env w t = (Exited 0, out, rows, trows, t')"
  shows "catalog t' = catalog t \<and> t_nodes t' = t_nodes t \<and> tables_ok P t' \<and>
    (env_or env ''META_BENCH_MODE'' ''all'' \<in> {''list'', ''all''} \<longrightarrow> length rows = length sizes)"
proof -
  let ?mode = "env_or env ''META_BENCH_MODE'' ''all''"
  let ?l = "?mode = ''list'' \<or> ?mode = ''all''" and ?t = "?mode = ''throughput'' \<or> ?mode = ''all''"
  obtain t1 where l: "(if ?l then run_list_sweep P M env (mw_list_times w) (mw_list_csv w) (mw_list_store w) t else (Inr (), [], t)) =
      (Inr (), rows, t1)"
    and tp: "(if ?t then run_throughput P M env (mw_durations w) (mw_throughput_csv w) (mw_setup w) (mw_stores w) (mw_cleanup w) t1
      else (Inr (), [], t1)) = (Inr (), trows, t')"
    using assms(7) unfolding metadata_benchmark_main_def Let_def
    by (simp split: sum.splits prod.splits failure.splits add: unit_eq)
  have L: "tables_ok P t1 \<and> catalog t1 = catalog t \<and> t_nodes t1 = t_nodes t \<and> (?l \<longrightarrow> length rows = length sizes)"
  proof (cases ?l)
    case True
    then show ?thesis using list_sweep_cleans_up [OF assms(1-4)] l by simp
  next
    case False
    then show ?thesis using l assms(2) by simp
  qed
  have "tables_ok P t' \<and> catalog t' = catalog t1 \<and> t_nodes t' = t_nodes t1"
  proof (cases ?t)
    case True
    then show ?thesis using throughput_cleans_up [OF assms(1) conjunct1 [OF L] assms(5)] assms(6) L tp by simp
  next
    case False
    then show ?thesis using tp L by simp
  qed
  then show ?thesis using L by simp
qed

end
