(* ===== verification/Programs_Witnesses.thy ===== *)
theory Programs_Witnesses
  imports Programs_Properties
begin

text \<open>
  Concrete runs of the two drivers on the reference libraries: one run of the benchmark with an
  injected fault, beside a stored object, and a metadata benchmark with two sizes, two threads and two reads each.
\<close>

section \<open>Witnesses\<close>

definition bench_draws :: benchmark_draws where
  "bench_draws = \<lparr>bd_data = (\<lambda>n. replicate n 7), bd_put = draws0, bd_get = zero_timing,
     bd_repair = \<lparr>rd_nonces = (\<lambda>i. replicate 12 8), rd_version = [9], rd_now = 1\<rparr>, bd_repair_timing = zero_timing\<rparr>"

text \<open>
  A run beside a stored object: nothing but the run's own keys is touched, and the object stays listed.\<close>

theorem benchmark_sound_witness:
  "let s' = snd (snd (benchmark_loop ref_libs (\<lambda>i. bench_draws) 1 0 [(2, 1, 3)] client1)) in
   mismatch \<notin> set (fst (snd (benchmark_loop ref_libs (\<lambda>i. bench_draws) 1 0 [(2, 1, 3)] client1))) \<and>
   (\<exists>md. entry (lb_msgpack ref_libs) (sc_catalog s') oid0 = Some md \<and> md_shard_locations md \<noteq> [] \<and>
     (\<forall>loc\<in>set (md_shard_locations md).
        stored_bytes (cluster_shards ref_lmdb (sc_cluster s')) loc = stored_bytes (cluster_shards ref_lmdb (sc_cluster client1)) loc))"
proof -
  obtain r out s' where b: "benchmark_loop ref_libs (\<lambda>i. bench_draws) 1 0 [(2, 1, 3)] client1 = (r, out, s')"
    by (metis prod.exhaust)
  obtain A where A: "vault ref_libs ref_lmdb client1 A" "\<And>u. u \<noteq> oid0 \<Longrightarrow> A u = None"
    and md: "\<exists>md ob. entry (lb_msgpack ref_libs) (sc_catalog client1) oid0 = Some md \<and> md_shard_locations md \<noteq> []"
  proof -
    from put_effect [OF libs_ok_ref vault0 put1_step(2-4,1)] obtain A ob md where
      x: "vault ref_libs ref_lmdb client1 A" "\<forall>u. u \<noteq> oid0 \<longrightarrow> A u = None"
      "entry (lb_msgpack ref_libs) (sc_catalog client1) oid0 = Some md"
      "held ref_libs (cluster_shards ref_lmdb (sc_cluster client1)) md ob = {..<total_shards spec2}"
      by auto
    have "0 \<in> held ref_libs (cluster_shards ref_lmdb (sc_cluster client1)) md ob" unfolding x(4) by (simp add: total_shards_def)
    then have "md_shard_locations md \<noteq> []" by (auto simp: held_def)
    then show thesis using x that by blast
  qed
  have id: "run_uuid 0 \<noteq> oid0" by code_simp
  have "canonical_id ref_libs (run_uuid 0)" by code_simp
  moreover have "draws_ok ref_libs (bd_put bench_draws)" using put1_step(3) by (simp add: bench_draws_def)
  ultimately have h: "\<forall>j<length [(2 :: 32 word, 1 :: 32 word, 3 :: 64 word)]. canonical_id ref_libs (run_uuid (0 + j)) \<and>
      draws_ok ref_libs (bd_put bench_draws) \<and> A (run_uuid (0 + j)) = None"
    using A(2) [OF id] by simp
  have ids: "run_uuid ` {0..<0 + length [(2 :: 32 word, 1 :: 32 word, 3 :: 64 word)]} = {run_uuid 0}" by simp
  note S = benchmark_sound [OF libs_ok_ref A(1) b h, unfolded ids]
  obtain md where md: "entry (lb_msgpack ref_libs) (sc_catalog client1) oid0 = Some md" "md_shard_locations md \<noteq> []"
    using md by blast
  have "oid0 \<notin> {run_uuid 0}" using id by simp
  with md(1) have "entry (lb_msgpack ref_libs) (sc_catalog s') oid0 = Some md \<and> (\<forall>loc\<in>set (md_shard_locations md).
      stored_bytes (cluster_shards ref_lmdb (sc_cluster s')) loc = stored_bytes (cluster_shards ref_lmdb (sc_cluster client1)) loc)"
    by (intro S [THEN conjunct2, THEN conjunct2, THEN conjunct2, rule_format] conjI)
  then show ?thesis unfolding b Let_def fst_conv snd_conv using md(2) S [THEN conjunct1] by (intro conjI exI [of _ md]) simp_all
qed

abbreviation env1 :: environment where
  "env1 \<equiv> [''META_LIST_SIZES'' \<mapsto> ''2,1'', ''META_LIST_SHARDS'' \<mapsto> ''1'', ''META_DATASET'' \<mapsto> ''2'', ''META_TP_SHARDS'' \<mapsto> ''1'',
     ''META_POOL_SIZES'' \<mapsto> ''1'', ''META_THREADS'' \<mapsto> ''2'', ''META_OPS_PER_THREAD'' \<mapsto> ''2'']"

abbreviation world1 :: metadata_benchmark_world where
  "world1 \<equiv> \<lparr>mw_list_times = (\<lambda>i. (0, 0)), mw_list_csv = True, mw_list_store = Inr (), mw_durations = (\<lambda>i. 1000),
     mw_throughput_csv = True, mw_setup = Inr (), mw_stores = (\<lambda>i. Inr ()), mw_cleanup = Inr ()\<rparr>"

lemma bench1:
  "case metadata_benchmark_main ref_pg ref_msgpack env1 world1 tables1 of (r, out, rows, trows, t) \<Rightarrow>
     r = Exited 0 \<and> length rows = 2 \<and> map tr_total_ops trows = [4]"
  by code_simp

lemma bench1_ids:
  "parse_list (\<lambda>n. n) (env_or env1 ''META_LIST_SIZES'' []) [10, 50, 100, 250, 500, 1000] = Inr [2, 1]"
  "\<forall>n\<in>set [2, 1]. \<forall>u\<in>set (list_ids 0 n). pg_uuid ref_pg u = Some u \<and> catalog tables1 u = None"
  "env_uint env1 ''META_DATASET'' 200 = Inr 2"
  "\<forall>u\<in>set (throughput_ids 2). pg_uuid ref_pg u = Some u \<and> catalog tables1 u = None"
  by code_simp+

theorem metadata_benchmark_cleans_up_witness:
  "case metadata_benchmark_main ref_pg ref_msgpack env1 world1 tables1 of (r, out, rows, trows, t) \<Rightarrow>
     r = Exited 0 \<and> length rows = 2 \<and> map tr_total_ops trows = [4] \<and> catalog t = catalog tables1"
proof -
  obtain r out rows trows t where b: "metadata_benchmark_main ref_pg ref_msgpack env1 world1 tables1 = (r, out, rows, trows, t)"
    by (metis prod.exhaust)
  then have r: "r = Exited 0" "length rows = 2" "map tr_total_ops trows = [4]" using bench1 by simp_all
  show ?thesis
    using metadata_benchmark_cleans_up [OF postgres_ok_ref tables_ok1 bench1_ids b [unfolded r(1)]] r unfolding b by simp
qed

end
