(* ===== verification/Connection_Pool.thy ===== *)
theory Connection_Pool
  imports Metadata_Store
begin

text \<open>
  The connection pool of \<open>MetadataStore\<close>: the constructor, \<open>acquire\<close> and \<open>release\<close>, and the threads
  that use it. A connection is its index in \<open>connections_\<close>. Connecting, creating the schema and
  preparing the statements are calls of libpqxx that may throw, given as arguments.
\<close>

section \<open>The operations\<close>

record pool =
  pl_connections :: "nat list"
  pl_available :: "nat list"

fun open_connections ::
    "(nat \<Rightarrow> unit res) \<Rightarrow> unit res \<Rightarrow> (nat \<Rightarrow> unit res) \<Rightarrow> nat list \<Rightarrow> pool \<Rightarrow> pool res" where
  "open_connections connect schema prepare [] p = Inr p"
| "open_connections connect schema prepare (i # rest) p =
     bind_res (connect i) (\<lambda>_.
     bind_res (if i = 0 then schema else Inr ()) (\<lambda>_.
     bind_res (prepare i) (\<lambda>_.
       open_connections connect schema prepare rest
         (p\<lparr>pl_available := pl_available p @ [i], pl_connections := pl_connections p @ [i]\<rparr>))))"

definition MetadataStore_open ::
    "(nat \<Rightarrow> unit res) \<Rightarrow> unit res \<Rightarrow> (nat \<Rightarrow> unit res) \<Rightarrow> nat \<Rightarrow> pool res" where
  "MetadataStore_open connect schema prepare pool_size =
     open_connections connect schema prepare [0..<max 1 pool_size] \<lparr>pl_connections = [], pl_available = []\<rparr>"

text \<open>\<open>None\<close>: the predicate of the wait is false, the caller goes to sleep.\<close>

definition pool_acquire :: "pool \<Rightarrow> (nat \<times> pool) option" where
  "pool_acquire p = (case pl_available p of
     [] \<Rightarrow> None
   | conn # rest \<Rightarrow> Some (conn, p\<lparr>pl_available := rest\<rparr>))"

definition pool_release :: "nat \<Rightarrow> pool \<Rightarrow> pool" where
  "pool_release conn p = p\<lparr>pl_available := pl_available p @ [conn]\<rparr>"

section \<open>Threads\<close>

text \<open>
  Where a thread is: outside the pool; asleep on \<open>pool_cv_\<close>; woken and about to test the predicate
  again; holding a \<open>PooledConnection\<close>; between giving the connection back and \<open>notify_one\<close>, which
  is called after the lock is released.
\<close>

datatype thread = Outside | Asleep | Woken | Holding nat | Notifying

record pool_system =
  ps_pool :: pool
  ps_threads :: "nat \<Rightarrow> thread"

text \<open>
  One step of one thread. What happens under \<open>pool_mu_\<close> is one step. \<open>notify_one\<close> wakes one sleeper,
  whichever, or none when none sleeps; a sleeper may also wake for no reason.
\<close>

inductive pool_step :: "pool_system \<Rightarrow> pool_system \<Rightarrow> bool" where
  step_acquire: "ps_threads s i \<in> {Outside, Woken} \<Longrightarrow> pool_acquire (ps_pool s) = Some (conn, p) \<Longrightarrow>
    pool_step s (s\<lparr>ps_pool := p, ps_threads := (ps_threads s)(i := Holding conn)\<rparr>)"
| step_sleep: "ps_threads s i \<in> {Outside, Woken} \<Longrightarrow> pool_acquire (ps_pool s) = None \<Longrightarrow>
    pool_step s (s\<lparr>ps_threads := (ps_threads s)(i := Asleep)\<rparr>)"
| step_release: "ps_threads s i = Holding conn \<Longrightarrow>
    pool_step s (s\<lparr>ps_pool := pool_release conn (ps_pool s), ps_threads := (ps_threads s)(i := Notifying)\<rparr>)"
| step_notify: "ps_threads s i = Notifying \<Longrightarrow> ps_threads s j = Asleep \<Longrightarrow>
    pool_step s (s\<lparr>ps_threads := (ps_threads s)(i := Outside, j := Woken)\<rparr>)"
| step_notify_none: "ps_threads s i = Notifying \<Longrightarrow> \<forall>j. ps_threads s j \<noteq> Asleep \<Longrightarrow>
    pool_step s (s\<lparr>ps_threads := (ps_threads s)(i := Outside)\<rparr>)"
| step_spurious: "ps_threads s j = Asleep \<Longrightarrow> pool_step s (s\<lparr>ps_threads := (ps_threads s)(j := Woken)\<rparr>)"

inductive_cases pool_stepE: "pool_step s s'"

inductive pool_reachable :: "pool \<Rightarrow> pool_system \<Rightarrow> bool" for p where
  reach_start: "pool_reachable p \<lparr>ps_pool = p, ps_threads = (\<lambda>i. Outside)\<rparr>"
| reach_step: "pool_reachable p s \<Longrightarrow> pool_step s s' \<Longrightarrow> pool_reachable p s'"

section \<open>The invariant\<close>

definition held :: "(nat \<Rightarrow> thread) \<Rightarrow> nat set" where
  "held th = {conn. \<exists>i. th i = Holding conn}"

definition one_holder :: "(nat \<Rightarrow> thread) \<Rightarrow> bool" where
  "one_holder th \<longleftrightarrow> (\<forall>i j conn. th i = Holding conn \<longrightarrow> th j = Holding conn \<longrightarrow> i = j)"

definition waking :: "(nat \<Rightarrow> thread) \<Rightarrow> nat set" where
  "waking th = {i. th i = Woken \<or> th i = Notifying}"

text \<open>Every connection is available or held, and held by one thread only.\<close>

definition pool_owned :: "pool_system \<Rightarrow> bool" where
  "pool_owned s \<longleftrightarrow> distinct (pl_available (ps_pool s)) \<and>
     set (pl_available (ps_pool s)) \<inter> held (ps_threads s) = {} \<and>
     set (pl_available (ps_pool s)) \<union> held (ps_threads s) = set (pl_connections (ps_pool s)) \<and>
     one_holder (ps_threads s)"

text \<open>While a thread sleeps, no more connections are available than threads are about to wake or be woken.\<close>

definition pool_awake :: "pool_system \<Rightarrow> bool" where
  "pool_awake s \<longleftrightarrow> finite (waking (ps_threads s)) \<and>
     ((\<exists>i. ps_threads s i = Asleep) \<longrightarrow> length (pl_available (ps_pool s)) \<le> card (waking (ps_threads s)))"

lemma open_connections_spec:
  "open_connections connect schema prepare ids p = Inr p' \<Longrightarrow>
   pl_available p' = pl_available p @ ids \<and> pl_connections p' = pl_connections p @ ids"
proof (induction ids arbitrary: p)
  case (Cons i rest)
  then show ?case by (auto split: if_splits)
qed simp

lemma MetadataStore_open_spec:
  "MetadataStore_open connect schema prepare n = Inr p \<Longrightarrow>
   pl_available p = [0..<max 1 n] \<and> pl_connections p = [0..<max 1 n]"
  by (auto simp: MetadataStore_open_def dest: open_connections_spec)

lemma acquire_Some:
  "pool_acquire p = Some (conn, p') \<longleftrightarrow> (\<exists>rest. pl_available p = conn # rest \<and> p' = p\<lparr>pl_available := rest\<rparr>)"
  by (cases "pl_available p") (auto simp: pool_acquire_def)

lemma acquire_None: "pool_acquire p = None \<longleftrightarrow> pl_available p = []"
  by (simp add: pool_acquire_def split: list.splits)

text \<open>
  How a thread's move changes the sets the invariant speaks of.\<close>

lemma held_free [simp]: "\<forall>c. th k \<noteq> Holding c \<Longrightarrow> \<forall>c. v \<noteq> Holding c \<Longrightarrow> held (th(k := v)) = held th"
  by (auto simp: held_def)

lemma held_take [simp]: "\<forall>c. th k \<noteq> Holding c \<Longrightarrow> held (th(k := Holding conn)) = insert conn (held th)"
  by (auto simp: held_def)

lemma held_give:
  assumes "one_holder th" and "th k = Holding conn" and "\<forall>c. v \<noteq> Holding c"
  shows "held (th(k := v)) = held th - {conn}"
proof -
  have "(\<exists>i. (th(k := v)) i = Holding c) \<longleftrightarrow> (\<exists>i. th i = Holding c) \<and> c \<noteq> conn" for c
    using assms unfolding one_holder_def by (metis fun_upd_apply thread.inject)
  then show ?thesis by (auto simp only: held_def mem_Collect_eq)
qed

lemma one_holder_free [simp]: "one_holder th \<Longrightarrow> \<forall>c. v \<noteq> Holding c \<Longrightarrow> one_holder (th(k := v))"
  unfolding one_holder_def by (metis fun_upd_apply)

lemma one_holder_take [simp]: "one_holder th \<Longrightarrow> conn \<notin> held th \<Longrightarrow> one_holder (th(k := Holding conn))"
  unfolding one_holder_def held_def by (auto simp: fun_upd_apply)

lemma waking_move: "waking (th(k := v)) = (if v = Woken \<or> v = Notifying then insert k (waking th) else waking th - {k})"
  by (auto simp: waking_def)

lemma in_waking [simp]: "i \<in> waking th \<longleftrightarrow> th i = Woken \<or> th i = Notifying"
  by (simp add: waking_def)

lemma pool_owned_step: "pool_step s s' \<Longrightarrow> pool_owned s \<Longrightarrow> pool_owned s'"
proof (induction rule: pool_step.induct)
  case (step_acquire s i conn p)
  then show ?case by (auto simp: pool_owned_def acquire_Some split: if_splits)
next
  case (step_release s i conn)
  have "held ((ps_threads s)(i := Notifying)) = held (ps_threads s) - {conn}"
    using step_release by (intro held_give) (simp_all add: pool_owned_def)
  moreover have "conn \<in> held (ps_threads s)" using step_release by (auto simp: held_def)
  ultimately show ?case using step_release(2) by (auto simp: pool_owned_def pool_release_def)
qed (auto simp: pool_owned_def split: if_splits)

lemma pool_awake_step: "pool_step s s' \<Longrightarrow> pool_awake s \<Longrightarrow> pool_awake s'"
proof (induction rule: pool_step.induct)
  case (step_acquire s i conn p)
  then show ?case by (auto simp: pool_awake_def acquire_Some waking_move card_Diff_singleton_if split: if_splits)
next
  case (step_sleep s i)
  then show ?case by (auto simp: pool_awake_def acquire_None waking_move)
next
  case (step_release s i conn)
  then show ?case by (auto simp: pool_awake_def pool_release_def waking_move split: if_splits)
next
  case (step_notify s i j)
  have "j \<noteq> i" "i \<in> waking (ps_threads s)" "j \<notin> waking (ps_threads s)" using step_notify by auto
  moreover have "finite (waking (ps_threads s))" using step_notify(3) by (simp add: pool_awake_def)
  ultimately have "card (insert j (waking (ps_threads s) - {i})) = card (waking (ps_threads s))"
    by (metis DiffD1 card_Suc_Diff1 card_insert_disjoint finite_Diff)
  then have "card (waking ((ps_threads s)(i := Outside, j := Woken))) = card (waking (ps_threads s))"
    by (simp add: waking_move)
  then show ?case using step_notify by (auto simp: pool_awake_def waking_move)
next
  case (step_notify_none s i)
  then show ?case by (auto simp: pool_awake_def waking_move split: if_splits)
next
  case (step_spurious s j)
  then show ?case by (auto simp: pool_awake_def waking_move intro: le_SucI)
qed

lemma pool_step_connections: "pool_step s s' \<Longrightarrow> pl_connections (ps_pool s') = pl_connections (ps_pool s)"
  by (induction rule: pool_step.induct) (auto simp: acquire_Some pool_release_def)

lemma pool_reachable_inv:
  assumes "MetadataStore_open connect schema prepare n = Inr p" and "pool_reachable p s"
  shows "pool_owned s \<and> pool_awake s \<and> pl_connections (ps_pool s) = [0..<max 1 n]"
  using assms(2)
proof (induction rule: pool_reachable.induct)
  case reach_start
  show ?case using MetadataStore_open_spec [OF assms(1)]
    by (simp add: pool_owned_def pool_awake_def held_def waking_def one_holder_def)
next
  case (reach_step s s')
  then show ?case using pool_owned_step pool_awake_step pool_step_connections by simp
qed

section \<open>What the pool guarantees\<close>

text \<open>
  C22: No connection is ever used by two threads, and none is lost: whatever the threads do, every
  connection of the pool is either in the queue, once, or held by exactly one thread.
\<close>

theorem pool_exclusive:
  assumes "MetadataStore_open connect schema prepare n = Inr p" and "pool_reachable p s"
  shows "distinct (pl_available (ps_pool s)) \<and> (\<forall>conn < max 1 n. (conn \<in> set (pl_available (ps_pool s))) \<noteq>
      (\<exists>!i. ps_threads s i = Holding conn)) \<and>
    (\<forall>i conn. ps_threads s i = Holding conn \<longrightarrow> conn < max 1 n)"
proof -
  note inv = pool_reachable_inv [OF assms]
  then have o: "pool_owned s" and c: "set (pl_connections (ps_pool s)) = {..<max 1 n}" by auto
  have "(conn \<in> set (pl_available (ps_pool s))) \<noteq> (\<exists>!i. ps_threads s i = Holding conn)" if "conn < max 1 n" for conn
  proof -
    have "conn \<in> set (pl_available (ps_pool s)) \<union> held (ps_threads s)" using o c that by (simp add: pool_owned_def)
    moreover have "conn \<in> held (ps_threads s) \<longleftrightarrow> (\<exists>!i. ps_threads s i = Holding conn)"
      using o unfolding pool_owned_def one_holder_def held_def by blast
    ultimately show ?thesis using o unfolding pool_owned_def by blast
  qed
  moreover have "conn < max 1 n" if "ps_threads s i = Holding conn" for i conn
    using o c that unfolding pool_owned_def held_def by blast
  ultimately show ?thesis using o by (auto simp: pool_owned_def)
qed

text \<open>
  C23: No wakeup is lost: whenever a connection is available while a thread sleeps, another thread
  is awake inside the pool that will take a connection or wake a sleeper, although \<open>notify_one\<close> is
  called outside the lock and newcomers may overtake a woken thread.
\<close>

theorem pool_no_lost_wakeup:
  assumes "MetadataStore_open connect schema prepare n = Inr p" and "pool_reachable p s"
    and "ps_threads s i = Asleep" and "pl_available (ps_pool s) \<noteq> []"
  shows "\<exists>j conn p'. (ps_threads s j = Woken \<and> pool_acquire (ps_pool s) = Some (conn, p') \<and>
        pool_step s (s\<lparr>ps_pool := p', ps_threads := (ps_threads s)(j := Holding conn)\<rparr>)) \<or>
      (ps_threads s j = Notifying \<and> pool_step s (s\<lparr>ps_threads := (ps_threads s)(j := Outside, i := Woken)\<rparr>))"
proof -
  have a: "pool_awake s" using pool_reachable_inv [OF assms(1,2)] by blast
  then have "0 < card (waking (ps_threads s))" using assms(3,4) by (auto simp: pool_awake_def neq_Nil_conv)
  then obtain j where "j \<in> waking (ps_threads s)" by (auto simp only: card_gt_0_iff)
  then have j: "ps_threads s j = Woken \<or> ps_threads s j = Notifying" by simp
  obtain conn p' where "pool_acquire (ps_pool s) = Some (conn, p')"
    using assms(4) by (cases "pool_acquire (ps_pool s)") (auto simp: acquire_None)
  then show ?thesis using j step_acquire [of s j conn p'] step_notify [of s j i] assms(3) by blast
qed

text \<open>
  The threads cannot deadlock: if a thread sleeps, some other thread can move on its own.
\<close>

theorem pool_no_deadlock:
  assumes "MetadataStore_open connect schema prepare n = Inr p" and "pool_reachable p s" and "ps_threads s i = Asleep"
  shows "\<exists>j. ps_threads s j \<notin> {Outside, Asleep} \<and> (\<exists>s'. pool_step s s' \<and> ps_threads s' j \<noteq> ps_threads s j)"
proof (cases "waking (ps_threads s) = {}")
  case True
  note inv = pool_reachable_inv [OF assms(1,2)]
  have "pl_available (ps_pool s) = []" using inv assms(3) True by (auto simp: pool_awake_def)
  moreover have "0 \<in> set (pl_connections (ps_pool s))" using inv by auto
  ultimately have "0 \<in> held (ps_threads s)" using inv unfolding pool_owned_def by auto
  then obtain j where j: "ps_threads s j = Holding 0" by (auto simp: held_def)
  then show ?thesis using step_release [OF j] by (intro exI [of _ j]) auto
next
  case False
  then obtain j where "j \<in> waking (ps_threads s)" by blast
  then have "ps_threads s j = Woken \<or> ps_threads s j = Notifying" by simp
  then show ?thesis
  proof
    assume w: "ps_threads s j = Woken"
    show ?thesis
    proof (cases "pool_acquire (ps_pool s)")
      case None
      then show ?thesis using step_sleep [of s j] w by (intro exI [of _ j]) auto
    next
      case (Some x)
      then show ?thesis using step_acquire [of s j "fst x" "snd x"] w by (intro exI [of _ j]) auto
    qed
  next
    assume nj: "ps_threads s j = Notifying"
    have "j \<noteq> i" using nj assms(3) by auto
    then show ?thesis using step_notify [OF nj assms(3)] nj
      by (intro exI [of _ j] conjI exI [of _ "s\<lparr>ps_threads := (ps_threads s)(j := Outside, i := Woken)\<rparr>"]) auto
  qed
qed

section \<open>A run\<close>

text \<open>A pool of one connection: thread 0 takes it, thread 1 sleeps, thread 0 gives it back.\<close>

definition pool1 :: pool where
  "pool1 = \<lparr>pl_connections = [0], pl_available = [0]\<rparr>"

definition waiting1 :: pool_system where
  "waiting1 = \<lparr>ps_pool = pool1\<lparr>pl_available := []\<rparr>, ps_threads = (\<lambda>i. Outside)(0 := Holding 0, 1 := Asleep)\<rparr>"

definition released1 :: pool_system where
  "released1 = \<lparr>ps_pool = pool1, ps_threads = (\<lambda>i. Outside)(0 := Notifying, 1 := Asleep)\<rparr>"

lemma open1: "MetadataStore_open (\<lambda>i. Inr ()) (Inr ()) (\<lambda>i. Inr ()) 0 = Inr pool1"
  by (simp add: MetadataStore_open_def pool1_def)

lemma reach_waiting1: "pool_reachable pool1 waiting1"
proof -
  let ?s0 = "\<lparr>ps_pool = pool1, ps_threads = (\<lambda>i. Outside)\<rparr>"
  let ?s1 = "?s0\<lparr>ps_pool := pool1\<lparr>pl_available := []\<rparr>, ps_threads := (ps_threads ?s0)(0 := Holding 0)\<rparr>"
  have a: "pool_step ?s0 ?s1" by (rule step_acquire) (simp_all add: pool1_def pool_acquire_def)
  have b: "pool_step ?s1 (?s1\<lparr>ps_threads := (ps_threads ?s1)(1 := Asleep)\<rparr>)"
    by (rule step_sleep) (simp_all add: pool1_def pool_acquire_def)
  show ?thesis using reach_step [OF reach_step [OF reach_start a] b] by (simp add: waiting1_def)
qed

lemma reach_released1: "pool_reachable pool1 released1"
proof -
  have "pool_step waiting1 (waiting1\<lparr>ps_pool := pool_release 0 (ps_pool waiting1), ps_threads := (ps_threads waiting1)(0 := Notifying)\<rparr>)"
    by (rule step_release) (simp add: waiting1_def)
  then have "pool_step waiting1 released1"
    by (simp add: waiting1_def released1_def pool_release_def pool1_def fun_upd_twist)
  then show ?thesis using reach_waiting1 by (rule reach_step [rotated])
qed

theorem pool_exclusive_witness:
  "(0 \<in> set (pl_available (ps_pool waiting1))) \<noteq> (\<exists>!i. ps_threads waiting1 i = Holding 0)"
  using pool_exclusive [OF open1 reach_waiting1] by auto

theorem pool_no_lost_wakeup_witness:
  "\<exists>j. ps_threads released1 j = Woken \<or> ps_threads released1 j = Notifying"
proof -
  have "ps_threads released1 1 = Asleep" "pl_available (ps_pool released1) \<noteq> []" by (simp_all add: released1_def pool1_def)
  then show ?thesis using pool_no_lost_wakeup [OF open1 reach_released1] by blast
qed

theorem pool_no_deadlock_witness:
  "\<exists>j. ps_threads waiting1 j \<notin> {Outside, Asleep} \<and> (\<exists>s'. pool_step waiting1 s' \<and> ps_threads s' j \<noteq> ps_threads waiting1 j)"
proof -
  have "ps_threads waiting1 1 = Asleep" by (simp add: waiting1_def)
  then show ?thesis by (rule pool_no_deadlock [OF open1 reach_waiting1])
qed

end
