(* ===== verification/Client_Server_Witnesses.thy ===== *)
theory Client_Server_Witnesses
  imports Client_Server_Properties Client_Witnesses
begin

text \<open>
  Witnesses of the server's properties: the object of \<open>Client_Witnesses\<close>, put and read over HTTP.
\<close>

definition ref_base64 :: base64_lib where
  "ref_base64 = \<lparr>b64_decode = (\<lambda>s. Some (bytes_of_string s)), b64_encode = string_of_bytes\<rparr>"

definition object_request :: "string \<Rightarrow> string \<Rightarrow> http_request" where
  "object_request object_id body = \<lparr>rq_params = [], rq_path_params = [(''id'', object_id)], rq_body = body\<rparr>"

definition put_body :: string where
  "put_body = the (json_dump ref_json (JObj [(''data'', JStr (string_of_bytes data1)), (''k'', JInt 2), (''m'', JInt 1),
     (''shard_size'', JInt 2)]))"

definition draws1 :: server_draws where
  "draws1 = \<lparr>sd_put = draws0, sd_repair = \<lparr>rd_nonces = (\<lambda>i. []), rd_version = [], rd_now = 0\<rparr>, sd_timing = zero_timing\<rparr>"

abbreviation put_outcome :: "http_response \<times> (ref_db cluster, nat) client" where
  "put_outcome \<equiv> client_server ref_libs ref_base64 draws1 PUT ''/objects/:id'' (object_request oid0 put_body) client0"

lemma payload1: "put_payload ref_json ref_base64 put_body = Inr (data1, spec2)"
  by code_simp

lemma put_outcome: "rs_status (fst put_outcome) = 200" "snd put_outcome = client1"
proof -
  have "StorageClient_put ref_libs (sd_put draws1) client0 oid0 data1 spec2 = (Inr (), client1)"
    using put1 by (simp add: draws1_def prod_eq_iff)
  moreover have "route_of PUT ''/objects/:id'' = Some Put_Object" "oid0 \<noteq> []" "rs_status (response_of (reply_ok ref_json)) = 200"
    by code_simp+
  moreover have "lb_json ref_libs = ref_json" by (simp add: ref_libs_def)
  ultimately show "rs_status (fst put_outcome) = 200" "snd put_outcome = client1"
    by (simp_all add: client_server_def handle_put_object_def with_id_def object_request_def payload1)
qed

theorem http_put_then_get_witness:
  "carries ref_json ref_base64 (fst (client_server ref_libs ref_base64 draws1 GET ''/objects/:id'' (object_request oid0 []) client1)) data1"
proof -
  have j: "lb_json ref_libs = ref_json" by (simp add: ref_libs_def)
  have p: "client_server ref_libs ref_base64 draws1 PUT ''/objects/:id'' (object_request oid0 put_body) client0 = (fst put_outcome, client1)"
    using put_outcome(2) by (metis prod.collapse)
  have b: "base64_ok ref_base64" "json_ok (lb_json ref_libs)" by (simp_all add: base64_ok_def ref_base64_def j json_ok_ref)
  have d: "draws_ok ref_libs (sd_put draws1)" by (simp add: draws_ok_def draws1_def draws0_def ref_libs_def ref_botan_def)
  have t: "tables_ok (lb_pg ref_libs) (sc_catalog client0)" by (simp add: tables_ok_def client0_def)
  have a: "addresses_ok (sc_catalog client0)" by code_simp
  have i: "map_of (rq_path_params (object_request oid0 body)) ''id'' = Some oid0" for body by (simp add: object_request_def)
  have o: "list_all plain_char oid0" by code_simp
  have r: "reads_ok (lb_pg ref_libs) (sc_catalog client1)" by (simp add: ref_libs_def)
  have dump: "json_dump (lb_json ref_libs) (JObj [(''data'', JStr (b64_encode ref_base64 data1))]) \<noteq> None" unfolding j by code_simp
  have n3: "total_shards spec2 = 3" "unat (data_shards spec2) = 2" by (simp_all add: total_shards_def)
  obtain data spec nodes keys where q: "put_payload (lb_json ref_libs) ref_base64 (rq_body (object_request oid0 put_body)) = Inr (data, spec)"
    "\<forall>i<total_shards spec. cluster_shards ref_lmdb (sc_cluster client1) (nodes ! i) (keys ! i) \<noteq> None"
    and get: "\<forall>s2 w' rq' Up. sc_catalog s2 = sc_catalog client1 \<and> map_of (sc_ring s2) (sc_active client0) = map_of (sc_ring client0) (sc_active client0) \<and>
       enough_survive ref_libs ref_lmdb (sd_put draws1) spec nodes keys client1 s2 Up \<and> map_of (rq_path_params rq') ''id'' = Some oid0 \<and>
       json_dump (lb_json ref_libs) (JObj [(''data'', JStr (b64_encode ref_base64 data))]) \<noteq> None \<longrightarrow>
       carries (lb_json ref_libs) ref_base64 (fst (client_server ref_libs ref_base64 w' GET ''/objects/:id'' rq' s2)) data"
    using http_put_then_get [OF libs_ok_ref b d t a i o p put_outcome(1) r] by blast
  have ds: "data = data1" "spec = spec2" using q(1) payload1 by (simp_all add: j object_request_def)
  have s: "survives ref_lmdb client1 client1 (nodes ! i) (keys ! i)" if "i < 3" for i
    using q(2) that put1 unfolding ds n3
    by (auto simp: survives_def cluster_up_def cluster_shards_def split: option.splits)
  have "enough_survive ref_libs ref_lmdb (sd_put draws1) spec2 nodes keys client1 client1 {..<3}"
    using s by (simp add: enough_survive_def n3)
  moreover have "StorageClient_put ref_libs draws0 client0 oid0 data1 spec2 = (Inr (), client1)" using put1 by (metis prod.collapse)
  ultimately show ?thesis
    using get [rule_format, of client1 "{..<3}" "object_request oid0 []" draws1] put_decompose i dump unfolding ds j by (metis (no_types, lifting))
qed

theorem client_server_refused_witness:
  "snd (client_server ref_libs ref_base64 draws1 PUT ''/objects/:id'' (object_request oid0 []) client1) = client1"
proof (rule client_server_refused [OF surjective_pairing])
  have "route_of PUT ''/objects/:id'' = Some Put_Object" "oid0 \<noteq> []"
    "put_payload ref_json ref_base64 [] = Inl ''invalid JSON body''" "rs_status (response_of (reply_error ref_json 400 ''invalid JSON body'')) = 400"
    by code_simp+
  moreover have "lb_json ref_libs = ref_json" by (simp add: ref_libs_def)
  ultimately show "rs_status (fst (client_server ref_libs ref_base64 draws1 PUT ''/objects/:id'' (object_request oid0 []) client1)) = 400 \<or>
      route_of PUT ''/objects/:id'' = None"
    by (simp add: client_server_def handle_put_object_def with_id_def object_request_def)
qed

theorem client_server_get_safe_witness:
  "sc_catalog (snd (client_server ref_libs ref_base64 draws1 GET ''/objects/:id/health'' (object_request oid0 []) client1)) = sc_catalog client1"
  using client_server_get_safe [OF libs_ok_ref surjective_pairing] by blast

end
