(* ===== verification/Spec2Isabelle.thy ===== *)
theory Spec2Isabelle
  imports Erasure_Witnesses Hrw_Placement Rebalance_Witnesses Reindex_Witnesses Programs_Witnesses Connection_Pool Catalog_Spec
    Client_Server_Witnesses
begin

text \<open>
  Verification of the PQDOS object store (the C++ code under \<^verbatim>\<open>src/core\<close>, \<^verbatim>\<open>src/include\<close>
  and \<^verbatim>\<open>src/cmd\<close>).

  \<^bold>\<open>The program.\<close> A client (\<^verbatim>\<open>StorageClient\<close>) splits an object into \<open>k\<close> data and \<open>m\<close> parity shards
  (\<^verbatim>\<open>ErasureCodec\<close>), encrypts each under a fresh data key that is wrapped by a key of the ring
  (\<^verbatim>\<open>Crypto\<close>), chooses one node per shard by rendezvous hashing and stores the shards over HTTP
  (\<^verbatim>\<open>ShardTransport\<close>) on the nodes (\<^verbatim>\<open>StorageNodeServer\<close> over \<^verbatim>\<open>StorageNode\<close>, an LMDB database each).
  What an object consists of and where its shards are is in a PostgreSQL catalog (\<^verbatim>\<open>MetadataStore\<close>).
  Repair rebuilds missing shards, rebalance moves shards to their intended nodes, reindex rebuilds
  the catalog from the shards. \<^verbatim>\<open>StorageClientServer\<close> offers all of this over HTTP.

  \<^bold>\<open>Theories and sources,\<close> each model in the order of its source file:
  \<^item> \<open>Prelude\<close>: bytes, exceptions and results, the used parts of the C++ library. \<open>Http\<close>: requests,
    responses and JSON values. \<open>Models\<close>: \<^verbatim>\<open>Models.hpp\<close>.
  \<^item> \<open>Erasure_Codec\<close>: \<^verbatim>\<open>ErasureCodec.cpp\<close> (\<open>encode\<close>, \<open>decode\<close>). \<open>Crypto\<close>: \<^verbatim>\<open>Crypto.cpp\<close>. \<open>Metrics\<close>:
    \<^verbatim>\<open>MetricsCollector.cpp\<close>.
  \<^item> \<open>Storage_Node\<close>: \<^verbatim>\<open>StorageNode.cpp\<close>. \<open>Node_Server\<close>: \<^verbatim>\<open>StorageNodeServer.cpp\<close>.
  \<^item> \<open>Shard_Keys\<close>, \<open>Hrw_Placement\<close>, \<open>Shard_Transport\<close>: \<^verbatim>\<open>ShardTransport.cpp\<close>. \<open>Cluster\<close>: many node
    servers behind a network that may lose requests and replies.
  \<^item> \<open>Metadata_Store\<close>: \<^verbatim>\<open>MetadataStore.cpp\<close>, tables, statements and transactions. \<open>Connection_Pool\<close>: its
    constructor, \<open>acquire\<close> and \<open>release\<close>, and the threads that use them. \<open>Catalog_Spec\<close>: the abstract
    map that the store implements.
  \<^item> \<open>Storage_Client\<close>, \<open>Repair\<close>, \<open>Rebalance\<close>, \<open>Reindex\<close>: \<^verbatim>\<open>StorageClient.cpp\<close>. \<open>Client_Server\<close>:
    \<^verbatim>\<open>StorageClientServer.cpp\<close>.
  \<^item> \<open>Object_Store\<close>: the abstract specification of the client, a map from ids to bytes, with the runs of
    client operations, outages and losses (\<open>client_run\<close>); \<open>Object_Store_Steps\<close>: every operation
    refines it; \<open>Object_Store_Frames\<close>: what an operation on one object leaves alone.
  \<^item> \<open>Programs\<close>: the entry points and benchmark drivers of \<^verbatim>\<open>src/cmd\<close> (\<^verbatim>\<open>StorageNodeMain.cpp\<close>,
    \<^verbatim>\<open>StorageClientMain.cpp\<close>, \<^verbatim>\<open>BenchmarkMain.cpp\<close>, \<^verbatim>\<open>MetadataBenchmarkMain.cpp\<close>).
  \<^item> \<open>X_Lemmas\<close>, \<open>X_Properties\<close>, \<open>X_Witnesses\<close> hold what is proved about \<open>X\<close>; \<open>Object_State\<close> the
    invariant of one stored object that get, repair, rebalance and reindex share.
  \<^item> \<open>Reference_Isal\<close>, \<open>Reference_Node\<close>: concrete libraries for the witnesses.

  \<^bold>\<open>State.\<close> The record \<open>client\<close> is what the operations share: the nodes and the network, the catalog's
  tables, the key ring with its active key, the key file, the metrics. Operations take it and return a
  result (\<open>Inl\<close> an exception, \<open>Inr\<close> a value) with the new state, on every path. Random bytes, clocks
  and measured times are arguments. Where other clients may act between two accesses to the catalog
  (\<open>repair_between\<close>, \<open>rebalance_object_between\<close>, \<open>MetadataStore_get_between\<close>) the tables seen by the
  later access are an argument of their own. Loops over tasks that the code runs with \<open>std::async\<close>
  are run in the order their results are awaited. Undefined behaviour (an access past the end of an
  array) is an outcome of its own, \<open>UndefinedBehaviour\<close>.

  \<^bold>\<open>Libraries\<close> are arguments, collected in \<open>libs\<close>, and what is assumed of them is named: \<open>isal_ok\<close>
  (ISA-L: the generator has an identity on top, products are over a field, inversion inverts or
  refuses), \<open>gcm_ok\<close>, \<open>kem_ok\<close>, \<open>pem_ok\<close> (Botan: decryption gives back what was encrypted and nothing
  else authenticates), \<open>msgpack_ok\<close>, \<open>json_ok\<close>, \<open>base64_ok\<close> (round trips), \<open>lmdb_ok\<close>, \<open>targets_ok\<close>
  (httplib parses the targets the client builds), \<open>postgres_ok\<close> (UUID text is canonical once), and
  \<open>order_ok\<close> (a hash map is visited in some order, every key once). Which SQL statement fails and how
  a commit ends is left open. \<open>libs_ok\<close> is all of them, \<open>libs_ok_ref\<close> and \<open>small_libs_ok\<close> show that
  concrete libraries meet it.

  \<^bold>\<open>Interfaces.\<close> \<open>shard_service\<close> and \<open>shard_listing\<close> (Shard_Transport): what the client relies on from
  the nodes, interpreted on the cluster of node servers. \<open>ranking\<close> (Hrw_Placement): the strict order
  the greedy placement needs, interpreted on the hash weights. \<open>version_fence\<close> (Metadata_Store): what
  optimistic concurrency needs from a versioned store, interpreted on the catalog.

  \<^bold>\<open>What is shown.\<close>
  \<^item> Objects: a put object is read back exactly while \<open>k\<close> of its shards survive (\<open>put_then_get\<close>, over
    HTTP \<open>http_put_then_get\<close>); any \<open>k\<close> shards decode, and genuine shards never decode to other bytes
    (\<open>decode_encode\<close>, \<open>decode_never_wrong\<close>). That any \<open>k\<close> decode is the hypothesis \<open>isal_invertible\<close> on
    the generator; without it, the data shards do.
  \<^item> The store as a whole: any run of put, get, remove, repair, rebalance, rotate, health and node
    registration, with outages and losses of shards between them, answers like one abstract map
    (\<open>client_refines_store\<close>), and an object that was stored stays readable while \<open>k\<close> of its listed
    locations answer (\<open>stored_object_survives\<close>). Two hypotheses are made of the runs' steps: object
    ids are canonical UUIDs, and a put draws a version that no listed shard of that object has yet.
    Reindex is not a step of these runs, since it may bring back entries of any content it finds.
  \<^item> Maintenance: repair keeps and heals the object (\<open>repair_keeps_object\<close>, \<open>repair_heals\<close>); rebalance
    keeps every object bit for bit, makes progress and stays within its budget; reindex restores lost
    entries, picks the newest recoverable version and touches nothing that is there
    (\<open>reindex_restores\<close>, \<open>reindex_newest_recoverable\<close>, \<open>reindex_no_clobber\<close>); a version that changed
    in between fences both repair and rebalance off.
  \<^item> Catalog: its constraints are invariant, it refines an abstract map (\<open>catalog_refines_map\<close>), of two
    conditional puts with the same version one wins; the pool gives a connection to one thread at a
    time and loses no wakeup.
  \<^item> Nodes, transport, placement, keys: atomic node operations, the cursor scan ends and is complete,
    sound and complete fetching, placement depends on the set of nodes only, key files round trip.
  \<^item> Servers: every reply is well formed, refused requests have no effect, GET is safe.
  \<^item> Programs: the benchmark driver never reads wrong bytes and touches no key, entry or shard of other
    objects, whatever faults it injects (\<open>benchmark_sound\<close>); the metadata benchmark leaves the catalog as it found it
    (\<open>metadata_benchmark_cleans_up\<close>).
  \<^item> Edges where the code does less than it says: \<open>encode_sum_wraps\<close>, \<open>k_shards_may_not_suffice\<close>,
    \<open>bounded_rebalance_colocates\<close>, \<open>reindex_stops_at_manifest\<close>, \<open>rotate_failure_not_undone\<close>,
    \<open>version_fence_aba\<close>, \<open>get_torn_read\<close>, \<open>put_fields_truncated\<close> and others; but for
    \<open>reindex_stops_at_manifest\<close>, which says exactly when a pass stops, each is a concrete run.

  \<^bold>\<open>Termination and bounds.\<close> No fuel is used. The two loops that need not end (\<open>cursor_scan\<close> over
  LMDB's cursor, \<open>fresh_kek_id\<close>) are partial functions into an option, and that they end is proved
  (\<open>node_list_complete\<close>, \<open>rotate_keeps_keys\<close>). Shard counts and indices are 32-bit words and sizes
  64-bit words, with the code's wrap-around; counters of things held in memory are natural numbers.

  \<^bold>\<open>Not modelled.\<close> Starting and stopping the HTTP servers, the router of httplib (a route's pattern is
  an argument), elapsed times beyond being arguments, the progress lines of the metadata benchmark,
  and how operations of one client object interleave on its key ring and its metrics. The JSON,
  MessagePack and Base64 texts, HTTP parsing, the cipher and SQL engines are library code. The tests
  under \<^verbatim>\<open>src/tests\<close> are not part of the program.
\<close>

end
